(* ===== verification/Prelude.thy ===== *)
theory Prelude
  imports Main "HOL-Library.Word" "HOL-Library.Sublist"
begin

text \<open>
  What every component of the development shares: the named collections of
  facts that carry the component proofs, the sizes and constants of the
  platform (Linux on x86-64, LP64) that the C programs use, the two's
  complement reading of C integers, and generic facts on lists that are about
  none of the programs in particular.
\<close>

section \<open>Collections of facts\<close>

named_theorems prog_simps \<open>computation rules of the program monad\<close>
named_theorems wp_simps \<open>weakest precondition equations of the program monad\<close>
named_theorems emits_intros \<open>introduction rules for statements about the events a program adds\<close>
named_theorems cstr_simps \<open>evaluation rules of the C string library\<close>
named_theorems shrink_intros \<open>introduction rules for programs that only use up replies\<close>
named_theorems step_intros \<open>introduction rules of the step relations\<close>


section \<open>Platform constants\<close>

text \<open>The values of \<open>errno\<close> that the sources test or set (Linux, asm-generic).\<close>

abbreviation (input) EINTR :: int where "EINTR \<equiv> 4"
abbreviation (input) ENOMEM :: int where "ENOMEM \<equiv> 12"
abbreviation (input) EEXIST :: int where "EEXIST \<equiv> 17"
abbreviation (input) EINVAL :: int where "EINVAL \<equiv> 22"
abbreviation (input) EDEADLK :: int where "EDEADLK \<equiv> 35"
abbreviation (input) ETIME :: int where "ETIME \<equiv> 62"
abbreviation (input) EOWNERDEAD :: int where "EOWNERDEAD \<equiv> 130"

abbreviation (input) EXIT_FAILURE :: int where "EXIT_FAILURE \<equiv> 1"
abbreviation (input) EXIT_SUCCESS :: int where "EXIT_SUCCESS \<equiv> 0"

text \<open>\<open>FD_SETSIZE\<close>, \<open>PIPE_BUF\<close> and \<open>PATH_MAX\<close> of Linux.\<close>

abbreviation (input) FD_SETSIZE :: int where "FD_SETSIZE \<equiv> 1024"
abbreviation (input) PIPE_BUF :: nat where "PIPE_BUF \<equiv> 4096"
abbreviation (input) PATH_MAX :: nat where "PATH_MAX \<equiv> 4096"


section \<open>C integers\<close>

text \<open>
  \<open>int\<close> and \<open>long\<close> values are kept as HOL integers; where the code converts to
  a width, the conversion is written out as the two's complement reading of
  the low bits, which is what gcc does.
\<close>

definition s32 :: "int \<Rightarrow> int" where
  "s32 x = signed_take_bit 31 x"

definition s64 :: "int \<Rightarrow> int" where
  "s64 x = signed_take_bit 63 x"

definition INT_MAX :: int where "INT_MAX = 2147483647"
definition INT_MIN :: int where "INT_MIN = - 2147483648"
definition LONG_MAX :: int where "LONG_MAX = 9223372036854775807"
definition LONG_MIN :: int where "LONG_MIN = - 9223372036854775808"

lemmas c_limits = INT_MAX_def INT_MIN_def LONG_MAX_def LONG_MIN_def

lemma s32_id: "INT_MIN \<le> x \<Longrightarrow> x \<le> INT_MAX \<Longrightarrow> s32 x = x"
  by (simp add: s32_def c_limits signed_take_bit_int_eq_self_iff)

lemma s64_id: "LONG_MIN \<le> x \<Longrightarrow> x \<le> LONG_MAX \<Longrightarrow> s64 x = x"
  by (simp add: s64_def c_limits signed_take_bit_int_eq_self_iff)

lemma s32_range: "INT_MIN \<le> s32 x \<and> s32 x \<le> INT_MAX"
proof -
  have "- (2 ^ 31) \<le> signed_take_bit 31 x" "signed_take_bit 31 x < 2 ^ 31"
    by (rule signed_take_bit_int_greater_eq_minus_exp, rule signed_take_bit_int_less_exp)
  then show ?thesis by (simp add: s32_def c_limits)
qed

text \<open>
  The result of signed arithmetic: an overflow is undefined, which is \<open>None\<close>.
\<close>

definition ck_int :: "int \<Rightarrow> int option" where
  "ck_int x = (if INT_MIN \<le> x \<and> x \<le> INT_MAX then Some x else None)"

definition ck_long :: "int \<Rightarrow> int option" where
  "ck_long x = (if LONG_MIN \<le> x \<and> x \<le> LONG_MAX then Some x else None)"

lemma ck_int_eq [simp]: "ck_int x = Some y \<longleftrightarrow> y = x \<and> INT_MIN \<le> x \<and> x \<le> INT_MAX"
  by (auto simp: ck_int_def)

lemma ck_long_eq [simp]: "ck_long x = Some y \<longleftrightarrow> y = x \<and> LONG_MIN \<le> x \<and> x \<le> LONG_MAX"
  by (auto simp: ck_long_def)

text \<open>\<open>size_t\<close> arithmetic wraps modulo \<open>2 ^ 64\<close>.\<close>

definition u64 :: "int \<Rightarrow> nat" where
  "u64 x = nat (x mod 2 ^ 64)"

lemma u64_id: "0 \<le> x \<Longrightarrow> x < 2 ^ 64 \<Longrightarrow> u64 x = nat x"
  by (simp add: u64_def)

text \<open>Division and remainder of C truncate towards zero.\<close>

definition c_div :: "int \<Rightarrow> int \<Rightarrow> int" where
  "c_div a b = sgn a * sgn b * (\<bar>a\<bar> div \<bar>b\<bar>)"

definition c_mod :: "int \<Rightarrow> int \<Rightarrow> int" where
  "c_mod a b = a - b * c_div a b"

lemma c_div_nonneg [simp]: "0 \<le> a \<Longrightarrow> 0 < b \<Longrightarrow> c_div a b = a div b"
  by (cases "a = 0") (auto simp: c_div_def)

lemma c_mod_nonneg [simp]: "0 \<le> a \<Longrightarrow> 0 < b \<Longrightarrow> c_mod a b = a mod b"
  by (simp add: c_mod_def minus_mult_div_eq_mod)


section \<open>Lists\<close>

lemma take_append_drop_take: "take n xs @ take m (drop n xs) = take (n + m) xs"
  by (simp add: take_add)

lemma concat_map_append_single [simp]:
  "concat (map f (xs @ [x])) = concat (map f xs) @ f x"
  by simp

lemma list_all_append_iff [simp]: "list_all P (xs @ ys) \<longleftrightarrow> list_all P xs \<and> list_all P ys"
  by (induction xs) auto

lemma takeWhile_append_stop:
  "\<forall>x\<in>set xs. P x \<Longrightarrow> \<not> P y \<Longrightarrow> takeWhile P (xs @ y # ys) = xs"
  by (induction xs) auto

lemma dropWhile_append_stop:
  "\<forall>x\<in>set xs. P x \<Longrightarrow> \<not> P y \<Longrightarrow> dropWhile P (xs @ y # ys) = y # ys"
  by (induction xs) auto


section \<open>Times\<close>

text \<open>
  \<open>struct timeval\<close>. A normalised time has its microseconds in
  \<open>[0, 1000000)\<close>; normalised times are ordered by their seconds first, which
  is the order of the instants they name.
\<close>

datatype timeval = Timeval (tv_sec: int) (tv_usec: int)

definition usecs :: "timeval \<Rightarrow> int" where
  "usecs t = tv_sec t * 1000000 + tv_usec t"

definition normal_tv :: "timeval \<Rightarrow> bool" where
  "normal_tv t \<longleftrightarrow> 0 \<le> tv_usec t \<and> tv_usec t < 1000000"

instantiation timeval :: linorder
begin

definition less_eq_timeval :: "timeval \<Rightarrow> timeval \<Rightarrow> bool" where
  "less_eq_timeval a b \<longleftrightarrow> tv_sec a < tv_sec b \<or> (tv_sec a = tv_sec b \<and> tv_usec a \<le> tv_usec b)"

definition less_timeval :: "timeval \<Rightarrow> timeval \<Rightarrow> bool" where
  "less_timeval a b \<longleftrightarrow> tv_sec a < tv_sec b \<or> (tv_sec a = tv_sec b \<and> tv_usec a < tv_usec b)"

instance
  by standard (auto simp: less_eq_timeval_def less_timeval_def timeval.expand)

end

lemma usecs_less_iff: "normal_tv a \<Longrightarrow> normal_tv b \<Longrightarrow> usecs a < usecs b \<longleftrightarrow> a < b"
  by (auto simp: usecs_def normal_tv_def less_timeval_def)

end
