(* ===== verification/Clib.thy ===== *)
theory Clib
  imports Prelude
begin

text \<open>
  The functions of the C library that the programs compute with: strings,
  tokens, number conversion, formatted output to a buffer, and updates of
  character arrays. A C string is a \<open>string\<close> without its terminating NUL; a
  character array is the list of its bytes, NULs included.
\<close>

section \<open>Characters\<close>

abbreviation (input) NUL :: char where "NUL \<equiv> CHR 0x00"
abbreviation (input) LF :: char where "LF \<equiv> CHR 0x0A"
abbreviation (input) CR :: char where "CR \<equiv> CHR 0x0D"
abbreviation (input) TAB :: char where "TAB \<equiv> CHR 0x09"

definition code :: "char \<Rightarrow> nat" where
  "code c = of_char c"

lemma bit_chars: "char_of (48::nat) = CHR ''0''" "char_of (49::nat) = CHR ''1''"
  by code_simp+

lemma code_less: "code c < 256"
  by (simp add: code_def of_char_def)

lemma code_inject [simp]: "code c = code d \<longleftrightarrow> c = d"
  by (simp add: code_def)

lemma code_NUL [simp]: "code NUL = 0"
  by (simp add: code_def)

lemma code_0_iff [simp]: "code c = 0 \<longleftrightarrow> c = NUL"
  using code_inject[of c NUL] by simp

lemma char_of_code [simp]: "char_of (code c) = c"
  by (simp add: code_def)

definition isdigit :: "char \<Rightarrow> bool" where
  "isdigit c \<longleftrightarrow> 48 \<le> code c \<and> code c \<le> 57"

definition isspace :: "char \<Rightarrow> bool" where
  "isspace c \<longleftrightarrow> code c = 32 \<or> (9 \<le> code c \<and> code c \<le> 13)"

definition tolower :: "char \<Rightarrow> char" where
  "tolower c = (if 65 \<le> code c \<and> code c \<le> 90 then char_of (code c + 32) else c)"

lemmas char_defs = isdigit_def isspace_def tolower_def code_def


section \<open>Strings\<close>

text \<open>The string a character array holds: its bytes before the first NUL.\<close>

definition cstr :: "char list \<Rightarrow> string" where
  "cstr b = takeWhile (\<lambda>c. c \<noteq> NUL) b"

lemma cstr_append_NUL: "NUL \<notin> set s \<Longrightarrow> cstr (s @ NUL # t) = s"
  unfolding cstr_def by (rule takeWhile_append_stop) auto

lemma cstr_id: "NUL \<notin> set s \<Longrightarrow> cstr s = s"
  by (simp add: cstr_def) (metis takeWhile_eq_all_conv)

lemma cstr_no_NUL: "NUL \<notin> set (cstr b)"
  by (auto simp: cstr_def dest: set_takeWhileD)

lemma length_cstr_le: "length (cstr b) \<le> length b"
  by (simp add: cstr_def length_takeWhile_le)

fun strncmp :: "string \<Rightarrow> string \<Rightarrow> nat \<Rightarrow> int" where
  "strncmp s t 0 = 0"
| "strncmp [] [] (Suc n) = 0"
| "strncmp (a # s) [] (Suc n) = int (code a)"
| "strncmp [] (b # t) (Suc n) = - int (code b)"
| "strncmp (a # s) (b # t) (Suc n) =
     (if a = b then strncmp s t n else int (code a) - int (code b))"

fun strcmp :: "string \<Rightarrow> string \<Rightarrow> int" where
  "strcmp [] [] = 0"
| "strcmp (a # s) [] = int (code a)"
| "strcmp [] (b # t) = - int (code b)"
| "strcmp (a # s) (b # t) = (if a = b then strcmp s t else int (code a) - int (code b))"

lemma strcmp_0_iff: "NUL \<notin> set s \<Longrightarrow> NUL \<notin> set t \<Longrightarrow> strcmp s t = 0 \<longleftrightarrow> s = t"
  by (induction s t rule: strcmp.induct) auto

lemma strncmp_0_iff:
  "NUL \<notin> set s \<Longrightarrow> NUL \<notin> set t \<Longrightarrow> strncmp s t n = 0 \<longleftrightarrow> take n s = take n t"
  by (induction s t n rule: strncmp.induct) auto

text \<open>\<open>strrchr\<close>: the rest of the string from the last occurrence of a character.\<close>

definition strrchr :: "string \<Rightarrow> char \<Rightarrow> string option" where
  "strrchr s c = (if c \<in> set s then Some (c # rev (takeWhile (\<lambda>x. x \<noteq> c) (rev s))) else None)"

text \<open>
  \<open>strtok\<close>: skip delimiters, return the token up to the next delimiter and
  the rest after it; no token when only delimiters are left.
\<close>

definition strtok :: "char list \<Rightarrow> string \<Rightarrow> string option \<times> string" where
  "strtok delims s =
     (let s' = dropWhile (\<lambda>c. c \<in> set delims) s
      in if s' = [] then (None, [])
         else (Some (takeWhile (\<lambda>c. c \<notin> set delims) s'),
               drop 1 (dropWhile (\<lambda>c. c \<notin> set delims) s')))"

lemma strtok_rest_less: "strtok ds s = (Some t, r) \<Longrightarrow> length r < length s"
proof -
  assume a: "strtok ds s = (Some t, r)"
  let ?s' = "dropWhile (\<lambda>c. c \<in> set ds) s"
  from a have ne: "?s' \<noteq> []" and r: "r = drop 1 (dropWhile (\<lambda>c. c \<notin> set ds) ?s')"
    by (auto simp: strtok_def Let_def split: if_splits)
  have "length (dropWhile (\<lambda>c. c \<notin> set ds) ?s') \<le> length ?s'" by (rule length_dropWhile_le)
  moreover have "length ?s' \<le> length s" by (rule length_dropWhile_le)
  ultimately show ?thesis using ne r by (cases ?s') auto
qed

text \<open>
  \<open>fgets(buf, n, fp)\<close> on a stream whose remaining contents are \<open>inp\<close>: NULL at
  end of file, otherwise at most \<open>n - 1\<close> bytes, up to and including the first
  newline, and the rest of the stream.
\<close>

fun fgets_take :: "nat \<Rightarrow> string \<Rightarrow> string \<times> string" where
  "fgets_take 0 s = ([], s)"
| "fgets_take (Suc n) [] = ([], [])"
| "fgets_take (Suc n) (c # cs) =
     (if c = LF then ([c], cs) else (let (l, r) = fgets_take n cs in (c # l, r)))"

definition fgets :: "nat \<Rightarrow> string \<Rightarrow> (string \<times> string) option" where
  "fgets n inp = (if inp = [] then None else Some (fgets_take (n - 1) inp))"

lemma fgets_take_append: "fgets_take n s = (l, r) \<Longrightarrow> s = l @ r"
  by (induction n s arbitrary: l rule: fgets_take.induct)
    (auto split: if_splits prod.splits)

lemma fgets_take_length: "fgets_take n s = (l, r) \<Longrightarrow> length l \<le> n"
  by (induction n s arbitrary: l rule: fgets_take.induct)
    (auto split: if_splits prod.splits)

lemma fgets_take_LF: "fgets_take n s = (l, r) \<Longrightarrow> LF \<notin> set (butlast l)"
proof (induction n s arbitrary: l rule: fgets_take.induct)
  case (3 n c cs)
  then show ?case by (cases "fgets_take n cs") (auto split: if_splits)
qed auto

lemma fgets_take_line:
  "LF \<notin> set l \<Longrightarrow> length l < n \<Longrightarrow> fgets_take n (l @ LF # r) = (l @ [LF], r)"
proof (induction l arbitrary: n)
  case Nil
  then show ?case by (cases n) auto
next
  case (Cons c l)
  then show ?case by (cases n) auto
qed

lemma fgets_take_long:
  "LF \<notin> set l \<Longrightarrow> length l = n \<Longrightarrow> fgets_take n (l @ r) = (l, r)"
proof (induction l arbitrary: n)
  case Nil
  then show ?case by simp
next
  case (Cons c l)
  then show ?case by (cases n) auto
qed


section \<open>Numbers\<close>

text \<open>
  \<open>atoi\<close>: white space, an optional sign, digits. The C library converts as
  \<open>strtol\<close> does, which stops at the limits of \<open>long\<close>, and casts to \<open>int\<close>.
\<close>

fun digits_val :: "int \<Rightarrow> string \<Rightarrow> int" where
  "digits_val n [] = n"
| "digits_val n (c # cs) =
     (if isdigit c then digits_val (10 * n + (int (code c) - 48)) cs else n)"

definition strtol10 :: "string \<Rightarrow> int" where
  "strtol10 s =
     (let s' = dropWhile isspace s
      in case s' of
           [] \<Rightarrow> 0
         | c # cs \<Rightarrow>
             if c = CHR ''-'' then max LONG_MIN (- digits_val 0 cs)
             else if c = CHR ''+'' then min LONG_MAX (digits_val 0 cs)
             else min LONG_MAX (digits_val 0 s'))"

definition atoi :: "string \<Rightarrow> int" where
  "atoi s = s32 (strtol10 s)"

definition atol :: "string \<Rightarrow> int" where
  "atol s = strtol10 s"

lemma atoi_range: "INT_MIN \<le> atoi s \<and> atoi s \<le> INT_MAX"
  by (simp add: atoi_def s32_range)

text \<open>Numerals in base 10 and 16, lower case.\<close>

definition digit_char :: "nat \<Rightarrow> char" where
  "digit_char d = (if d < 10 then char_of (48 + d) else char_of (87 + d))"

fun show_base :: "nat \<Rightarrow> nat \<Rightarrow> string" where
  "show_base b n =
     (if b \<le> 1 \<or> n < b then [digit_char n] else show_base b (n div b) @ [digit_char (n mod b)])"

declare show_base.simps [simp del]

definition show_int :: "int \<Rightarrow> string" where
  "show_int i = (if i < 0 then CHR ''-'' # show_base 10 (nat (- i)) else show_base 10 (nat i))"


section \<open>Formatted output\<close>

text \<open>
  The conversions the sources use: \<open>%d %u %x %p %s %c %%\<close> with the flag \<open>0\<close>,
  a width and the length modifiers \<open>l\<close> and \<open>z\<close>. An unsigned conversion reads
  its argument modulo the width of its type.
\<close>

datatype arg = I int | S string | Ch char

fun conv :: "bool \<Rightarrow> char \<Rightarrow> arg \<Rightarrow> string" where
  "conv lng k (S t) = t"
| "conv lng k (Ch c) = [c]"
| "conv lng k (I i) =
     (let u = nat (i mod (if lng then 2 ^ 64 else 2 ^ 32))
      in if k = CHR ''d'' then show_int i
         else if k = CHR ''u'' then show_base 10 u
         else if k = CHR ''x'' then show_base 16 u
         else if k = CHR ''p'' then ''0x'' @ show_base 16 (nat (i mod 2 ^ 64))
         else if k = CHR ''c'' then [char_of (nat (i mod 256))]
         else [])"

text \<open>Padding on the left; zeros go between a sign and the digits.\<close>

definition pad :: "bool \<Rightarrow> nat \<Rightarrow> string \<Rightarrow> string" where
  "pad zero n s =
     (if zero then
        (if s \<noteq> [] \<and> hd s = CHR ''-''
         then CHR ''-'' # replicate (n - length s) (CHR ''0'') @ tl s
         else replicate (n - length s) (CHR ''0'') @ s)
      else replicate (n - length s) (CHR '' '') @ s)"

text \<open>
  A conversion specification after its \<open>%\<close>: the flag, the width, whether a
  length modifier makes it 64 bits wide, and what follows.
\<close>

definition parse_spec :: "string \<Rightarrow> bool \<times> nat \<times> bool \<times> string" where
  "parse_spec s =
     (let zero = (s \<noteq> [] \<and> hd s = CHR ''0'');
          s1 = (if zero then tl s else s);
          s2 = dropWhile isdigit s1;
          lng = (\<lambda>c. c = CHR ''l'' \<or> c = CHR ''z'')
      in (zero, nat (digits_val 0 (takeWhile isdigit s1)),
          takeWhile lng s2 \<noteq> [], dropWhile lng s2))"

lemma length_parse_spec: "parse_spec s = (z, n, l, r) \<Longrightarrow> length r \<le> length s"
proof -
  assume a: "parse_spec s = (z, n, l, r)"
  let ?s1 = "if z then tl s else s"
  from a have r: "r = dropWhile (\<lambda>c. c = CHR ''l'' \<or> c = CHR ''z'') (dropWhile isdigit ?s1)"
    by (auto simp: parse_spec_def Let_def)
  have "length ?s1 \<le> length s" by auto
  then show ?thesis unfolding r
    using length_dropWhile_le[of "\<lambda>c. c = CHR ''l'' \<or> c = CHR ''z''" "dropWhile isdigit ?s1"]
      length_dropWhile_le[of isdigit ?s1] by linarith
qed

function cformat :: "string \<Rightarrow> arg list \<Rightarrow> string" where
  "cformat f xs = (case f of
      [] \<Rightarrow> []
    | c # cs \<Rightarrow>
        if c \<noteq> CHR ''%'' then c # cformat cs xs
        else (case parse_spec cs of (zero, wd, lng, ks) \<Rightarrow>
          (case ks of
             [] \<Rightarrow> []
           | k # rest \<Rightarrow>
               if k = CHR ''%'' then k # cformat rest xs
               else (case xs of
                  [] \<Rightarrow> []
                | x # xs' \<Rightarrow> pad zero wd (conv lng k x) @ cformat rest xs'))))"
  by pat_completeness auto
termination
  by (relation "measure (\<lambda>(f, xs). length f)") (auto dest!: length_parse_spec[OF sym])

declare cformat.simps [simp del]

text \<open>\<open>snprintf(buf, n, f, ...)\<close> stores at most \<open>n - 1\<close> bytes and a NUL.\<close>

definition snprintf :: "nat \<Rightarrow> string \<Rightarrow> arg list \<Rightarrow> string" where
  "snprintf n f xs = take (n - 1) (cformat f xs)"

lemma length_snprintf: "0 < n \<Longrightarrow> length (snprintf n f xs) < n"
  by (simp add: snprintf_def)


section \<open>Character arrays\<close>

text \<open>
  \<open>put off s b\<close> is what \<open>memcpy(b + off, s, length s)\<close> leaves in \<open>b\<close>, and
  \<open>memset_at off c n b\<close> what \<open>memset(b + off, c, n)\<close> does.
\<close>

definition put :: "nat \<Rightarrow> string \<Rightarrow> char list \<Rightarrow> char list" where
  "put off s b = take off b @ s @ drop (off + length s) b"

definition memset_at :: "nat \<Rightarrow> char \<Rightarrow> nat \<Rightarrow> char list \<Rightarrow> char list" where
  "memset_at off c n b = put off (replicate n c) b"

text \<open>
  The same writes into an array that ends where the list does: a write past the end is
  undefined. \<open>sprintf_in n\<close> is \<open>sprintf\<close> into an array of \<open>n\<close> characters, which also takes the
  final NUL, and \<open>cstr_in\<close> reads a string from an array, which must hold its end.
\<close>

definition put_in :: "nat \<Rightarrow> string \<Rightarrow> char list \<Rightarrow> char list option" where
  "put_in off s b = (if off + length s \<le> length b then Some (put off s b) else None)"

definition memset_in :: "nat \<Rightarrow> char \<Rightarrow> nat \<Rightarrow> char list \<Rightarrow> char list option" where
  "memset_in off c n b = (if off + n \<le> length b then Some (memset_at off c n b) else None)"

definition sprintf_in :: "nat \<Rightarrow> string \<Rightarrow> arg list \<Rightarrow> string option" where
  "sprintf_in n fmt args = (let s = cformat fmt args in if length s < n then Some s else None)"

definition cstr_in :: "char list \<Rightarrow> string option" where
  "cstr_in b = (if NUL \<in> set b then Some (cstr b) else None)"

lemma length_put [simp]: "off + length s \<le> length b \<Longrightarrow> length (put off s b) = length b"
  by (simp add: put_def)

lemma length_memset_at [simp]: "off + n \<le> length b \<Longrightarrow> length (memset_at off c n b) = length b"
  by (simp add: memset_at_def)

lemma nth_put:
  "off + length s \<le> length b \<Longrightarrow> i < length b \<Longrightarrow>
   put off s b ! i = (if off \<le> i \<and> i < off + length s then s ! (i - off) else b ! i)"
  by (auto simp: put_def nth_append min_def)

lemma nth_memset_at:
  "off + n \<le> length b \<Longrightarrow> i < length b \<Longrightarrow>
   memset_at off c n b ! i = (if off \<le> i \<and> i < off + n then c else b ! i)"
  by (auto simp: memset_at_def nth_put)

lemma put_middle:
  "length a = off \<Longrightarrow> length b = length s \<Longrightarrow> put off s (a @ b @ c) = a @ s @ c"
  by (simp add: put_def)


section \<open>Properties of the numerals\<close>

lemma code_digit_char: "d < 16 \<Longrightarrow> code (digit_char d) = (if d < 10 then 48 + d else 87 + d)"
  by (auto simp: digit_char_def code_def of_char_of)

lemma digit_char_neq:
  "d < 16 \<Longrightarrow> digit_char d \<noteq> NUL" "d < 16 \<Longrightarrow> digit_char d \<noteq> CHR ''-''"
  using code_digit_char[of d] by (auto simp: code_def split: if_splits)

lemma show_base_not_NUL: "1 < b \<Longrightarrow> b \<le> 16 \<Longrightarrow> NUL \<notin> set (show_base b n)"
proof (induction b n rule: show_base.induct)
  case (1 b n)
  then have "n mod b < 16" using mod_less_divisor[of b n] by linarith
  with 1 show ?case using digit_char_neq(1)[of n] digit_char_neq(1)[of "n mod b"]
    by (subst show_base.simps) (auto simp: eq_commute)
qed

lemma show_base_16_not_NUL: "NUL \<notin> set (show_base 16 n)"
  by (rule show_base_not_NUL) simp_all

lemma show_int_not_NUL: "NUL \<notin> set (show_int i)"
  using show_base_not_NUL[of 10] by (simp add: show_int_def)

lemma show_base_not_Nil [simp]: "show_base b n \<noteq> []"
  by (subst show_base.simps) simp

lemma pad_simps:
  "length (pad z n s) = max n (length s)"
  "set (pad z n s) \<subseteq> insert (CHR ''0'') (insert (CHR '' '') (set s))"
  by (cases s; auto simp: pad_def)+

lemma cformat_02x: "cformat ''%02x'' [I x] = pad True 2 (show_base 16 (nat (x mod 2 ^ 32)))"
  by (simp add: cformat.simps parse_spec_def isdigit_def code_def)

lemma cformat_04x: "cformat ''+%04x'' [I x] = CHR ''+'' # pad True 4 (show_base 16 (nat (x mod 2 ^ 32)))"
  by (simp add: cformat.simps parse_spec_def isdigit_def code_def)


lemma length_show_base: "1 < b \<Longrightarrow> n < b ^ Suc k \<Longrightarrow> length (show_base b n) \<le> Suc k"
proof (induction k arbitrary: n)
  case 0
  then show ?case by (subst show_base.simps) simp
next
  case (Suc k)
  show ?case
  proof (cases "n < b")
    case False
    have "n div b < b ^ Suc k" using Suc.prems by (auto simp: less_mult_imp_div_less mult.commute)
    from Suc.IH[OF Suc.prems(1) this] False show ?thesis by (subst show_base.simps) simp
  qed (simp add: show_base.simps)
qed

lemma length_show_base_10: "n < 10 ^ Suc k \<Longrightarrow> length (show_base 10 n) \<le> Suc k"
  by (rule length_show_base) simp_all

text \<open>A 32-bit number has at most eight hexadecimal digits.\<close>

lemma length_show_base_16: "length (show_base 16 (nat (x mod 2 ^ 32))) \<le> 8"
proof -
  have "nat (x mod 2 ^ 32) < 16 ^ Suc 7" by (simp add: nat_less_iff)
  then show ?thesis using length_show_base[of 16 "nat (x mod 2 ^ 32)" 7] by simp
qed

lemma length_show_int: "LONG_MIN \<le> i \<Longrightarrow> i \<le> LONG_MAX \<Longrightarrow> length (show_int i) \<le> 20"
proof -
  assume "LONG_MIN \<le> i" "i \<le> LONG_MAX"
  then have "nat \<bar>i\<bar> < 10 ^ Suc 18" by (simp add: c_limits nat_less_iff)
  from length_show_base_10[OF this] show ?thesis by (auto simp: show_int_def)
qed

lemma put_put: "p \<le> length c \<Longrightarrow> put (p + length s) t (put p s c) = put p (s @ t) c"
  by (simp add: put_def ac_simps)

section \<open>Wait statuses\<close>

text \<open>The macros of \<^verbatim>\<open>sys/wait.h\<close> on the status word of a child.\<close>

definition WTERMSIG :: "int \<Rightarrow> int" where
  "WTERMSIG s = s mod 128"

definition WEXITSTATUS :: "int \<Rightarrow> int" where
  "WEXITSTATUS s = s div 256 mod 256"

definition WIFEXITED :: "int \<Rightarrow> bool" where
  "WIFEXITED s \<longleftrightarrow> WTERMSIG s = 0"

definition WIFSIGNALED :: "int \<Rightarrow> bool" where
  "WIFSIGNALED s \<longleftrightarrow> 0 < WTERMSIG s \<and> WTERMSIG s < 127"

definition WIFSTOPPED :: "int \<Rightarrow> bool" where
  "WIFSTOPPED s \<longleftrightarrow> s mod 256 = 127"

definition WSTOPSIG :: "int \<Rightarrow> int" where
  "WSTOPSIG s = WEXITSTATUS s"

definition WCOREDUMP :: "int \<Rightarrow> bool" where
  "WCOREDUMP s \<longleftrightarrow> s div 128 mod 2 = 1"

definition WIFCONTINUED :: "int \<Rightarrow> bool" where
  "WIFCONTINUED s \<longleftrightarrow> s = 65535"

lemmas wait_defs = WTERMSIG_def WEXITSTATUS_def WIFEXITED_def WIFSIGNALED_def WIFSTOPPED_def
  WSTOPSIG_def WCOREDUMP_def WIFCONTINUED_def

end
