(* ===== verification/Kernel.thy ===== *)
theory Kernel
  imports Clib
begin

text \<open>
  The interface between the programs and the operating system. A program is a
  function from a world to an outcome and a world. The kernel is the script of
  replies the world holds: a call takes the next reply, so a statement for
  every script is a statement for every behaviour of the kernel, and a program
  whose script is used up is blocked in the call it made last. The world
  records every call with its reply, and every line of output, in the order
  they happen.
\<close>

section \<open>Calls, replies and events\<close>

text \<open>
  Flag words and other symbolic constants are passed to a call by their name
  in the source, as a string argument.
\<close>

text \<open>
  The calls whose data matter to the properties have constructors of their
  own (\<open>Recv fd n peek\<close> is \<open>recv(fd, buf, n, MSG_PEEK)\<close> when \<open>peek\<close> is true);
  every other call is \<open>Call\<close> with its name and arguments.
\<close>

datatype call =
    Close int
  | Read int nat
  | Write int string
  | Send int string
  | Recv int nat bool
  | Call string "arg list"

text \<open>
  \<open>Ret n\<close> is a return value; \<open>Data s\<close> is the return of a call that fills a
  buffer, whose value is the number of bytes; \<open>Outs n xs\<close> returns \<open>n\<close> and
  fills structure members through pointer arguments; \<open>Err e\<close> is \<open>-1\<close> with
  \<open>errno\<close> set to \<open>e\<close>, and \<open>ErrOuts e xs\<close> is such a failure that fills members
  too, as \<open>nanosleep\<close> does with the time that remains.
\<close>

datatype reply =
    Ret int
  | Data string
  | Outs int "int list"
  | Err int
  | ErrOuts int "int list"

fun retval :: "reply \<Rightarrow> int" where
  "retval (Ret n) = n"
| "retval (Data s) = int (length s)"
| "retval (Outs n xs) = n"
| "retval (Err e) = -1"
| "retval (ErrOuts e xs) = -1"

fun payload :: "reply \<Rightarrow> string" where
  "payload (Data s) = s"
| "payload (Ret n) = []"
| "payload (Outs n xs) = []"
| "payload (Err e) = []"
| "payload (ErrOuts e xs) = []"

fun outs :: "reply \<Rightarrow> int list" where
  "outs (Outs n xs) = xs"
| "outs (Ret n) = []"
| "outs (Data s) = []"
| "outs (Err e) = []"
| "outs (ErrOuts e xs) = xs"

text \<open>The \<open>i\<close>-th member filled in by a call; a member the kernel did not supply is 0.\<close>

definition out :: "nat \<Rightarrow> reply \<Rightarrow> int" where
  "out i r = (if i < length (outs r) then outs r ! i else 0)"

text \<open>
  \<open>Pending c\<close>: the program is blocked in \<open>c\<close>. \<open>Out 1 f xs\<close> is
  \<open>printf(f, xs)\<close>, \<open>Out 2 f xs\<close> is \<open>fprintf(stderr, f, xs)\<close>; \<open>Perror m\<close> is
  \<open>perror(m)\<close>; \<open>Flush n\<close> is \<open>fflush\<close> of stdout (1) or stderr (2);
  \<open>Did f xs\<close> is a library call that returns nothing, such as \<open>free\<close>.
\<close>

datatype event =
    Sys call reply
  | Pending call
  | Out int string "arg list"
  | Perror string
  | Flush int
  | Did string "arg list"

record world =
  script :: "reply list"
  trace :: "event list"
  errno :: int


section \<open>Programs\<close>

text \<open>
  A program ends with a value, or it is halted for good: it has called
  \<open>exit\<close>, a signal has killed it, it is blocked in a call, or it has done
  something whose behaviour the C standard leaves undefined.
\<close>

datatype halt = Exited int | Killed int | Blocked | Undef string

datatype 'a outcome = Val 'a | Halt halt

type_synonym 'a prog = "world \<Rightarrow> 'a outcome \<times> world"

definition ret :: "'a \<Rightarrow> 'a prog" where
  "ret x = (\<lambda>w. (Val x, w))"

definition stop :: "halt \<Rightarrow> 'a prog" where
  "stop h = (\<lambda>w. (Halt h, w))"

abbreviation exit_prog :: "int \<Rightarrow> 'a prog" where
  "exit_prog n \<equiv> stop (Exited n)"

definition bind :: "'a prog \<Rightarrow> ('a \<Rightarrow> 'b prog) \<Rightarrow> 'b prog" where
  "bind m k = (\<lambda>w. case m w of (Val x, w') \<Rightarrow> k x w' | (Halt h, w') \<Rightarrow> (Halt h, w'))"

definition seq :: "'a prog \<Rightarrow> 'b prog \<Rightarrow> 'b prog" where
  "seq m n = bind m (\<lambda>_. n)"

definition skip :: "unit prog" where
  "skip = ret ()"

definition whenp :: "bool \<Rightarrow> unit prog \<Rightarrow> unit prog" where
  "whenp b m = (if b then m else skip)"

text \<open>An expression that may be undefined, such as a write to an array.\<close>

definition or_undef :: "string \<Rightarrow> 'a option \<Rightarrow> ('a \<Rightarrow> 'b prog) \<Rightarrow> 'b prog" where
  "or_undef msg x k = (case x of Some y \<Rightarrow> k y | None \<Rightarrow> stop (Undef msg))"

definition emit :: "event \<Rightarrow> unit prog" where
  "emit e = (\<lambda>w. (Val (), w\<lparr>trace := trace w @ [e]\<rparr>))"

abbreviation printf :: "string \<Rightarrow> arg list \<Rightarrow> unit prog" where
  "printf f xs \<equiv> emit (Out 1 f xs)"

abbreviation eprintf :: "string \<Rightarrow> arg list \<Rightarrow> unit prog" where
  "eprintf f xs \<equiv> emit (Out 2 f xs)"

abbreviation perror :: "string \<Rightarrow> unit prog" where
  "perror m \<equiv> emit (Perror m)"

definition get_errno :: "int prog" where
  "get_errno = (\<lambda>w. (Val (errno w), w))"

definition set_errno :: "int \<Rightarrow> unit prog" where
  "set_errno e = (\<lambda>w. (Val (), w\<lparr>errno := e\<rparr>))"

fun errno_after :: "reply \<Rightarrow> int \<Rightarrow> int" where
  "errno_after (Err e) _ = e"
| "errno_after (ErrOuts e xs) _ = e"
| "errno_after (Ret n) old = old"
| "errno_after (Data s) old = old"
| "errno_after (Outs n xs) old = old"

text \<open>What a call does to the world when the kernel answers it.\<close>

definition answered :: "call \<Rightarrow> reply \<Rightarrow> world \<Rightarrow> world" where
  "answered c r w = w\<lparr>script := tl (script w), trace := trace w @ [Sys c r],
     errno := errno_after r (errno w)\<rparr>"

definition syscall :: "call \<Rightarrow> reply prog" where
  "syscall c = (\<lambda>w. case script w of
      [] \<Rightarrow> (Halt Blocked, w\<lparr>trace := trace w @ [Pending c]\<rparr>)
    | r # rs \<Rightarrow> (Val r, answered c r w))"

text \<open>A call whose result the source only compares as an integer.\<close>

definition icall :: "call \<Rightarrow> int prog" where
  "icall c = bind (syscall c) (\<lambda>r. ret (retval r))"

text \<open>\<open>m\<close> for each element of a list, in order.\<close>

fun for_each :: "'a list \<Rightarrow> ('a \<Rightarrow> unit prog) \<Rightarrow> unit prog" where
  "for_each [] m = skip"
| "for_each (x # xs) m = seq (m x) (for_each xs m)"

text \<open>The world a program starts in, with the kernel's replies \<open>rs\<close>.\<close>

definition boot :: "reply list \<Rightarrow> world" where
  "boot rs = \<lparr>script = rs, trace = [], errno = 0\<rparr>"


subsection \<open>Computation rules\<close>

lemmas run_apply = syscall_def emit_def ret_def stop_def skip_def get_errno_def set_errno_def
  answered_def

lemma bind_ret [prog_simps, simp]: "bind (ret x) k = k x"
  by (simp add: bind_def ret_def)

lemma bind_stop [prog_simps, simp]: "bind (stop h) k = stop h"
  by (simp add: bind_def stop_def)

lemma or_undef_simps [prog_simps, simp]:
  "or_undef msg (Some y) k = k y" "or_undef msg None k = stop (Undef msg)"
  by (simp_all add: or_undef_def)

lemma bind_bind [prog_simps]: "bind (bind m k) l = bind m (\<lambda>x. bind (k x) l)"
  by (auto simp: bind_def fun_eq_iff split: prod.splits outcome.splits)

lemma ret_apply [prog_simps]: "ret x w = (Val x, w)"
  by (simp add: ret_def)

lemma stop_apply [prog_simps]: "stop h w = (Halt h, w)"
  by (simp add: stop_def)

lemma emit_apply [prog_simps]: "emit e w = (Val (), w\<lparr>trace := trace w @ [e]\<rparr>)"
  by (simp add: emit_def)

lemma bind_apply [prog_simps]:
  "bind m k w = (case m w of (Val x, w') \<Rightarrow> k x w' | (Halt h, w') \<Rightarrow> (Halt h, w'))"
  by (simp add: bind_def)

lemma seq_apply [prog_simps]:
  "seq m n w = (case m w of (Val x, w') \<Rightarrow> n w' | (Halt h, w') \<Rightarrow> (Halt h, w'))"
  by (simp add: seq_def bind_def)

lemma skip_apply [prog_simps]: "skip w = (Val (), w)"
  by (simp add: skip_def ret_def)

lemma whenp_apply [prog_simps]: "whenp b m w = (if b then m w else (Val (), w))"
  by (simp add: whenp_def skip_apply)

lemma for_each_whenp:
  "for_each xs (\<lambda>x. whenp (P x) (m x)) = for_each (filter P xs) m"
  by (induction xs) (simp_all add: whenp_def seq_def skip_def)

lemma whenp_emit: "whenp b (emit e) w = (Val (), w\<lparr>trace := trace w @ (if b then [e] else [])\<rparr>)"
  by (simp add: whenp_apply emit_apply)

lemma get_errno_apply [prog_simps]: "get_errno w = (Val (errno w), w)"
  by (simp add: get_errno_def)

lemma set_errno_apply [prog_simps]: "set_errno e w = (Val (), w\<lparr>errno := e\<rparr>)"
  by (simp add: set_errno_def)

lemma syscall_Cons [prog_simps]:
  "script w = r # rs \<Longrightarrow> syscall c w = (Val r, answered c r w)"
  by (simp add: syscall_def)

lemma syscall_Nil [prog_simps]:
  "script w = [] \<Longrightarrow> syscall c w = (Halt Blocked, w\<lparr>trace := trace w @ [Pending c]\<rparr>)"
  by (simp add: syscall_def)

lemma answered_simps [simp]:
  "script (answered c r w) = tl (script w)"
  "trace (answered c r w) = trace w @ [Sys c r]"
  "errno (answered c r w) = errno_after r (errno w)"
  by (simp_all add: answered_def)

lemma boot_simps [simp]: "script (boot rs) = rs" "trace (boot rs) = []" "errno (boot rs) = 0"
  by (simp_all add: boot_def)

text \<open>
  Congruence for recursive programs: the continuation is only run on what the
  first part returned. It gives the termination proofs of the loops below the
  fact that a call has been made.
\<close>

lemma bind_cong [fundef_cong]:
  assumes "w = w'" and "m w' = m' w'"
    and "\<And>x v. m' w' = (Val x, v) \<Longrightarrow> k x v = k' x v"
  shows "bind m k w = bind m' k' w'"
  using assms by (auto simp: bind_def split: prod.splits outcome.splits)

lemma seq_cong [fundef_cong]:
  assumes "w = w'" and "m w' = m' w'"
    and "\<And>x v. m' w' = (Val x, v) \<Longrightarrow> n v = n' v"
  shows "seq m n w = seq m' n' w'"
  using assms by (auto simp: seq_def bind_def split: prod.splits outcome.splits)

lemma syscall_Val_script:
  "syscall c w = (Val r, v) \<Longrightarrow> script w = r # script v \<and> v = answered c r w"
  by (auto simp: syscall_def split: list.splits)

lemma syscall_script_less:
  "syscall c w = (Val r, v) \<Longrightarrow> length (script v) < length (script w)"
  by (auto simp: syscall_def split: list.splits)


lemma for_each_emit [prog_simps]:
  "for_each xs (\<lambda>x. emit (e x)) w = (Val (), w\<lparr>trace := trace w @ map e xs\<rparr>)"
  by (induction xs arbitrary: w) (simp_all add: skip_apply seq_apply emit_apply)

text \<open>
  A program never takes back a reply (\<open>shrinks\<close>); one that has made a call when
  it returns (\<open>consumes\<close>) is a loop body that cannot be repeated for ever
  without the kernel answering it.
\<close>

definition shrinks :: "'a prog \<Rightarrow> bool" where
  "shrinks m \<longleftrightarrow> (\<forall>w. length (script (snd (m w))) \<le> length (script w))"

definition consumes :: "'a prog \<Rightarrow> bool" where
  "consumes m \<longleftrightarrow> shrinks m \<and>
     (\<forall>w x v. m w = (Val x, v) \<longrightarrow> length (script v) < length (script w))"

lemma consumesD: "consumes m \<Longrightarrow> m w = (Val x, v) \<Longrightarrow> length (script v) < length (script w)"
  by (auto simp: consumes_def)

lemma shrinks_basic [shrink_intros]:
  "shrinks (ret x)" "shrinks (stop h)" "shrinks (emit e)" "shrinks skip" "shrinks get_errno"
  "shrinks (set_errno n)" "shrinks (syscall c)"
  by (auto simp: shrinks_def run_apply split: list.splits)

lemma shrinks_bind [shrink_intros]:
  assumes "shrinks m" and "\<And>x. shrinks (k x)"
  shows "shrinks (bind m k)"
  unfolding shrinks_def
proof
  fix w
  obtain r v where mw: "m w = (r, v)" by (cases "m w")
  with assms(1) have v: "length (script v) \<le> length (script w)" by (auto simp: shrinks_def dest: spec[of _ w])
  show "length (script (snd (bind m k w))) \<le> length (script w)"
  proof (cases r)
    case (Val x)
    have "length (script (snd (k x v))) \<le> length (script v)" using assms(2) by (simp add: shrinks_def)
    with v mw Val show ?thesis by (simp add: bind_def)
  qed (use v mw in \<open>simp add: bind_def\<close>)
qed

lemma shrinks_seq [shrink_intros]: "shrinks m \<Longrightarrow> shrinks n \<Longrightarrow> shrinks (seq m n)"
  by (simp add: seq_def shrinks_bind)

lemma shrinks_if [shrink_intros]: "shrinks m \<Longrightarrow> shrinks n \<Longrightarrow> shrinks (if b then m else n)"
  by simp

lemma shrinks_whenp [shrink_intros]: "shrinks m \<Longrightarrow> shrinks (whenp b m)"
  by (simp add: whenp_def shrinks_basic)

lemma shrinks_or_undef [shrink_intros]: "(\<And>y. shrinks (k y)) \<Longrightarrow> shrinks (or_undef msg x k)"
  by (cases x) (auto intro: shrink_intros)

lemma shrinks_icall [shrink_intros]: "shrinks (icall c)"
  unfolding icall_def by (intro shrink_intros)

lemma shrinks_for_each [shrink_intros]: "(\<And>x. shrinks (m x)) \<Longrightarrow> shrinks (for_each xs m)"
  by (induction xs) (auto intro: shrink_intros)

lemma bind_Val:
  "bind m k w = (Val y, u) \<Longrightarrow> \<exists>x v. m w = (Val x, v) \<and> k x v = (Val y, u)"
  by (auto simp: bind_def split: prod.splits outcome.splits)

lemma shrinksD: "shrinks m \<Longrightarrow> m w = (x, v) \<Longrightarrow> length (script v) \<le> length (script w)"
  by (metis shrinks_def snd_conv)

lemma consumes_syscall: "consumes (syscall c)"
  unfolding consumes_def using syscall_script_less by (auto intro: shrink_intros)

lemma consumes_stop: "consumes (stop h)"
  unfolding consumes_def using shrinks_basic(2)[of h] by (auto simp: stop_apply)

lemma consumes_bind1:
  assumes "consumes m" and "\<And>x. shrinks (k x)"
  shows "consumes (bind m k)"
proof -
  have "shrinks (bind m k)" using assms by (intro shrinks_bind) (auto simp: consumes_def)
  moreover have "length (script u) < length (script w)" if "bind m k w = (Val y, u)" for w y u
    using bind_Val[OF that] consumesD[OF assms(1)] shrinksD[OF assms(2)]
    by (meson order_le_less_trans)
  ultimately show ?thesis by (simp add: consumes_def)
qed

lemma consumes_bind2:
  assumes "shrinks m" and "\<And>x. consumes (k x)"
  shows "consumes (bind m k)"
proof -
  have "shrinks (bind m k)" using assms by (intro shrinks_bind) (auto simp: consumes_def)
  moreover have "length (script u) < length (script w)" if "bind m k w = (Val y, u)" for w y u
    using bind_Val[OF that] consumesD[OF assms(2)] shrinksD[OF assms(1)]
    by (meson order_less_le_trans)
  ultimately show ?thesis by (simp add: consumes_def)
qed

lemma consumes_icall: "consumes (icall c)"
  unfolding icall_def by (intro consumes_bind1 consumes_syscall shrink_intros)

lemma consumes_seq2: "shrinks m \<Longrightarrow> consumes n \<Longrightarrow> consumes (seq m n)"
  by (simp add: seq_def consumes_bind2)

lemma consumes_if: "consumes m \<Longrightarrow> consumes n \<Longrightarrow> consumes (if b then m else n)"
  by simp

text \<open>The facts that evaluate a program on a concrete script.\<close>

lemmas run_defs = syscall_def icall_def bind_def seq_def whenp_def skip_def emit_def ret_def
  stop_def get_errno_def set_errno_def answered_def boot_def out_def

lemma run_eq: "fst p = x \<Longrightarrow> p = (x, snd p)"
  by (cases p) simp


section \<open>Weakest preconditions\<close>

text \<open>
  \<open>wp m Q R w\<close>: run from \<open>w\<close>, \<open>m\<close> either returns a value and a world that
  satisfy \<open>Q\<close> or halts in a way that satisfies \<open>R\<close>.
\<close>

definition wp :: "'a prog \<Rightarrow> ('a \<Rightarrow> world \<Rightarrow> bool) \<Rightarrow> (halt \<Rightarrow> world \<Rightarrow> bool) \<Rightarrow> world \<Rightarrow> bool" where
  "wp m Q R w = (case m w of (Val x, v) \<Rightarrow> Q x v | (Halt h, v) \<Rightarrow> R h v)"

lemma wp_ret [wp_simps]: "wp (ret x) Q R = Q x"
  by (simp add: wp_def ret_def fun_eq_iff)

lemma wp_stop [wp_simps]: "wp (stop h) Q R w = R h w"
  by (simp add: wp_def stop_def)

lemma wp_bind [wp_simps]: "wp (bind m k) Q R w = wp m (\<lambda>x. wp (k x) Q R) R w"
  by (simp add: wp_def bind_def split: prod.splits outcome.splits)

lemma wp_seq [wp_simps]: "wp (seq m n) Q R w = wp m (\<lambda>_. wp n Q R) R w"
  by (simp add: seq_def wp_bind)

lemma wp_skip [wp_simps]: "wp skip Q R w = Q () w"
  by (simp add: skip_def wp_ret)

lemma wp_whenp [wp_simps]: "wp (whenp b m) Q R w = (if b then wp m Q R w else Q () w)"
  by (simp add: whenp_def wp_skip)

lemma wp_or_undef [wp_simps]:
  "wp (or_undef msg x k) Q R w = (case x of Some y \<Rightarrow> wp (k y) Q R w | None \<Rightarrow> R (Undef msg) w)"
  by (cases x) (simp_all add: wp_stop)

lemma wp_emit [wp_simps]: "wp (emit e) Q R w = Q () (w\<lparr>trace := trace w @ [e]\<rparr>)"
  by (simp add: wp_def emit_def)

lemma wp_get_errno [wp_simps]: "wp get_errno Q R w = Q (errno w) w"
  by (simp add: wp_def get_errno_def)

lemma wp_set_errno [wp_simps]: "wp (set_errno e) Q R w = Q () (w\<lparr>errno := e\<rparr>)"
  by (simp add: wp_def set_errno_def)

lemma wp_syscall [wp_simps]:
  "wp (syscall c) Q R w = (case script w of
      [] \<Rightarrow> R Blocked (w\<lparr>trace := trace w @ [Pending c]\<rparr>)
    | r # rs \<Rightarrow> Q r (answered c r w))"
  by (simp add: wp_def syscall_def split: list.splits)

lemma wp_icall [wp_simps]:
  "wp (icall c) Q R w = wp (syscall c) (\<lambda>r. Q (retval r)) R w"
  by (simp add: icall_def wp_bind wp_ret)

lemma wp_if [wp_simps]: "wp (if b then m else n) Q R w = (if b then wp m Q R w else wp n Q R w)"
  by simp

lemma wp_mono:
  "wp m Q R w \<Longrightarrow> (\<And>x v. Q x v \<Longrightarrow> Q' x v) \<Longrightarrow> (\<And>h v. R h v \<Longrightarrow> R' h v) \<Longrightarrow> wp m Q' R' w"
  by (auto simp: wp_def split: prod.splits outcome.splits)

lemma wp_conj:
  "wp m Q R w \<Longrightarrow> wp m Q' R' w \<Longrightarrow> wp m (\<lambda>x v. Q x v \<and> Q' x v) (\<lambda>h v. R h v \<and> R' h v) w"
  by (auto simp: wp_def split: prod.splits outcome.splits)

lemma wpD_Val: "wp m Q R w \<Longrightarrow> m w = (Val x, v) \<Longrightarrow> Q x v"
  by (simp add: wp_def)

lemma wpD_Halt: "wp m Q R w \<Longrightarrow> m w = (Halt h, v) \<Longrightarrow> R h v"
  by (simp add: wp_def)


lemma wp_for_each_emit [wp_simps]:
  "wp (for_each xs (\<lambda>x. emit (e x))) Q R w = Q () (w\<lparr>trace := trace w @ map e xs\<rparr>)"
  by (simp add: wp_def for_each_emit)

section \<open>The events a program adds\<close>

text \<open>
  \<open>emits P m\<close>: whatever the kernel does, \<open>m\<close> only appends to the trace, and
  every event it appends satisfies \<open>P\<close>.
\<close>

definition emits :: "(event \<Rightarrow> bool) \<Rightarrow> 'a prog \<Rightarrow> bool" where
  "emits P m \<longleftrightarrow> (\<forall>w. \<exists>es. trace (snd (m w)) = trace w @ es \<and> list_all P es)"

lemma emitsI: "(\<And>w. \<exists>es. trace (snd (m w)) = trace w @ es \<and> list_all P es) \<Longrightarrow> emits P m"
  by (simp add: emits_def)

lemma emitsD:
  assumes "emits P m" and "m w = (r, v)"
  obtains es where "trace v = trace w @ es" and "list_all P es"
  using assms by (metis emits_def snd_conv)

lemma emits_ret [emits_intros]: "emits P (ret x)"
  by (simp add: emits_def ret_def)

lemma emits_stop [emits_intros]: "emits P (stop h)"
  by (simp add: emits_def stop_def)

lemma emits_emit [emits_intros]: "P e \<Longrightarrow> emits P (emit e)"
  by (simp add: emits_def emit_def)

lemma emits_get_errno [emits_intros]: "emits P get_errno"
  by (simp add: emits_def get_errno_def)

lemma emits_set_errno [emits_intros]: "emits P (set_errno e)"
  by (simp add: emits_def set_errno_def)

lemma emits_syscall [emits_intros]:
  "(\<And>r. P (Sys c r)) \<Longrightarrow> P (Pending c) \<Longrightarrow> emits P (syscall c)"
  by (auto simp: emits_def syscall_def split: list.splits)

lemma emits_bind [emits_intros]:
  assumes m: "emits P m" and k: "\<And>x. emits P (k x)"
  shows "emits P (bind m k)"
proof (rule emitsI)
  fix w
  obtain r v where mw: "m w = (r, v)" by (cases "m w")
  from m mw obtain es where es: "trace v = trace w @ es" "list_all P es" by (rule emitsD)
  show "\<exists>es. trace (snd (bind m k w)) = trace w @ es \<and> list_all P es"
  proof (cases r)
    case (Halt h)
    with mw es show ?thesis by (auto simp: bind_def)
  next
    case (Val x)
    obtain r' u where ku: "k x v = (r', u)" by (cases "k x v")
    with k obtain fs where "trace u = trace v @ fs" "list_all P fs" by (rule emitsD)
    with Val mw ku es show ?thesis by (auto simp: bind_def)
  qed
qed

lemma emits_seq [emits_intros]: "emits P m \<Longrightarrow> emits P n \<Longrightarrow> emits P (seq m n)"
  by (simp add: seq_def emits_bind)

lemma emits_skip [emits_intros]: "emits P skip"
  by (simp add: skip_def emits_ret)

lemma emits_whenp [emits_intros]: "(b \<Longrightarrow> emits P m) \<Longrightarrow> emits P (whenp b m)"
  by (simp add: whenp_def emits_skip)

lemma emits_if [emits_intros]:
  "(b \<Longrightarrow> emits P m) \<Longrightarrow> (\<not> b \<Longrightarrow> emits P n) \<Longrightarrow> emits P (if b then m else n)"
  by simp

lemma emits_or_undef [emits_intros]: "(\<And>y. x = Some y \<Longrightarrow> emits P (k y)) \<Longrightarrow> emits P (or_undef msg x k)"
  by (cases x) (auto intro: emits_stop)

lemma emits_icall [emits_intros]:
  "(\<And>r. P (Sys c r)) \<Longrightarrow> P (Pending c) \<Longrightarrow> emits P (icall c)"
  unfolding icall_def by (rule emits_bind[OF emits_syscall emits_ret])

lemma emits_mono: "emits P m \<Longrightarrow> (\<And>e. P e \<Longrightarrow> Q e) \<Longrightarrow> emits Q m"
  by (fastforce simp: emits_def list_all_iff)


lemma emits_for_each [emits_intros]:
  "(\<And>x. emits P (m x)) \<Longrightarrow> emits P (for_each xs m)"
  by (induction xs) (auto intro: emits_intros)

section \<open>Bytes that cross the system call boundary\<close>

text \<open>
  The bytes the kernel has taken from the program on descriptor \<open>fd\<close>, and the
  bytes it has given to the program from \<open>fd\<close>, read off the trace.
\<close>

fun took :: "int \<Rightarrow> event \<Rightarrow> string" where
  "took fd (Sys (Write f b) r) = (if f = fd then take (nat (retval r)) b else [])"
| "took fd (Sys (Send f b) r) = (if f = fd then take (nat (retval r)) b else [])"
| "took fd _ = []"

fun gave :: "int \<Rightarrow> event \<Rightarrow> string" where
  "gave fd (Sys (Read f n) r) = (if f = fd then payload r else [])"
| "gave fd (Sys (Recv f n p) r) = (if f = fd \<and> \<not> p then payload r else [])"
| "gave fd _ = []"

definition delivered :: "int \<Rightarrow> event list \<Rightarrow> string" where
  "delivered fd es = concat (map (took fd) es)"

definition received :: "int \<Rightarrow> event list \<Rightarrow> string" where
  "received fd es = concat (map (gave fd) es)"

lemma delivered_append [simp]: "delivered fd (xs @ ys) = delivered fd xs @ delivered fd ys"
  by (simp add: delivered_def)

lemma received_append [simp]: "received fd (xs @ ys) = received fd xs @ received fd ys"
  by (simp add: received_def)

lemma delivered_Nil [simp]: "delivered fd [] = []"
  by (simp add: delivered_def)

lemma received_Nil [simp]: "received fd [] = []"
  by (simp add: received_def)

lemma delivered_single [simp]: "delivered fd [e] = took fd e"
  by (simp add: delivered_def)

lemma received_single [simp]: "received fd [e] = gave fd e"
  by (simp add: received_def)

lemma delivered_Cons: "delivered fd (e # es) = took fd e @ delivered fd es"
  by (simp add: delivered_def)

lemma received_Cons: "received fd (e # es) = gave fd e @ received fd es"
  by (simp add: received_def)

text \<open>What each \<open>read\<close> has returned, and what has been printed.\<close>

definition reads :: "event list \<Rightarrow> string list" where
  "reads es = List.map_filter (\<lambda>e. case e of Sys (Read f n) r \<Rightarrow> Some (payload r) | _ \<Rightarrow> None) es"

definition shown :: "event list \<Rightarrow> (string \<times> arg list) list" where
  "shown es = List.map_filter (\<lambda>e. case e of Out n f xs \<Rightarrow> Some (f, xs) | _ \<Rightarrow> None) es"

lemma map_filter_append: "List.map_filter f (xs @ ys) = List.map_filter f xs @ List.map_filter f ys"
  by (simp add: map_filter_def)

lemma payload_short: "retval r < int n \<Longrightarrow> 0 < n \<Longrightarrow> length (payload r) < n"
  by (cases r) auto

text \<open>
  What the manual pages promise of a reply: \<open>write\<close> and \<open>send\<close> take at most
  the bytes they were given; \<open>read\<close> and \<open>recv\<close> fill at most the buffer they
  were given; each fails with a positive \<open>errno\<close>.
\<close>

fun reply_ok :: "call \<Rightarrow> reply \<Rightarrow> bool" where
  "reply_ok c (Err e) = (0 < e)"
| "reply_ok (Write f b) (Ret n) = (0 \<le> n \<and> n \<le> int (length b))"
| "reply_ok (Send f b) (Ret n) = (0 \<le> n \<and> n \<le> int (length b))"
| "reply_ok (Write f b) _ = False"
| "reply_ok (Send f b) _ = False"
| "reply_ok (Read f n) (Data s) = (length s \<le> n)"
| "reply_ok (Recv f n p) (Data s) = (length s \<le> n)"
| "reply_ok (Read f n) _ = False"
| "reply_ok (Recv f n p) _ = False"
| "reply_ok (Close f) r = (r = Ret 0)"
| "reply_ok (Call s xs) r = True"

fun event_ok :: "event \<Rightarrow> bool" where
  "event_ok (Sys c r) = reply_ok c r"
| "event_ok (Pending c) = True"
| "event_ok (Out n f xs) = True"
| "event_ok (Perror m) = True"
| "event_ok (Flush n) = True"
| "event_ok (Did f xs) = True"

definition kernel_ok :: "event list \<Rightarrow> bool" where
  "kernel_ok es = list_all event_ok es"

lemma kernel_ok_append [simp]: "kernel_ok (xs @ ys) \<longleftrightarrow> kernel_ok xs \<and> kernel_ok ys"
  by (simp add: kernel_ok_def)

lemma kernel_ok_Nil [simp]: "kernel_ok []"
  by (simp add: kernel_ok_def)

lemma kernel_ok_single [simp]: "kernel_ok [e] = event_ok e"
  by (simp add: kernel_ok_def)

lemma read_ok_cases:
  assumes "reply_ok (Read fd n) r"
  obtains e where "r = Err e" "0 < e" | s where "r = Data s" "length s \<le> n"
  using assms by (cases r) auto

lemma write_ok_cases:
  assumes "reply_ok (Write fd b) r"
  obtains e where "r = Err e" "0 < e" | n where "r = Ret n" "0 \<le> n" "n \<le> int (length b)"
  using assms by (cases r) auto


section \<open>Effects on the descriptors\<close>

text \<open>
  \<open>io_delta rd wr w v\<close>: between \<open>w\<close> and \<open>v\<close> the program has received exactly
  \<open>rd f\<close> from each descriptor \<open>f\<close> and delivered exactly \<open>wr f\<close> to it.
\<close>

definition only :: "int \<Rightarrow> string \<Rightarrow> int \<Rightarrow> string" where
  "only fd s = (\<lambda>f. if f = fd then s else [])"

abbreviation (input) nothing :: "int \<Rightarrow> string" where
  "nothing \<equiv> \<lambda>_. []"

definition io_delta :: "(int \<Rightarrow> string) \<Rightarrow> (int \<Rightarrow> string) \<Rightarrow> world \<Rightarrow> world \<Rightarrow> bool" where
  "io_delta rd wr w v \<longleftrightarrow>
     (\<forall>f. received f (trace v) = received f (trace w) @ rd f) \<and>
     (\<forall>f. delivered f (trace v) = delivered f (trace w) @ wr f)"

lemma only_Nil [simp]: "only fd [] = nothing"
  by (simp add: only_def fun_eq_iff)

lemma only_same [simp]: "only fd s fd = s"
  by (simp add: only_def)

lemma io_delta_refl [simp]: "io_delta nothing nothing w w"
  by (simp add: io_delta_def)

lemma io_delta_trans:
  "io_delta r1 s1 u v \<Longrightarrow> io_delta r2 s2 v w \<Longrightarrow>
   io_delta (\<lambda>f. r1 f @ r2 f) (\<lambda>f. s1 f @ s2 f) u w"
  by (simp add: io_delta_def)

lemma io_delta_Write:
  "io_delta nothing (only fd (take (nat (retval r)) b)) w (answered (Write fd b) r w)"
  by (simp add: io_delta_def only_def)

lemma io_delta_Read:
  "io_delta (only fd (payload r)) nothing w (answered (Read fd n) r w)"
  by (simp add: io_delta_def only_def)

lemma io_delta_wr_trans:
  "io_delta nothing (only fd s) u v \<Longrightarrow> io_delta nothing (only fd t) v w \<Longrightarrow>
   io_delta nothing (only fd (s @ t)) u w"
  by (auto simp: io_delta_def only_def)

lemma io_delta_rd_trans:
  "io_delta (only fd s) nothing u v \<Longrightarrow> io_delta (only fd t) nothing v w \<Longrightarrow>
   io_delta (only fd (s @ t)) nothing u w"
  by (auto simp: io_delta_def only_def)

text \<open>The trace only grows.\<close>

definition extends :: "world \<Rightarrow> world \<Rightarrow> bool" where
  "extends w v \<longleftrightarrow> (\<exists>es. trace v = trace w @ es)"

lemma extends_refl [simp]: "extends w w"
  by (simp add: extends_def)

lemma extends_trans: "extends u v \<Longrightarrow> extends v w \<Longrightarrow> extends u w"
  by (auto simp: extends_def)

lemma extends_answered [simp]: "extends w (answered c r w)"
  by (simp add: extends_def)

lemma extends_kernel_ok: "extends w v \<Longrightarrow> kernel_ok (trace v) \<Longrightarrow> kernel_ok (trace w)"
  by (auto simp: extends_def)

lemma emits_extends: "emits P m \<Longrightarrow> m w = (x, v) \<Longrightarrow> extends w v"
  by (metis emitsD extends_def)

lemma wp_emits:
  assumes "emits P m" and "wp m Q R w"
  shows "wp m (\<lambda>x v. Q x v \<and> extends w v) (\<lambda>h v. R h v \<and> extends w v) w"
  using assms emits_extends[OF assms(1)] by (cases "m w") (auto simp: wp_def split: outcome.splits)

text \<open>A failure that is not an interruption by a signal.\<close>

fun hard_error :: "event \<Rightarrow> bool" where
  "hard_error (Sys c (Err e)) = (e \<noteq> EINTR)"
| "hard_error (Sys c (ErrOuts e xs)) = (e \<noteq> EINTR)"
| "hard_error _ = False"

lemma extends_no_error:
  "extends w v \<Longrightarrow> \<not> list_ex hard_error (trace v) \<Longrightarrow> \<not> list_ex hard_error (trace w)"
  by (auto simp: extends_def)



section \<open>Programs that serve for ever\<close>

text \<open>
  Many of the programs are a loop with no exit: the process only ends inside
  the body. What such a loop promises follows from its body alone.
\<close>

locale service =
  fixes body :: "'s \<Rightarrow> 's prog" and loop :: "'s \<Rightarrow> unit prog"
  assumes loop_unfold: "loop st w = bind (body st) loop w"
    and body_consumes: "consumes (body st)"
begin

lemma invariant:
  assumes step: "\<And>st w. J st w \<Longrightarrow> wp (body st) J R w" and init: "J st w"
  shows "wp (loop st) (\<lambda>_ _. False) R w"
  using init
proof (induction "length (script w)" arbitrary: st w rule: less_induct)
  case less
  have "wp (body st) (\<lambda>st' v. wp (loop st') (\<lambda>_ _. False) R v) R w"
  proof (cases "body st w")
    case (Pair r v)
    then show ?thesis
    proof (cases r)
      case (Val st')
      have "J st' v" using step[OF less.prems] Pair Val by (simp add: wp_def)
      with less.hyps[OF consumesD[OF body_consumes]] Pair Val show ?thesis by (simp add: wp_def)
    next
      case (Halt h)
      then show ?thesis using step[OF less.prems] Pair by (simp add: wp_def)
    qed
  qed
  then have "wp (bind (body st) loop) (\<lambda>_ _. False) R w" by (simp only: wp_bind)
  then show ?case unfolding wp_def loop_unfold[of st w] .
qed

lemma never_returns: "\<exists>h v. loop st w = (Halt h, v)"
proof -
  have "wp (loop st) (\<lambda>_ _. False) (\<lambda>_ _. True) w"
    by (rule invariant[where J = "\<lambda>_ _. True"])
      (simp_all add: wp_def split: prod.splits outcome.splits)
  then show ?thesis by (auto simp: wp_def split: prod.splits outcome.splits)
qed

lemma emits_loop:
  assumes "\<And>st. emits P (body st)"
  shows "emits P (loop st)"
proof (rule emitsI)
  fix w :: world
  let ?E = "\<lambda>v. \<exists>es. trace v = trace w @ es \<and> list_all P es"
  have step: "wp (body s) (\<lambda>_. ?E) (\<lambda>_. ?E) v" if v: "?E v" for s v
  proof (cases "body s v")
    case (Pair r u)
    with assms obtain fs where "trace u = trace v @ fs" "list_all P fs" by (rule emitsD)
    with v have "?E u" by auto
    with Pair show ?thesis by (simp add: wp_def split: outcome.splits)
  qed
  have "wp (loop st) (\<lambda>_ _. False) (\<lambda>_. ?E) w"
    by (rule invariant[where J = "\<lambda>_. ?E", OF step]) simp_all
  then show "?E (snd (loop st w))" by (auto simp: wp_def split: prod.splits outcome.splits)
qed

end

section \<open>Calls that move no bytes\<close>

lemma bind_ValE:
  assumes "bind m k w = (Val y, u)"
  obtains x v where "m w = (Val x, v)" "k x v = (Val y, u)"
  using bind_Val[OF assms] by blast

definition quiet :: "event \<Rightarrow> bool" where
  "quiet e \<longleftrightarrow> (\<forall>f. took f e = [] \<and> gave f e = [])"

lemma quiet_simps [simp]:
  "quiet (Sys (Call f xs) r)" "quiet (Sys (Close fd) r)" "quiet (Pending c)" "quiet (Out n f xs)" "quiet (Perror m)"
  "quiet (Flush n)" "quiet (Did f xs)"
  by (simp_all add: quiet_def)

lemma quiet_list: "list_all quiet es \<Longrightarrow> received f es = [] \<and> delivered f es = []"
  by (induction es) (auto simp: received_Cons delivered_Cons quiet_def)

lemma quiet_run:
  assumes "emits quiet m" and "m w = (x, v)"
  shows "io_delta nothing nothing w v" "extends w v"
proof -
  from assms obtain es where "trace v = trace w @ es" "list_all quiet es" by (rule emitsD)
  then show "io_delta nothing nothing w v" "extends w v"
    by (auto simp: io_delta_def extends_def quiet_list)
qed

lemma quiet_icall: "emits quiet (icall (Call f xs))"
  by (intro emits_intros) simp_all

lemma quiet_free: "emits quiet (emit (Did f xs))"
  by (intro emits_intros) simp

section \<open>Loops use up replies\<close>

lemma loop_shrinks:
  assumes "r = bind c k w" and "consumes c"
    and "\<And>x v. c w = (Val x, v) \<Longrightarrow> length (script (snd (k x v))) \<le> length (script v)"
  shows "length (script (snd r)) \<le> length (script w)"
proof -
  obtain x v where cw: "c w = (x, v)" by (cases "c w")
  have "length (script v) \<le> length (script w)" using assms(2) cw unfolding consumes_def shrinks_def by (metis snd_conv)
  with cw assms(3) show ?thesis by (cases x) (auto simp: assms(1) bind_def intro: order_trans)
qed

lemma loop_emits:
  assumes "r = bind c k w" and "emits P c"
    and "\<And>x v. c w = (Val x, v) \<Longrightarrow> \<exists>es. trace (snd (k x v)) = trace v @ es \<and> list_all P es"
  shows "\<exists>es. trace (snd r) = trace w @ es \<and> list_all P es"
proof -
  obtain x v where cw: "c w = (x, v)" by (cases "c w")
  obtain es where "trace v = trace w @ es" "list_all P es" using assms(2) cw by (rule emitsD)
  with cw assms(3) show ?thesis by (cases x) (fastforce simp: assms(1) bind_def)+
qed

lemma icall_Val: "icall c w = (Val x, v) \<Longrightarrow> \<exists>r. x = retval r \<and> v = answered c r w"
  by (auto simp: icall_def bind_def ret_def dest!: syscall_Val_script split: prod.splits outcome.splits)

lemma bind_ExitE:
  assumes "bind m k w = (Halt (Exited n), v)"
  obtains "m w = (Halt (Exited n), v)" | x u where "m w = (Val x, u)" "k x u = (Halt (Exited n), v)"
  using assms by (auto simp: bind_def split: prod.splits outcome.splits)

lemma calls_no_exit [simp]:
  "syscall c w \<noteq> (Halt (Exited n), v)" "icall c w \<noteq> (Halt (Exited n), v)"
  "emit e w \<noteq> (Halt (Exited n), v)"
  by (auto simp: syscall_def icall_def bind_def ret_def emit_def split: list.splits prod.splits outcome.splits)

lemma for_each_append: "for_each (xs @ ys) f = seq (for_each xs f) (for_each ys f)"
  by (induction xs) (auto simp: seq_def skip_def bind_bind)

lemma seq_ValE:
  assumes "seq m n w = (Val y, u)"
  obtains x v where "m w = (Val x, v)" "n v = (Val y, u)"
  using assms unfolding seq_def by (rule bind_ValE)

lemma seq_ExitE:
  assumes "seq m n w = (Halt (Exited k), v)"
  obtains "m w = (Halt (Exited k), v)" | x u where "m w = (Val x, u)" "n u = (Halt (Exited k), v)"
  using assms unfolding seq_def by (rule bind_ExitE)

lemma for_each_no_exit: "(\<And>x w v. m x w \<noteq> (Halt (Exited k), v)) \<Longrightarrow> for_each xs m w \<noteq> (Halt (Exited k), v)"
  by (induction xs arbitrary: w) (auto simp: skip_apply elim!: seq_ExitE)

end
