(* ===== verification/Restart.thy ===== *)
theory Restart
  imports Kernel
begin

text \<open>
  The restarted system calls of \<^verbatim>\<open>src/restart_lib-Robbins.c\<close> (Robbins and
  Robbins): the wrappers that repeat a call a signal has interrupted, and
  \<open>r_write\<close>, which also repeats after a short count. The locale \<open>restartable\<close>
  is the contract all the wrappers share, the locale \<open>transfer\<close> the contract
  of a reader and a writer that a copy loop relies on.
\<close>

section \<open>Restarted calls\<close>

text \<open>
  \<^verbatim>\<open>while (retval = CALL, retval == -1 && errno == EINTR);\<close>, the body of every
  restarted version of a traditional function.
\<close>

function restart_loop :: "call \<Rightarrow> reply prog" where
  "restart_loop c w = bind (syscall c) (\<lambda>r w.
     if retval r = -1 \<and> errno w = EINTR then restart_loop c w else ret r w) w"
  by pat_completeness auto
termination
  by (relation "measure (\<lambda>(c, w). length (script w))") (auto dest: syscall_script_less)

declare restart_loop.simps [simp del]

definition r_close :: "int \<Rightarrow> int prog" where
  "r_close fildes = bind (restart_loop (Close fildes)) (\<lambda>r. ret (retval r))"

definition r_dup2 :: "int \<Rightarrow> int \<Rightarrow> int prog" where
  "r_dup2 fildes fildes2 =
     bind (restart_loop (Call ''dup2'' [I fildes, I fildes2])) (\<lambda>r. ret (retval r))"

definition r_open2 :: "string \<Rightarrow> string \<Rightarrow> int prog" where
  "r_open2 path oflag =
     bind (restart_loop (Call ''open'' [S path, S oflag])) (\<lambda>r. ret (retval r))"

definition r_open3 :: "string \<Rightarrow> string \<Rightarrow> string \<Rightarrow> int prog" where
  "r_open3 path oflag mode =
     bind (restart_loop (Call ''open'' [S path, S oflag, S mode])) (\<lambda>r. ret (retval r))"

text \<open>The reply carries both the return value and the bytes put into \<open>buf\<close>.\<close>

definition r_read :: "int \<Rightarrow> nat \<Rightarrow> reply prog" where
  "r_read fd sz = restart_loop (Read fd sz)"

text \<open>The reply carries the process id and, as its first member, \<open>*stat_loc\<close>.\<close>

definition r_wait :: "reply prog" where
  "r_wait = restart_loop (Call ''wait'' [])"

definition r_waitpid :: "int \<Rightarrow> int \<Rightarrow> reply prog" where
  "r_waitpid pid options = restart_loop (Call ''waitpid'' [I pid, I options])"

text \<open>
  The loop of \<open>r_write\<close>: \<open>off\<close> is \<open>bufp - buf\<close>, \<open>bytestowrite\<close> is \<open>bytestowrite\<close>,
  \<open>totalbytes\<close> is \<open>totalbytes\<close>; the two counters are \<open>size_t\<close>.
\<close>

function r_write_loop :: "int \<Rightarrow> string \<Rightarrow> nat \<Rightarrow> nat \<Rightarrow> nat \<Rightarrow> int prog" where
  "r_write_loop fd buf off bytestowrite totalbytes w =
     (if 0 < bytestowrite then
        bind (syscall (Write fd (take bytestowrite (drop off buf)))) (\<lambda>r w.
          if retval r = -1 \<and> errno w \<noteq> EINTR then ret (-1) w
          else let byteswritten = (if retval r = -1 then 0 else retval r) in
            r_write_loop fd buf (nat (int off + byteswritten))
              (u64 (int bytestowrite - byteswritten)) (u64 (int totalbytes + byteswritten)) w) w
      else ret (s64 (int totalbytes)) w)"
  by pat_completeness auto
termination
  by (relation "measure (\<lambda>(fd, buf, off, bytestowrite, totalbytes, w). length (script w))")
    (auto dest: syscall_script_less)

declare r_write_loop.simps [simp del]

definition r_write :: "int \<Rightarrow> string \<Rightarrow> nat \<Rightarrow> int prog" where
  "r_write fd buf sz = r_write_loop fd buf 0 sz 0"


subsection \<open>The contract of a restarted call\<close>

text \<open>
  \<open>interrupted r e\<close>: the reply \<open>r\<close>, given when \<open>errno\<close> is \<open>e\<close>, makes the code
  repeat the call.
\<close>

definition interrupted :: "reply \<Rightarrow> int \<Rightarrow> bool" where
  "interrupted r e \<longleftrightarrow> retval r = -1 \<and> errno_after r e = EINTR"

lemma interrupted_Err [simp]: "interrupted (Err e) e' \<longleftrightarrow> e = EINTR"
  by (simp add: interrupted_def)

lemma interrupted_payload: "interrupted r e \<Longrightarrow> payload r = []"
  by (cases r) (auto simp: interrupted_def)

text \<open>
  A program \<open>f\<close> restarts the call \<open>c\<close>: it repeats it while it is interrupted
  and maps the first other reply with \<open>res\<close>. What follows from that holds of
  every wrapper of the library.
\<close>

locale restartable =
  fixes f :: "'a prog" and c :: call and res :: "reply \<Rightarrow> 'a"
  assumes blocked: "script w = [] \<Longrightarrow> f w = (Halt Blocked, w\<lparr>trace := trace w @ [Pending c]\<rparr>)"
    and again: "script w = r # rs \<Longrightarrow> interrupted r (errno w) \<Longrightarrow> f w = f (answered c r w)"
    and answer: "script w = r # rs \<Longrightarrow> \<not> interrupted r (errno w) \<Longrightarrow>
      f w = (Val (res r), answered c r w)"
begin

lemma returns:
  "f w = (Val y, v) \<Longrightarrow> \<exists>ints r. script w = ints @ r # script v \<and>
     trace v = trace w @ map (Sys c) (ints @ [r]) \<and> y = res r \<and>
     (\<forall>i\<in>set ints. retval i = -1) \<and> (\<exists>e. \<not> interrupted r e \<and> errno v = errno_after r e)"
proof (induction "script w" arbitrary: w)
  case Nil
  then show ?case by (simp add: blocked)
next
  case (Cons r rs)
  show ?case
  proof (cases "interrupted r (errno w)")
    case True
    with Cons have "f (answered c r w) = (Val y, v)" by (simp add: again[of w r rs])
    moreover from Cons.hyps(2) have "rs = script (answered c r w)" by (simp flip: Cons.hyps(2))
    ultimately obtain ints r' where *: "script (answered c r w) = ints @ r' # script v"
      "trace v = trace (answered c r w) @ map (Sys c) (ints @ [r'])" "y = res r'"
      "\<forall>i\<in>set ints. retval i = -1" "\<exists>e. \<not> interrupted r' e \<and> errno v = errno_after r' e"
      using Cons.hyps(1) by blast
    with True Cons.hyps(2)[symmetric] show ?thesis
      by (intro exI[of _ "r # ints"] exI[of _ r']) (auto simp: interrupted_def)
  next
    case False
    with Cons have "v = answered c r w" "y = res r" by (simp_all add: answer[of w r rs])
    with False Cons.hyps(2)[symmetric] show ?thesis
      by (intro exI[of _ "[]"] exI[of _ r]) (auto simp: interrupted_def)
  qed
qed

lemma halts:
  "f w = (Halt h, v) \<Longrightarrow> h = Blocked \<and> script v = [] \<and>
     trace v = trace w @ map (Sys c) (script w) @ [Pending c] \<and>
     (\<forall>i\<in>set (script w). retval i = -1)"
proof (induction "script w" arbitrary: w)
  case Nil
  then show ?case by (auto simp: blocked)
next
  case (Cons r rs)
  show ?case
  proof (cases "interrupted r (errno w)")
    case True
    with Cons have "f (answered c r w) = (Halt h, v)" by (simp add: again[of w r rs])
    moreover from Cons.hyps(2) have rs: "rs = script (answered c r w)" by (simp flip: Cons.hyps(2))
    ultimately have "h = Blocked \<and> script v = [] \<and>
       trace v = trace (answered c r w) @ map (Sys c) rs @ [Pending c] \<and>
       (\<forall>i\<in>set rs. retval i = -1)"
      using Cons.hyps(1)[OF rs] by simp
    with True Cons.hyps(2)[symmetric] show ?thesis by (auto simp: interrupted_def)
  next
    case False
    with Cons show ?thesis by (simp add: answer[of w r rs])
  qed
qed

lemma survives_interrupts:
  "script w = replicate n (Err EINTR) @ r # rs \<Longrightarrow> retval r \<noteq> -1 \<Longrightarrow>
   \<exists>v. f w = (Val (res r), v) \<and> script v = rs \<and>
     trace v = trace w @ replicate n (Sys c (Err EINTR)) @ [Sys c r]"
proof (induction n arbitrary: w)
  case 0
  then have "\<not> interrupted r (errno w)" by (simp add: interrupted_def)
  with 0 show ?case by (auto simp: answer[of w r rs])
next
  case (Suc n)
  let ?u = "answered c (Err EINTR) w"
  from Suc.prems have "f w = f ?u" by (intro again) auto
  moreover from Suc.prems have "script ?u = replicate n (Err EINTR) @ r # rs" by simp
  ultimately show ?case using Suc.IH[of ?u] Suc.prems(2) by (auto simp: replicate_append_same)
qed

lemma f_script_less: "f w = (Val y, v) \<Longrightarrow> length (script v) < length (script w)"
  by (auto dest!: returns)

lemma f_consumes: "consumes f"
proof -
  have "length (script (snd (f w))) \<le> length (script w)" for w
  proof (cases "f w")
    case (Pair x v)
    then show ?thesis by (cases x) (auto dest: f_script_less halts)
  qed
  then show ?thesis using f_script_less by (auto simp: consumes_def shrinks_def)
qed

lemma f_emits:
  assumes "\<And>r. P (Sys c r)" "P (Pending c)"
  shows "emits P f"
proof (rule emitsI)
  fix w
  obtain x v where fw: "f w = (x, v)" by (cases "f w")
  show "\<exists>es. trace (snd (f w)) = trace w @ es \<and> list_all P es"
  proof (cases x)
    case (Val y)
    with fw returns[of w y v] assms show ?thesis by (auto simp: list_all_iff)
  next
    case (Halt h)
    with fw halts[of w h v] assms show ?thesis by (auto simp: list_all_iff)
  qed
qed

end

lemma restart_loop_restartable: "restartable (restart_loop c) c (\<lambda>r. r)"
proof
  show "restart_loop c w = (Halt Blocked, w\<lparr>trace := trace w @ [Pending c]\<rparr>)"
    if "script w = []" for w
    using that by (simp add: restart_loop.simps bind_apply syscall_Nil)
  show "restart_loop c w = restart_loop c (answered c r w)"
    if "script w = r # rs" "interrupted r (errno w)" for w r rs
    using that by (simp add: restart_loop.simps[of c w] bind_apply syscall_Cons interrupted_def)
  show "restart_loop c w = (Val r, answered c r w)"
    if "script w = r # rs" "\<not> interrupted r (errno w)" for w r rs
    using that by (auto simp: restart_loop.simps[of c w] bind_apply syscall_Cons interrupted_def ret_apply)
qed

lemma restartable_map:
  assumes "restartable f c res"
  shows "restartable (bind f (\<lambda>x. ret (g x))) c (\<lambda>r. g (res r))"
proof -
  note R = restartable.blocked[OF assms] restartable.answer[OF assms]
  show ?thesis
  proof
    show "bind f (\<lambda>x. ret (g x)) w = bind f (\<lambda>x. ret (g x)) (answered c r w)"
      if "script w = r # rs" "interrupted r (errno w)" for w r rs
      using that by (simp add: bind_apply restartable.again[OF assms, of w r rs])
  qed (simp_all add: R bind_apply ret_apply)
qed

interpretation restart: restartable "restart_loop c" c "\<lambda>r. r" for c
  by (rule restart_loop_restartable)

interpretation close: restartable "r_close fd" "Close fd" retval for fd
  unfolding r_close_def by (rule restartable_map[OF restart_loop_restartable])

interpretation dup2: restartable "r_dup2 a b" "Call ''dup2'' [I a, I b]" retval for a b
  unfolding r_dup2_def by (rule restartable_map[OF restart_loop_restartable])

interpretation open2: restartable "r_open2 p f" "Call ''open'' [S p, S f]" retval for p f
  unfolding r_open2_def by (rule restartable_map[OF restart_loop_restartable])

interpretation open3: restartable "r_open3 p f m" "Call ''open'' [S p, S f, S m]" retval for p f m
  unfolding r_open3_def by (rule restartable_map[OF restart_loop_restartable])

interpretation read: restartable "r_read fd n" "Read fd n" "\<lambda>r. r" for fd n
  unfolding r_read_def by (rule restart_loop_restartable)

interpretation wait: restartable r_wait "Call ''wait'' []" "\<lambda>r. r"
  unfolding r_wait_def by (rule restart_loop_restartable)

interpretation waitpid: restartable "r_waitpid p k" "Call ''waitpid'' [I p, I k]" "\<lambda>r. r" for p k
  unfolding r_waitpid_def by (rule restart_loop_restartable)


section \<open>Complete writes\<close>

lemma r_write_done: "l = 0 \<Longrightarrow> r_write_loop fd buf off l t w = (Val (s64 (int t)), w)"
  by (simp add: r_write_loop.simps ret_apply)

lemma r_write_blocks:
  "0 < l \<Longrightarrow> script w = [] \<Longrightarrow> r_write_loop fd buf off l t w =
     (Halt Blocked, w\<lparr>trace := trace w @ [Pending (Write fd (take l (drop off buf)))]\<rparr>)"
  by (simp add: r_write_loop.simps bind_apply syscall_Nil)

lemma r_write_step:
  "0 < l \<Longrightarrow> script w = r # rs \<Longrightarrow> r_write_loop fd buf off l t w =
     (let u = answered (Write fd (take l (drop off buf))) r w;
          n = (if retval r = -1 then 0 else retval r)
      in if retval r = -1 \<and> errno_after r (errno w) \<noteq> EINTR then (Val (-1), u)
         else r_write_loop fd buf (nat (int off + n)) (u64 (int l - n)) (u64 (int t + n)) u)"
  by (simp add: r_write_loop.simps[of fd buf off l t w] bind_apply syscall_Cons ret_apply Let_def)

lemma r_write_loop_grows:
  "r_write_loop fd buf off l t w = (x, v) \<Longrightarrow>
   extends w v \<and> length (script v) \<le> length (script w)"
proof (induction "script w" arbitrary: off l t w)
  case Nil
  then show ?case
    by (cases "l = 0") (auto simp: r_write_done r_write_blocks extends_def)
next
  case (Cons r rs)
  note s = Cons.hyps(2)[symmetric]
  show ?case
  proof (cases "l = 0")
    case False
    let ?u = "answered (Write fd (take l (drop off buf))) r w"
    have "rs = script ?u" by (simp add: s)
    from Cons.hyps(1)[OF this] Cons.prems False
    have "extends ?u v \<and> length (script v) \<le> length (script ?u)"
      by (auto simp: r_write_step[OF _ s] Let_def split: if_splits)
    then show ?thesis using s by (auto intro: extends_trans[OF extends_answered])
  qed (use Cons.prems in \<open>simp add: r_write_done\<close>)
qed

lemma shrinks_r_write [shrink_intros]: "shrinks (r_write fd buf n)"
  unfolding shrinks_def r_write_def using r_write_loop_grows by (metis prod.collapse)

lemma appends_r_write: "emits (\<lambda>_. True) (r_write fd buf n)"
proof (rule emitsI)
  fix w
  have "extends w (snd (r_write fd buf n w))"
    unfolding r_write_def using r_write_loop_grows by (metis prod.collapse)
  then show "\<exists>es. trace (snd (r_write fd buf n w)) = trace w @ es \<and> list_all (\<lambda>_. True) es"
    by (auto simp: extends_def list_all_iff)
qed

lemma r_write_loop_cases:
  "r_write_loop fd buf off l t w = (x, v) \<Longrightarrow> kernel_ok (trace v) \<Longrightarrow>
   off + l = length buf \<Longrightarrow> t = off \<Longrightarrow> length buf < 2 ^ 63 \<Longrightarrow>
   \<exists>k\<le>l. io_delta nothing (only fd (take k (drop off buf))) w v \<and>
     (case x of Val n \<Rightarrow> n = int (length buf) \<and> k = l \<or>
          n = -1 \<and> k < l \<and> list_ex hard_error (trace v)
      | Halt h \<Rightarrow> h = Blocked)"
proof (induction "script w" arbitrary: off l t w)
  case Nil
  then show ?case
    by (cases "l = 0")
      (auto simp: r_write_done r_write_blocks s64_id c_limits io_delta_def intro!: exI[of _ 0])
next
  case (Cons r rs)
  note s = Cons.hyps(2)[symmetric]
  let ?b = "take l (drop off buf)"
  let ?u = "answered (Write fd ?b) r w"
  show ?case
  proof (cases "l = 0")
    case True
    with Cons.prems show ?thesis
      by (auto simp: r_write_done s64_id c_limits io_delta_def)
  next
    case False
    then have l: "0 < l" by simp
    have "extends ?u v" using Cons.prems(1)
      by (auto simp: r_write_step[OF l s] Let_def split: if_splits dest: r_write_loop_grows)
    with Cons.prems(2) have ok: "reply_ok (Write fd ?b) r"
      by (auto dest: extends_kernel_ok)
    show ?thesis
    proof (cases "retval r = -1 \<and> errno_after r (errno w) \<noteq> EINTR")
      case True
      with Cons.prems(1) have "x = Val (-1)" "v = ?u" by (auto simp: r_write_step[OF l s] Let_def)
      moreover from True ok have "\<exists>e. r = Err e \<and> e \<noteq> EINTR" by (cases r) auto
      ultimately show ?thesis using l by (intro exI[of _ 0]) (auto simp: io_delta_def)
    next
      case go: False
      define n where "n = (if retval r = -1 then 0 else retval r)"
      have n: "0 \<le> n" "n \<le> int l" "nat n = nat (retval r)"
        using ok Cons.prems(3) unfolding n_def by (cases r; auto)+
      have eqs: "nat (int off + n) = off + nat n" "u64 (int l - n) = l - nat n"
        "u64 (int t + n) = off + nat n"
        using n Cons.prems(3-5) by (auto simp: u64_id)
      have rec: "r_write_loop fd buf (off + nat n) (l - nat n) (off + nat n) ?u = (x, v)"
        using Cons.prems(1) go unfolding r_write_step[OF l s] Let_def n_def[symmetric] eqs by auto
      have "rs = script ?u" by (simp add: s)
      from Cons.hyps(1)[OF this rec Cons.prems(2) _ refl Cons.prems(5)] n Cons.prems(3)
      obtain k where k: "k \<le> l - nat n" "io_delta nothing (only fd (take k (drop (off + nat n) buf))) ?u v"
        "case x of Val m \<Rightarrow> m = int (length buf) \<and> k = l - nat n \<or>
           m = -1 \<and> k < l - nat n \<and> list_ex hard_error (trace v) | Halt h \<Rightarrow> h = Blocked"
        by auto
      have "io_delta nothing (only fd (take (nat n) ?b)) w ?u"
        using io_delta_Write[of fd r ?b w] n(3) by simp
      from io_delta_wr_trans[OF this k(2)]
      have "io_delta nothing (only fd (take (nat n + k) (drop off buf))) w v"
        using n(2) by (simp add: take_add min_absorb1 nat_le_iff add.commute[of off "nat n"])
      with k n show ?thesis
        by (intro exI[of _ "nat n + k"]) (auto split: outcome.splits)
    qed
  qed
qed

lemma read_events_quiet:
  "\<forall>i\<in>set ints. retval i = -1 \<Longrightarrow>
   received f (map (Sys (Read fd n)) ints) = [] \<and> delivered f (map (Sys (Read fd n)) ints) = []"
proof (induction ints)
  case (Cons i ints)
  then have "payload i = []" by (cases i) auto
  with Cons show ?case by (simp add: received_Cons delivered_Cons)
qed simp

lemma r_read_law:
  assumes rd: "r_read fd n w = (Val r, v)"
  shows "extends w v" and "io_delta (only fd (payload r)) nothing w v"
    and "kernel_ok (trace v) \<Longrightarrow> reply_ok (Read fd n) r"
    and "r = Err e \<Longrightarrow> list_ex hard_error (trace v)"
proof -
  obtain ints e' where
    *: "trace v = trace w @ map (Sys (Read fd n)) (ints @ [r])" "\<forall>i\<in>set ints. retval i = -1"
      "\<not> interrupted r e'"
    using read.returns[OF rd] by blast
  from * show "extends w v" by (simp add: extends_def)
  from * read_events_quiet[OF *(2)] show "io_delta (only fd (payload r)) nothing w v"
    by (simp add: io_delta_def only_def)
  from * show "kernel_ok (trace v) \<Longrightarrow> reply_ok (Read fd n) r" by simp
  from * show "r = Err e \<Longrightarrow> list_ex hard_error (trace v)" by auto
qed

lemma r_write_law:
  assumes "r_write fd buf (length buf) w = (Val n, v)" "kernel_ok (trace v)" "length buf < 2 ^ 63"
  shows "extends w v" and "0 \<le> n \<Longrightarrow> n = int (length buf) \<and> io_delta nothing (only fd buf) w v"
    and "n < 0 \<Longrightarrow> n = -1 \<and> list_ex hard_error (trace v) \<and>
      (\<exists>p. prefix p buf \<and> io_delta nothing (only fd p) w v)"
proof -
  from assms(1) show "extends w v" by (auto simp: r_write_def dest: r_write_loop_grows)
  obtain k where k: "k \<le> length buf" "io_delta nothing (only fd (take k buf)) w v"
    "n = int (length buf) \<and> k = length buf \<or> n = -1 \<and> k < length buf \<and> list_ex hard_error (trace v)"
    using r_write_loop_cases[OF assms(1)[unfolded r_write_def] assms(2) _ refl assms(3)] by auto
  from k show "0 \<le> n \<Longrightarrow> n = int (length buf) \<and> io_delta nothing (only fd buf) w v" by auto
  from k show "n < 0 \<Longrightarrow> n = -1 \<and> list_ex hard_error (trace v) \<and>
      (\<exists>p. prefix p buf \<and> io_delta nothing (only fd p) w v)"
    by (auto intro: take_is_prefix)
qed

lemma r_write_loop_progress:
  "filter (\<lambda>r. r \<noteq> Err EINTR) (script w) = map Ret ks @ rest \<Longrightarrow> \<forall>k\<in>set ks. 0 < k \<Longrightarrow>
   sum_list ks = int l \<Longrightarrow> off + l = length buf \<Longrightarrow> t = off \<Longrightarrow> length buf < 2 ^ 63 \<Longrightarrow>
   \<exists>v. r_write_loop fd buf off l t w = (Val (int (length buf)), v)"
proof (induction "script w" arbitrary: off l t w ks)
  case Nil
  then show ?case by (simp add: r_write_done s64_id c_limits)
next
  case (Cons r rs)
  note s = Cons.hyps(2)[symmetric]
  show ?case
  proof (cases "l = 0")
    case True
    with Cons.prems show ?thesis by (simp add: r_write_done s64_id c_limits)
  next
    case False
    then have l: "0 < l" by simp
    let ?u = "answered (Write fd (take l (drop off buf))) r w"
    have su: "rs = script ?u" by (simp add: s)
    from False Cons.prems(3) obtain k ks' where ks: "ks = k # ks'" by (cases ks) auto
    show ?thesis
    proof (cases "r = Err EINTR")
      case True
      with Cons.prems(1) have "filter (\<lambda>r. r \<noteq> Err EINTR) (script ?u) = map Ret ks @ rest"
        by (simp add: s)
      from Cons.hyps(1)[OF su this Cons.prems(2-6)] True l show ?thesis
        using Cons.prems by (simp add: r_write_step[OF l s] Let_def u64_id)
    next
      case notint: False
      with Cons.prems(1) ks have r: "r = Ret k"
        and fs: "filter (\<lambda>r. r \<noteq> Err EINTR) (script ?u) = map Ret ks' @ rest"
        by (auto simp: s)
      have pos: "0 < k" "\<forall>k\<in>set ks'. 0 < k" using Cons.prems(2) ks by auto
      then have "0 \<le> sum_list ks'" by (intro sum_list_nonneg) force
      then have k: "k \<le> int l" "sum_list ks' = int (l - nat k)" using Cons.prems(3) ks pos by auto
      have eqs: "nat (int off + k) = off + nat k" "u64 (int l - k) = l - nat k"
        "u64 (int t + k) = off + nat k"
        using k pos Cons.prems(4-6) by (auto simp: u64_id)
      have len: "off + nat k + (l - nat k) = length buf" using k pos Cons.prems(4) by simp
      from Cons.hyps(1)[OF su fs pos(2) k(2) len refl Cons.prems(6)] pos show ?thesis
        by (auto simp: r_write_step[OF l s] Let_def r eqs)
    qed
  qed
qed

section \<open>Transfers\<close>

text \<open>
  \<open>copied src dst s w v\<close>: between \<open>w\<close> and \<open>v\<close> exactly \<open>s\<close> was read from \<open>src\<close>
  and exactly \<open>s\<close> was written to \<open>dst\<close>.
\<close>

definition copied :: "int \<Rightarrow> int \<Rightarrow> string \<Rightarrow> world \<Rightarrow> world \<Rightarrow> bool" where
  "copied src dst s w v \<longleftrightarrow> io_delta (only src s) (only dst s) w v"

lemma copied_refl [simp]: "copied src dst [] w w"
  by (simp add: copied_def)

lemma copied_trans: "copied src dst s u v \<Longrightarrow> copied src dst t v w \<Longrightarrow> copied src dst (s @ t) u w"
  by (auto simp: copied_def io_delta_def only_def)

text \<open>
  What a copy loop relies on: a reader that returns one reply of the kernel,
  and a writer that either delivers the whole buffer or fails after a prefix
  of it. The lemmas of the locale are about one round of such a loop.
\<close>

locale transfer =
  fixes rd :: "int \<Rightarrow> nat \<Rightarrow> reply prog" and wr :: "int \<Rightarrow> string \<Rightarrow> nat \<Rightarrow> int prog"
  assumes rd_extends: "rd fd n w = (Val r, v) \<Longrightarrow> extends w v"
    and rd_delta: "rd fd n w = (Val r, v) \<Longrightarrow> io_delta (only fd (payload r)) nothing w v"
    and rd_ok: "rd fd n w = (Val r, v) \<Longrightarrow> kernel_ok (trace v) \<Longrightarrow> reply_ok (Read fd n) r"
    and rd_err: "rd fd n w = (Val (Err e), v) \<Longrightarrow> list_ex hard_error (trace v)"
    and wr_extends: "wr fd b m w = (Val k, v) \<Longrightarrow> extends w v"
    and wr_all: "wr fd b (length b) w = (Val k, v) \<Longrightarrow> kernel_ok (trace v) \<Longrightarrow>
      length b < 2 ^ 63 \<Longrightarrow> 0 \<le> k \<Longrightarrow> k = int (length b) \<and> io_delta nothing (only fd b) w v"
    and wr_fail: "wr fd b (length b) w = (Val k, v) \<Longrightarrow> kernel_ok (trace v) \<Longrightarrow>
      length b < 2 ^ 63 \<Longrightarrow> k < 0 \<Longrightarrow> list_ex hard_error (trace v) \<and>
      (\<exists>p. prefix p b \<and> io_delta nothing (only fd p) w v)"
begin

lemma chunk_length:
  assumes r: "rd src n w = (Val r, u)" and wr: "wr dst b m u = (Val k, v)"
    and ok: "kernel_ok (trace v)" and pos: "0 \<le> retval r"
  shows "retval r = int (length (payload r)) \<and> length (payload r) \<le> n \<and> extends w v"
proof -
  from wr have uv: "extends u v" by (rule wr_extends)
  with ok have "kernel_ok (trace u)" by (simp add: extends_kernel_ok)
  with r have "reply_ok (Read src n) r" by (rule rd_ok)
  with pos have "retval r = int (length (payload r)) \<and> length (payload r) \<le> n"
    by (auto elim: read_ok_cases)
  with r uv show ?thesis by (blast intro: extends_trans rd_extends)
qed

lemma chunk_copied:
  assumes r: "rd src n w = (Val r, u)" and wr: "wr dst (payload r) (nat (retval r)) u = (Val k, v)"
    and ok: "kernel_ok (trace v)" "n < 2 ^ 63" and pos: "0 \<le> retval r" "0 \<le> k"
  shows "copied src dst (payload r) w v \<and> k = retval r"
proof -
  from chunk_length[OF r wr ok(1) pos(1)]
  have len: "retval r = int (length (payload r))" "length (payload r) \<le> n" by simp_all
  with wr have wr': "wr dst (payload r) (length (payload r)) u = (Val k, v)" by simp
  from wr_all[OF wr' ok(1) _ pos(2)] len ok(2)
  have "k = int (length (payload r))" "io_delta nothing (only dst (payload r)) u v" by auto
  with rd_delta[OF r] len show ?thesis
    by (auto simp: copied_def io_delta_def only_def)
qed

lemma chunk_lags:
  assumes r: "rd src n w = (Val r, u)" and wr: "wr dst (payload r) (nat (retval r)) u = (Val k, v)"
    and ok: "kernel_ok (trace v)" "n < 2 ^ 63" and pos: "0 \<le> retval r" "k < 0"
  shows "\<exists>p. prefix p (payload r) \<and> io_delta (only src (payload r)) (only dst p) w v \<and>
    list_ex hard_error (trace v)"
proof -
  from chunk_length[OF r wr ok(1) pos(1)]
  have len: "retval r = int (length (payload r))" "length (payload r) \<le> n" by simp_all
  with wr have wr': "wr dst (payload r) (length (payload r)) u = (Val k, v)" by simp
  from wr_fail[OF wr' ok(1) _ pos(2)] len ok(2)
  obtain p where p: "prefix p (payload r)" "io_delta nothing (only dst p) u v"
    "list_ex hard_error (trace v)" by auto
  with rd_delta[OF r] show ?thesis
    by (auto simp: io_delta_def only_def)
qed

end

interpretation robbins: transfer r_read r_write
proof
  show "extends w v" if "r_read fd n w = (Val r, v)" for fd n w r v
    using that by (rule r_read_law)
  show "io_delta (only fd (payload r)) nothing w v" if "r_read fd n w = (Val r, v)" for fd n w r v
    using that by (rule r_read_law)
  show "reply_ok (Read fd n) r" if "r_read fd n w = (Val r, v)" "kernel_ok (trace v)" for fd n w r v
    using that by (rule r_read_law)
  show "list_ex hard_error (trace v)" if "r_read fd n w = (Val (Err e), v)" for fd n w e v
    using r_read_law(4)[OF that] by simp
  show "extends w v" if "r_write fd b m w = (Val k, v)" for fd b m w k v
    using that by (auto simp: r_write_def dest: r_write_loop_grows)
qed (use r_write_law in blast)+

lemma copied_prefix_delta:
  "copied src dst s u v \<Longrightarrow> io_delta (only src t) (only dst p) v w \<Longrightarrow>
   io_delta (only src (s @ t)) (only dst (s @ p)) u w"
  by (auto simp: copied_def io_delta_def only_def)

section \<open>Properties\<close>

text \<open>C1: Whatever short counts and interruptions the kernel answers with, \<open>r_write\<close>
  delivers a prefix of its buffer, in order and nothing else; when it returns
  a count it is the size of the buffer and all of it was delivered; it returns
  \<open>-1\<close> only after an error other than an interruption. It does return, with the full count, as
  soon as the kernel has taken the buffer in positive pieces, however the pieces are interleaved
  with interruptions.\<close>

theorem r_write_delivers:
  assumes "length buf < 2 ^ 63"
  shows "(r_write fd buf (length buf) w = (x, v) \<and> kernel_ok (trace v) \<longrightarrow>
      (\<exists>k\<le>length buf. io_delta nothing (only fd (take k buf)) w v \<and>
        (case x of
           Val n \<Rightarrow> n = int (length buf) \<and> k = length buf \<or>
             n = -1 \<and> k < length buf \<and> list_ex hard_error (trace v)
         | Halt h \<Rightarrow> h = Blocked))) \<and>
    (filter (\<lambda>r. r \<noteq> Err EINTR) (script u) = map Ret ks @ rest \<and> (\<forall>k\<in>set ks. 0 < k) \<and>
      sum_list ks = int (length buf) \<longrightarrow> (\<exists>v. r_write fd buf (length buf) u = (Val (int (length buf)), v)))"
proof (intro conjI impI; (elim conjE)?)
  assume "r_write fd buf (length buf) w = (x, v)" and ok: "kernel_ok (trace v)"
  from r_write_loop_cases[OF this(1)[unfolded r_write_def] ok _ refl assms] show
    "\<exists>k\<le>length buf. io_delta nothing (only fd (take k buf)) w v \<and>
        (case x of
           Val n \<Rightarrow> n = int (length buf) \<and> k = length buf \<or>
             n = -1 \<and> k < length buf \<and> list_ex hard_error (trace v)
         | Halt h \<Rightarrow> h = Blocked)" by simp
next
  assume "filter (\<lambda>r. r \<noteq> Err EINTR) (script u) = map Ret ks @ rest" "\<forall>k\<in>set ks. 0 < k" "sum_list ks = int (length buf)"
  from r_write_loop_progress[OF this _ refl assms] show "\<exists>v. r_write fd buf (length buf) u = (Val (int (length buf)), v)"
    unfolding r_write_def by simp
qed

theorem r_write_delivers_witness:
  "let w = boot [Ret 2, Err EINTR, Ret 3]; run = r_write 1 ''hello'' (length ''hello'') w
   in fst run = Val 5 \<and> delivered 1 (trace (snd run)) = ''hello''"
proof -
  let ?w = "boot [Ret 2, Err EINTR, Ret 3]"
  let ?run = "r_write 1 ''hello'' (length ''hello'') ?w"
  have x: "fst ?run = Val 5" and ok: "kernel_ok (trace (snd ?run))"
    by (simp_all add: r_write_def r_write_loop.simps run_defs u64_def s64_def kernel_ok_def)
  from r_write_delivers[of "''hello''" 1 ?w "Val 5" "snd ?run" ?w "[2, 3]" "[]"] run_eq[OF x] ok show ?thesis
    by (auto simp: io_delta_def Let_def)
qed

text \<open>C2: None of the restarted calls ever reports an interruption: when one of them
  returns \<open>-1\<close>, \<open>errno\<close> is not \<open>EINTR\<close>.\<close>

theorem restart_hides_EINTR:
  "r_close fd w = (Val n, v) \<and> n = -1 \<or> r_dup2 fd fd2 w = (Val n, v) \<and> n = -1 \<or>
   r_open2 path fl w = (Val n, v) \<and> n = -1 \<or> r_open3 path fl mode w = (Val n, v) \<and> n = -1 \<or>
   (\<exists>r. r_read fd sz w = (Val r, v) \<and> retval r = -1) \<or>
   (\<exists>r. r_wait w = (Val r, v) \<and> retval r = -1) \<or>
   (\<exists>r. r_waitpid pid options w = (Val r, v) \<and> retval r = -1) \<Longrightarrow> errno v \<noteq> EINTR"
  by (auto simp: interrupted_def dest!: close.returns dup2.returns open2.returns open3.returns
      read.returns wait.returns waitpid.returns)

theorem restart_hides_EINTR_witness:
  "let run = r_open2 ''f'' ''O_RDONLY'' (boot [Err EINTR, Err 13])
   in fst run = Val (-1) \<and> errno (snd run) \<noteq> EINTR"
proof -
  let ?run = "r_open2 ''f'' ''O_RDONLY'' (boot [Err EINTR, Err 13])"
  have x: "fst ?run = Val (-1)" by (simp add: r_open2_def restart_loop.simps run_defs)
  from restart_hides_EINTR[of 0 "boot [Err EINTR, Err 13]" "-1" "snd ?run" 0 "''f''" "''O_RDONLY''"]
    run_eq[OF x] x show ?thesis by simp
qed

section \<open>Runs of the wrappers that move no bytes\<close>

text \<open>\<open>opened es name fd\<close>: a call of \<open>open\<close> for \<open>name\<close> in the trace returned \<open>fd\<close>.\<close>

lemma quiet_wrappers:
  "emits quiet (r_close fd)" "emits quiet (r_open2 p f)" "emits quiet (r_open3 p f m)"
  by (intro close.f_emits open2.f_emits open3.f_emits; simp)+

definition opened :: "event list \<Rightarrow> string \<Rightarrow> int \<Rightarrow> bool" where
  "opened es name fd \<longleftrightarrow> (\<exists>flags r. Sys (Call ''open'' (S name # flags)) r \<in> set es \<and> retval r = fd)"

lemma opened_extends: "opened (trace w) n fd \<Longrightarrow> extends w v \<Longrightarrow> opened (trace v) n fd"
  unfolding opened_def extends_def by fastforce

lemma r_open2_opened: "r_open2 n f w = (Val fd, v) \<Longrightarrow> opened (trace v) n fd"
  unfolding opened_def by (fastforce dest!: open2.returns)

lemma r_open3_opened: "r_open3 n f m w = (Val fd, v) \<Longrightarrow> opened (trace v) n fd"
  unfolding opened_def by (fastforce dest!: open3.returns)

lemma wrappers_no_exit [simp]:
  "r_open2 p f w \<noteq> (Halt (Exited n), v)" "r_open3 p f m w \<noteq> (Halt (Exited n), v)" "r_read fd k w \<noteq> (Halt (Exited n), v)"
  by (auto dest: open2.halts open3.halts read.halts)

lemma r_write_no_exit [simp]: "r_write fd buf n w \<noteq> (Halt (Exited k), v)"
proof -
  have "r_write_loop fd buf off l t w \<noteq> (Halt (Exited k), v)" for off l t
  proof (induction "script w" arbitrary: off l t w)
    case Nil
    then show ?case by (cases "l = 0") (auto simp: r_write_done r_write_blocks)
  next
    case (Cons r rs)
    note s = Cons.hyps(2)[symmetric]
    have "rs = script (answered (Write fd (take l (drop off buf))) r w)" by (simp add: s)
    from Cons.hyps(1)[OF this] show ?case
      by (cases "l = 0") (auto simp: r_write_done r_write_step[OF _ s] Let_def)
  qed
  then show ?thesis by (simp add: r_write_def)
qed

lemma r_write_emits:
  assumes "\<And>b r. P (Sys (Write fd b) r)" and "\<And>b. P (Pending (Write fd b))"
  shows "emits P (r_write fd buf n)"
proof (rule emitsI)
  fix w
  have "\<exists>es. trace (snd (r_write_loop fd buf off l t w)) = trace w @ es \<and> list_all P es" for off l t
  proof (induction "script w" arbitrary: off l t w)
    case Nil
    then show ?case using assms by (cases "l = 0") (auto simp: r_write_done r_write_blocks)
  next
    case (Cons r rs)
    note s = Cons.hyps(2)[symmetric]
    let ?u = "answered (Write fd (take l (drop off buf))) r w"
    have "rs = script ?u" by (simp add: s)
    note IH = Cons.hyps(1)[OF this]
    show ?case
    proof (cases "l = 0")
      case False
      have "\<exists>es. trace (snd (r_write_loop fd buf off' l' t' ?u)) = trace w @ es \<and> list_all P es" for off' l' t'
        using IH[of off' l' t'] assms(1) by auto
      then show ?thesis using False assms(1) by (auto simp: r_write_step[OF _ s] Let_def)
    qed (simp add: r_write_done)
  qed
  then show "\<exists>es. trace (snd (r_write fd buf n w)) = trace w @ es \<and> list_all P es" by (simp add: r_write_def)
qed

end
