(* ===== verification/RestartCopy.thy ===== *)
theory RestartCopy
  imports Restart Complex_Main
begin

text \<open>
  The utility functions of \<^verbatim>\<open>src/restart_lib-Robbins.c\<close>: the block and line
  readers, the copy loop, and the timed waits.
\<close>

section \<open>Reading blocks and lines\<close>

text \<open>
  \<open>acc\<close> is what has been stored in \<open>buf\<close> so far; the functions return the
  value of the C function and the contents of the buffer.
\<close>

function readblock_loop :: "int \<Rightarrow> nat \<Rightarrow> nat \<Rightarrow> string \<Rightarrow> (int \<times> string) prog" where
  "readblock_loop fd bytestoread totalbytes acc w =
     (if 0 < bytestoread then
        bind (syscall (Read fd bytestoread)) (\<lambda>r w.
          let bytesread = retval r in
          if bytesread = 0 \<and> totalbytes = 0 then ret (0, acc) w
          else if bytesread = 0 then seq (set_errno EINVAL) (ret (-1, acc)) w
          else if bytesread = -1 \<and> errno w \<noteq> EINTR then ret (-1, acc) w
          else let n = (if bytesread = -1 then 0 else bytesread) in
            readblock_loop fd (u64 (int bytestoread - n)) (u64 (int totalbytes + n))
              (acc @ payload r) w) w
      else ret (s64 (int totalbytes), acc) w)"
  by pat_completeness auto
termination
  by (relation "measure (\<lambda>(fd, l, t, acc, w). length (script w))")
    (auto dest: syscall_script_less)

declare readblock_loop.simps [simp del]

definition readblock :: "int \<Rightarrow> nat \<Rightarrow> (int \<times> string) prog" where
  "readblock fd sz = readblock_loop fd sz 0 []"

text \<open>\<open>numread\<close> is the length of \<open>acc\<close>.\<close>

function readline_loop :: "int \<Rightarrow> int \<Rightarrow> string \<Rightarrow> (int \<times> string) prog" where
  "readline_loop fd nbytes acc w =
     (if int (length acc) < nbytes - 1 then
        bind (syscall (Read fd 1)) (\<lambda>r w.
          let returnval = retval r in
          if returnval = -1 \<and> errno w = EINTR then readline_loop fd nbytes acc w
          else if returnval = 0 \<and> length acc = 0 then ret (0, acc) w
          else if returnval = 0 then seq (set_errno EINVAL) (ret (-1, acc)) w
          else if returnval = -1 then ret (-1, acc) w
          else let acc' = acc @ payload r in
            if acc' \<noteq> [] \<and> last acc' = CHR 0x0A then ret (int (length acc'), acc') w
            else readline_loop fd nbytes acc' w) w
      else seq (set_errno EINVAL) (ret (-1, acc)) w)"
  by pat_completeness auto
termination
  by (relation "measure (\<lambda>(fd, n, acc, w). length (script w))")
    (auto dest: syscall_script_less)

declare readline_loop.simps [simp del]

definition readline :: "int \<Rightarrow> int \<Rightarrow> (int \<times> string) prog" where
  "readline fd nbytes = readline_loop fd nbytes []"


section \<open>Copying\<close>

text \<open>\<open>BLKSIZE\<close> is \<open>PIPE_BUF\<close>.\<close>

abbreviation (input) BLKSIZE :: nat where "BLKSIZE \<equiv> PIPE_BUF"

definition readwrite :: "int \<Rightarrow> int \<Rightarrow> int prog" where
  "readwrite fromfd tofd = bind (r_read fromfd BLKSIZE) (\<lambda>r.
     let bytesread = retval r in
     if bytesread < 0 then ret (-1)
     else if bytesread = 0 then ret 0
     else bind (r_write tofd (payload r) (nat bytesread)) (\<lambda>n.
       if n < 0 then ret (-1) else ret bytesread))"

text \<open>\<open>sz\<close> is an \<open>int\<close>, converted to \<open>size_t\<close> for the two calls.\<close>

definition readwriteblock :: "int \<Rightarrow> int \<Rightarrow> int \<Rightarrow> int prog" where
  "readwriteblock fromfd tofd sz = bind (readblock fromfd (u64 sz)) (\<lambda>(bytesread, buf).
     if s32 bytesread \<noteq> sz then ret (s32 bytesread)
     else bind (r_write tofd buf (u64 sz)) (\<lambda>n. ret (s32 n)))"

text \<open>
  \<open>totalbytes\<close> is an \<open>int\<close>: adding past \<open>INT_MAX\<close> is undefined. The loop ends
  because \<open>readwrite\<close> makes at least one call.
\<close>

lemma readwrite_script_less:
  "readwrite a b w = (Val n, v) \<Longrightarrow> length (script v) < length (script w)"
  by (auto simp: readwrite_def r_read_def r_write_def bind_apply ret_apply Let_def
      split: prod.splits outcome.splits if_splits
      dest!: restart.f_script_less r_write_loop_grows)

function copyfile_loop :: "int \<Rightarrow> int \<Rightarrow> int \<Rightarrow> int prog" where
  "copyfile_loop fromfd tofd totalbytes w = bind (readwrite fromfd tofd) (\<lambda>bytesread w.
     if 0 < bytesread then
       if INT_MAX < totalbytes + bytesread then stop (Undef ''signed overflow'') w
       else copyfile_loop fromfd tofd (totalbytes + bytesread) w
     else ret totalbytes w) w"
  by pat_completeness auto
termination
  by (relation "measure (\<lambda>(a, b, t, w). length (script w))") (auto dest: readwrite_script_less)

declare copyfile_loop.simps [simp del]

definition copyfile :: "int \<Rightarrow> int \<Rightarrow> int prog" where
  "copyfile fromfd tofd = copyfile_loop fromfd tofd 0"

section \<open>Timed waits\<close>

abbreviation (input) MILLION :: int where "MILLION \<equiv> 1000000"

definition gettimeout :: "timeval \<Rightarrow> (int \<times> timeval) prog" where
  "gettimeout deadline = bind (syscall (Call ''gettimeofday'' [])) (\<lambda>r.
     let sec = tv_sec deadline - out 0 r;
         usec = tv_usec deadline - out 1 r;
         (sec, usec) = (if MILLION \<le> usec then (sec + 1, usec - MILLION) else (sec, usec));
         (sec, usec) = (if usec < 0 then (sec - 1, usec + MILLION) else (sec, usec))
     in if sec < 0 \<or> (sec = 0 \<and> usec = 0)
        then seq (set_errno ETIME) (ret (-1, Timeval sec usec))
        else ret (0, Timeval sec usec))"

text \<open>
  \<open>seconds\<close> is a \<open>double\<close>, here an exact rational: \<open>c_int\<close> is the cast to
  \<open>int\<close>, which truncates towards zero.
\<close>

definition c_int :: "rat \<Rightarrow> int" where
  "c_int x = (if 0 \<le> x then \<lfloor>x\<rfloor> else \<lceil>x\<rceil>)"

definition add2currenttime :: "rat \<Rightarrow> timeval prog" where
  "add2currenttime seconds = bind (syscall (Call ''gettimeofday'' [])) (\<lambda>r.
     let sec = out 0 r + c_int seconds;
         usec = out 1 r + c_int ((seconds - of_int (c_int seconds)) * 1000000 + 1 / 2)
     in if MILLION \<le> usec then ret (Timeval (sec + 1) (usec - MILLION))
        else ret (Timeval sec usec))"

text \<open>The \<open>while\<close> loop of \<open>waitfdtimed\<close> around \<open>select\<close>, and what follows it.\<close>

lemma gettimeout_script_less:
  "gettimeout d w = (Val x, v) \<Longrightarrow> length (script v) < length (script w)"
  by (auto simp: gettimeout_def bind_apply ret_apply seq_apply set_errno_apply Let_def
      split: prod.splits outcome.splits if_splits dest!: syscall_script_less)

text \<open>
  An \<open>fd_set\<close> is the list of its members. \<open>FD_SET\<close> of a descriptor that no set has room
  for is undefined.
\<close>

definition fds_zero :: "int list" where
  "fds_zero = []"

definition fds_set :: "int \<Rightarrow> int list \<Rightarrow> int list option" where
  "fds_set fd fds = (if fd < 0 \<or> FD_SETSIZE \<le> fd then None else Some (List.insert fd fds))"

text \<open>
  The arguments of \<open>select\<close> are \<open>nfds\<close>, the timeout and the members of \<open>readset\<close>. What the
  call leaves in \<open>readset\<close> is up to the kernel, even when it fails.
\<close>

definition select_read :: "int \<Rightarrow> int list \<Rightarrow> timeval \<Rightarrow> reply prog" where
  "select_read nfds readset timeout =
     syscall (Call ''select'' (I nfds # I (tv_sec timeout) # I (tv_usec timeout) # map I readset))"

lemma select_read_script_less:
  "select_read n fds t w = (Val r, v) \<Longrightarrow> length (script v) < length (script w)"
  by (auto simp: select_read_def dest: syscall_script_less)

function waitfd_loop :: "int \<Rightarrow> timeval \<Rightarrow> int list \<Rightarrow> timeval \<Rightarrow> int prog" where
  "waitfd_loop fd deadline readset timeout w =
     bind (select_read (fd + 1) readset timeout) (\<lambda>r w.
       let readset = outs r in
       if retval r = -1 \<and> errno w = EINTR then
         bind (gettimeout deadline) (\<lambda>g w.
           if fst g = -1 then ret (-1) w
           else let readset = fds_zero in
             case fds_set fd readset of
               None \<Rightarrow> stop (Undef ''FD_SET out of range'') w
             | Some readset \<Rightarrow> waitfd_loop fd deadline readset (snd g) w) w
       else if retval r = 0 then seq (set_errno ETIME) (ret (-1)) w
       else if retval r = -1 then ret (-1) w
       else ret 0 w) w"
  by pat_completeness auto
termination
  by (relation "measure (\<lambda>(fd, d, fds, t, w). length (script w))")
    (auto dest!: select_read_script_less gettimeout_script_less)

declare waitfd_loop.simps [simp del]

definition waitfdtimed :: "int \<Rightarrow> timeval \<Rightarrow> int prog" where
  "waitfdtimed fd deadline =
     (if fd < 0 \<or> FD_SETSIZE \<le> fd then seq (set_errno EINVAL) (ret (-1))
      else let readset = fds_zero in
        or_undef ''FD_SET out of range'' (fds_set fd readset) (\<lambda>readset.
          bind (gettimeout deadline) (\<lambda>g.
            if fst g = -1 then ret (-1) else waitfd_loop fd deadline readset (snd g))))"

definition readtimed :: "int \<Rightarrow> nat \<Rightarrow> rat \<Rightarrow> reply prog" where
  "readtimed fd nbyte seconds = bind (add2currenttime seconds) (\<lambda>timedone.
     bind (waitfdtimed fd timedone) (\<lambda>n.
       if n = -1 then ret (Ret (-1)) else r_read fd nbyte))"


section \<open>Facts about the loops\<close>

lemma readwrite_cases:
  assumes rw: "readwrite src dst w = (Val n, v)" and ok: "kernel_ok (trace v)"
  shows "\<exists>s p. extends w v \<and> prefix p s \<and> io_delta (only src s) (only dst p) w v \<and>
    (0 \<le> n \<longrightarrow> p = s \<and> n = int (length s)) \<and> (n < 0 \<longrightarrow> n = -1 \<and> list_ex hard_error (trace v))"
proof -
  obtain r u where r: "r_read src BLKSIZE w = (Val r, u)"
    using rw by (auto simp: readwrite_def bind_apply split: prod.splits outcome.splits)
  have d: "io_delta (only src (payload r)) nothing w u" "extends w u"
    using r by (rule robbins.rd_delta, rule robbins.rd_extends)
  show ?thesis
  proof (cases "retval r \<le> 0")
    case True
    with r rw have v: "v = u" "n = (if retval r < 0 then -1 else 0)"
      by (auto simp: readwrite_def bind_apply ret_apply Let_def split: if_splits)
    with r ok have "reply_ok (Read src BLKSIZE) r" by (blast intro: robbins.rd_ok)
    then show ?thesis
    proof (rule read_ok_cases)
      fix e assume "r = Err e"
      with d v r robbins.rd_err[of src BLKSIZE w e u] show ?thesis
        by (intro exI[of _ "[]"]) auto
    next
      fix s assume "r = Data s"
      with True d v show ?thesis by auto
    qed
  next
    case False
    then obtain k where k: "r_write dst (payload r) (nat (retval r)) u = (Val k, v)"
      "n = (if k < 0 then -1 else retval r)"
      using r rw by (auto simp: readwrite_def bind_apply ret_apply Let_def
          split: prod.splits outcome.splits if_splits)
    from False have pos: "0 \<le> retval r" by simp
    note len = robbins.chunk_length[OF r k(1) ok pos]
    show ?thesis
    proof (cases "k < 0")
      case True
      from robbins.chunk_lags[OF r k(1) ok _ pos True] len k(2) True show ?thesis by auto
    next
      case F: False
      then have "0 \<le> k" by simp
      from robbins.chunk_copied[OF r k(1) ok _ pos this] len k(2) F show ?thesis
        by (auto simp: copied_def)
    qed
  qed
qed

lemma copyfile_loop_cases:
  "copyfile_loop src dst t w = (Val n, v) \<Longrightarrow> kernel_ok (trace v) \<Longrightarrow>
   \<exists>s p. extends w v \<and> prefix p s \<and> io_delta (only src s) (only dst p) w v \<and> n \<le> t + int (length p) \<and>
     (\<not> list_ex hard_error (trace v) \<longrightarrow> p = s \<and> n = t + int (length s))"
proof (induction src dst t w rule: copyfile_loop.induct)
  case (1 src dst t w)
  note unf = copyfile_loop.simps[of src dst t w]
  obtain m u where rw: "readwrite src dst w = (Val m, u)"
    using 1(2) by (auto simp: unf bind_apply split: prod.splits outcome.splits)
  show ?case
  proof (cases "0 < m")
    case False
    with rw 1(2) have "v = u" "n = t" by (auto simp: unf bind_apply ret_apply)
    with readwrite_cases[OF rw] 1(3) False show ?thesis by fastforce
  next
    case True
    with rw 1(2) have small: "\<not> INT_MAX < t + m" and rec: "copyfile_loop src dst (t + m) u = (Val n, v)"
      by (auto simp: unf bind_apply stop_apply split: if_splits)
    from 1(1)[OF rw True small rec 1(3)] obtain s p where
      ih: "extends u v" "prefix p s" "io_delta (only src s) (only dst p) u v" "n \<le> t + m + int (length p)"
        "\<not> list_ex hard_error (trace v) \<longrightarrow> p = s \<and> n = t + m + int (length s)" by auto
    from ih(1) 1(3) have "kernel_ok (trace u)" by (rule extends_kernel_ok)
    from readwrite_cases[OF rw this] True obtain s' where
      s': "extends w u" "io_delta (only src s') (only dst s') w u" "m = int (length s')" by auto
    have "io_delta (only src (s' @ s)) (only dst (s' @ p)) w v"
      using copied_prefix_delta[of src dst s' w u s p v] s' ih by (simp add: copied_def)
    with ih s' show ?thesis
      by (intro exI[of _ "s' @ s"] exI[of _ "s' @ p"]) (auto intro: extends_trans)
  qed
qed

lemma readblock_done: "l = 0 \<Longrightarrow> readblock_loop fd l t acc w = (Val (s64 (int t), acc), w)"
  by (simp add: readblock_loop.simps ret_apply)

lemma readblock_blocks:
  "0 < l \<Longrightarrow> script w = [] \<Longrightarrow> readblock_loop fd l t acc w =
     (Halt Blocked, w\<lparr>trace := trace w @ [Pending (Read fd l)]\<rparr>)"
  by (simp add: readblock_loop.simps bind_apply syscall_Nil)

lemma readblock_step:
  "0 < l \<Longrightarrow> script w = r # rs \<Longrightarrow> readblock_loop fd l t acc w =
     (let u = answered (Read fd l) r w; n = (if retval r = -1 then 0 else retval r)
      in if retval r = 0 \<and> t = 0 then (Val (0, acc), u)
         else if retval r = 0 then (Val (-1, acc), u\<lparr>errno := EINVAL\<rparr>)
         else if retval r = -1 \<and> errno_after r (errno w) \<noteq> EINTR then (Val (-1, acc), u)
         else readblock_loop fd (u64 (int l - n)) (u64 (int t + n)) (acc @ payload r) u)"
  by (simp add: readblock_loop.simps[of fd l t acc w] bind_apply syscall_Cons ret_apply seq_apply
      set_errno_apply Let_def)

lemma readblock_loop_extends: "readblock_loop fd l t acc w = (x, v) \<Longrightarrow> extends w v"
proof (induction "script w" arbitrary: l t acc w)
  case Nil
  then show ?case
    by (cases "l = 0") (auto simp: readblock_done readblock_blocks extends_def)
next
  case (Cons r rs)
  note s = Cons.hyps(2)[symmetric]
  show ?case
  proof (cases "l = 0")
    case False
    let ?u = "answered (Read fd l) r w"
    have "rs = script ?u" by (simp add: s)
    from Cons.hyps(1)[OF this] Cons.prems False have "extends ?u v"
      by (auto simp: readblock_step[OF _ s] Let_def extends_def split: if_splits)
    then show ?thesis by (rule extends_trans[OF extends_answered])
  qed (use Cons.prems in \<open>simp add: readblock_done\<close>)
qed

lemma io_delta_errno [simp]: "io_delta a b w (v\<lparr>errno := e\<rparr>) = io_delta a b w v"
  by (simp add: io_delta_def)

lemma io_delta_cong: "io_delta a b w v \<Longrightarrow> a = a' \<Longrightarrow> b = b' \<Longrightarrow> io_delta a' b' w v"
  by simp

lemma readblock_loop_cases:
  "readblock_loop fd l t acc w = (Val (k, b), v) \<Longrightarrow> kernel_ok (trace v) \<Longrightarrow>
   t = length acc \<Longrightarrow> t + l < 2 ^ 63 \<Longrightarrow>
   \<exists>b'. b = acc @ b' \<and> io_delta (only fd b') nothing w v \<and>
     (k = int (t + l) \<and> length b = t + l \<or> k = 0 \<and> b = [] \<or>
      k = -1 \<and> length b < t + l)"
proof (induction "script w" arbitrary: l t acc w)
  case Nil
  then show ?case
    by (cases "l = 0") (auto simp: readblock_done readblock_blocks s64_id c_limits)
next
  case (Cons r rs)
  note s = Cons.hyps(2)[symmetric]
  let ?u = "answered (Read fd l) r w"
  show ?case
  proof (cases "l = 0")
    case True
    with Cons.prems show ?thesis by (auto simp: readblock_done s64_id c_limits)
  next
    case False
    then have l: "0 < l" by simp
    have "extends ?u v" using Cons.prems(1)
      by (auto simp: readblock_step[OF l s] Let_def extends_def split: if_splits
          dest!: readblock_loop_extends)
    with Cons.prems(2) have ok: "reply_ok (Read fd l) r" by (auto dest: extends_kernel_ok)
    have one: "io_delta (only fd (payload r)) nothing w ?u" by (rule io_delta_Read)
    show ?thesis
    proof (cases "retval r = 0 \<or> retval r = -1 \<and> errno_after r (errno w) \<noteq> EINTR")
      case True
      with ok have "payload r = []" by (auto elim: read_ok_cases)
      with one True Cons.prems l show ?thesis
        by (auto simp: readblock_step[OF l s] Let_def split: if_splits)
    next
      case go: False
      define n where "n = (if retval r = -1 then 0 else retval r)"
      have n: "0 \<le> n" "n \<le> int l" "nat n = length (payload r)"
        using ok unfolding n_def by (auto elim: read_ok_cases)
      have eqs: "u64 (int l - n) = l - nat n" "u64 (int t + n) = length (acc @ payload r)"
        using n Cons.prems(3,4) by (auto simp: u64_id nat_add_distrib)
      have rec: "readblock_loop fd (l - nat n) (length (acc @ payload r)) (acc @ payload r) ?u = (Val (k, b), v)"
        using Cons.prems(1) go unfolding readblock_step[OF l s] Let_def n_def[symmetric] eqs by auto
      have "rs = script ?u" by (simp add: s)
      from Cons.hyps(1)[OF this rec Cons.prems(2) refl] n Cons.prems(3,4)
      obtain b' where b': "b = (acc @ payload r) @ b'" "io_delta (only fd b') nothing ?u v"
        "k = int (t + l) \<and> length b = t + l \<or> k = 0 \<and> b = [] \<or> k = -1 \<and> length b < t + l"
        by (auto simp: algebra_simps)
      with io_delta_rd_trans[OF one b'(2)] show ?thesis by auto
    qed
  qed
qed

lemma readline_full_buffer:
  "nbytes - 1 \<le> int (length acc) \<Longrightarrow>
   readline_loop fd nbytes acc w = (Val (-1, acc), w\<lparr>errno := EINVAL\<rparr>)"
  by (simp add: readline_loop.simps seq_apply set_errno_apply ret_apply)

lemma readline_blocks:
  "int (length acc) < nbytes - 1 \<Longrightarrow> script w = [] \<Longrightarrow> readline_loop fd nbytes acc w =
     (Halt Blocked, w\<lparr>trace := trace w @ [Pending (Read fd 1)]\<rparr>)"
  by (simp add: readline_loop.simps bind_apply syscall_Nil)

lemma readline_step:
  "int (length acc) < nbytes - 1 \<Longrightarrow> script w = r # rs \<Longrightarrow> readline_loop fd nbytes acc w =
     (let u = answered (Read fd 1) r w; acc' = acc @ payload r
      in if retval r = -1 \<and> errno_after r (errno w) = EINTR then readline_loop fd nbytes acc u
         else if retval r = 0 \<and> acc = [] then (Val (0, acc), u)
         else if retval r = 0 then (Val (-1, acc), u\<lparr>errno := EINVAL\<rparr>)
         else if retval r = -1 then (Val (-1, acc), u)
         else if acc' \<noteq> [] \<and> last acc' = CHR 0x0A then (Val (int (length acc'), acc'), u)
         else readline_loop fd nbytes acc' u)"
  by (simp add: readline_loop.simps[of fd nbytes acc w] bind_apply syscall_Cons ret_apply seq_apply
      set_errno_apply Let_def)

lemma readline_loop_extends: "readline_loop fd nb acc w = (x, v) \<Longrightarrow> extends w v"
proof (induction "script w" arbitrary: acc w)
  case Nil
  then show ?case
    by (cases "int (length acc) < nb - 1") (auto simp: readline_full_buffer readline_blocks extends_def)
next
  case (Cons r rs)
  note s = Cons.hyps(2)[symmetric]
  show ?case
  proof (cases "int (length acc) < nb - 1")
    case True
    let ?u = "answered (Read fd 1) r w"
    have "rs = script ?u" by (simp add: s)
    from Cons.hyps(1)[OF this] Cons.prems have "extends ?u v"
      by (auto simp: readline_step[OF True s] Let_def extends_def split: if_splits)
    then show ?thesis by (rule extends_trans[OF extends_answered])
  qed (use Cons.prems in \<open>auto simp: readline_full_buffer extends_def\<close>)
qed

definition is_line :: "string \<Rightarrow> bool" where
  "is_line b \<longleftrightarrow> b \<noteq> [] \<and> last b = CHR 0x0A \<and> CHR 0x0A \<notin> set (butlast b)"

lemma readline_loop_cases:
  "readline_loop fd nb acc w = (Val (k, b), v) \<Longrightarrow> kernel_ok (trace v) \<Longrightarrow>
   CHR 0x0A \<notin> set acc \<Longrightarrow>
   \<exists>b'. b = acc @ b' \<and> io_delta (only fd b') nothing w v \<and>
     (k = int (length b) \<and> k < nb \<and> is_line b \<or> k = 0 \<and> b = [] \<or> k = -1 \<and> CHR 0x0A \<notin> set b)"
proof (induction "script w" arbitrary: acc w)
  case Nil
  then show ?case
    by (cases "int (length acc) < nb - 1") (auto simp: readline_full_buffer readline_blocks)
next
  case (Cons r rs)
  note s = Cons.hyps(2)[symmetric]
  let ?u = "answered (Read fd 1) r w"
  show ?case
  proof (cases "int (length acc) < nb - 1")
    case False
    with Cons.prems show ?thesis by (auto simp: readline_full_buffer)
  next
    case room: True
    have "extends ?u v" using Cons.prems(1)
      by (auto simp: readline_step[OF room s] Let_def extends_def split: if_splits
          dest!: readline_loop_extends)
    with Cons.prems(2) have ok: "reply_ok (Read fd 1) r" by (auto dest: extends_kernel_ok)
    have one: "io_delta (only fd (payload r)) nothing w ?u" by (rule io_delta_Read)
    have su: "rs = script ?u" by (simp add: s)
    from ok show ?thesis
    proof (rule read_ok_cases)
      fix e assume r: "r = Err e"
      show ?thesis
      proof (cases "e = EINTR")
        case True
        with r Cons.prems(1) have "readline_loop fd nb acc ?u = (Val (k, b), v)"
          by (simp add: readline_step[OF room s] Let_def)
        from Cons.hyps(1)[OF su this Cons.prems(2,3)] one r show ?thesis
          by (auto simp: io_delta_def)
      qed (use r one Cons.prems in \<open>auto simp: readline_step[OF room s] Let_def split: if_splits\<close>)
    next
      fix d assume r: "r = Data d" "length d \<le> 1"
      show ?thesis
      proof (cases d)
        case Nil
        with r one Cons.prems show ?thesis
          by (auto simp: readline_step[OF room s] Let_def split: if_splits)
      next
        case dcs: (Cons c cs)
        with r have d: "d = [c]" by simp
        show ?thesis
        proof (cases "c = CHR 0x0A")
          case True
          with r d one Cons.prems room show ?thesis
            by (auto simp: readline_step[OF room s] Let_def is_line_def split: if_splits)
        next
          case False
          with r d Cons.prems(1) have "readline_loop fd nb (acc @ [c]) ?u = (Val (k, b), v)"
            by (simp add: readline_step[OF room s] Let_def)
          from Cons.hyps(1)[OF su this Cons.prems(2)] Cons.prems(3) False obtain b' where
            b': "b = (acc @ [c]) @ b'" "io_delta (only fd b') nothing ?u v"
              "k = int (length b) \<and> k < nb \<and> is_line b \<or> k = 0 \<and> b = [] \<or> k = -1 \<and> CHR 0x0A \<notin> set b"
            by auto
          with io_delta_rd_trans[OF one b'(2)] r d show ?thesis by auto
        qed
      qed
    qed
  qed
qed

lemma gettimeout_cases:
  assumes run: "gettimeout deadline w = (Val (k, t), v)"
  shows "\<exists>r. trace v = trace w @ [Sys (Call ''gettimeofday'' []) r] \<and>
    usecs t = usecs deadline - usecs (Timeval (out 0 r) (out 1 r)) \<and>
    (normal_tv deadline \<longrightarrow> normal_tv (Timeval (out 0 r) (out 1 r)) \<longrightarrow> normal_tv t) \<and>
    k = (if tv_sec t < 0 \<or> t = Timeval 0 0 then -1 else 0) \<and> (k = -1 \<longrightarrow> errno v = ETIME) \<and>
    (k \<noteq> -1 \<longrightarrow> errno v = errno_after r (errno w))"
proof -
  obtain r rs where s: "script w = r # rs"
    using run by (cases "script w") (auto simp: gettimeout_def bind_apply syscall_Nil)
  show ?thesis
    by (rule exI[of _ r])
      (use run s in \<open>auto simp: gettimeout_def bind_apply syscall_Cons Let_def ret_apply seq_apply
        set_errno_apply usecs_def normal_tv_def split: if_splits\<close>)
qed

text \<open>
  The calls of a wait for \<open>fd\<close> until \<open>deadline\<close>, and how they decide the value \<open>n\<close> returned and
  the \<open>errno\<close> left, \<open>e0\<close> being the one before them. The wait goes in rounds: it asks for the time, and if the deadline
  is ahead it calls \<open>select\<close> on the set of just \<open>fd\<close> for the time that is left; only an interrupted
  \<open>select\<close> starts another round.
\<close>

abbreviation now_of :: "reply \<Rightarrow> timeval" where
  "now_of r \<equiv> Timeval (out 0 r) (out 1 r)"

fun wait_select :: "int \<Rightarrow> int \<Rightarrow> call \<Rightarrow> bool" where
  "wait_select fd left (Call f [I nfds, I sec, I usec, I m]) =
     (f = ''select'' \<and> nfds = fd + 1 \<and> m = fd \<and> usecs (Timeval sec usec) = left \<and> 0 \<le> sec)"
| "wait_select fd left _ = False"

fun wait_rounds :: "int \<Rightarrow> timeval \<Rightarrow> int \<Rightarrow> event list \<Rightarrow> int \<Rightarrow> int \<Rightarrow> bool" where
  "wait_rounds fd deadline e0 [Sys c t] n e =
     (c = Call ''gettimeofday'' [] \<and> (normal_tv (now_of t) \<longrightarrow> usecs deadline \<le> usecs (now_of t)) \<and> n = -1 \<and> e = ETIME)"
| "wait_rounds fd deadline e0 (Sys c t # Sys c' r # es) n e =
     (let left = usecs deadline - usecs (now_of t); e1 = errno_after r (errno_after t e0) in
      c = Call ''gettimeofday'' [] \<and> wait_select fd left c' \<and> (normal_tv (now_of t) \<longrightarrow> 0 < left) \<and>
      (if retval r = -1 \<and> e1 = EINTR then wait_rounds fd deadline e1 es n e
       else es = [] \<and> (if retval r = 0 then n = -1 \<and> e = ETIME else if retval r = -1 then n = -1 \<and> e = e1 else n = 0)))"
| "wait_rounds fd deadline e0 _ n e = False"

lemma fds_only: "0 \<le> fd \<Longrightarrow> fd < FD_SETSIZE \<Longrightarrow> fds_set fd fds_zero = Some [fd]"
  by (simp add: fds_set_def fds_zero_def)

text \<open>One round: the time asked for in \<open>gettimeout\<close>, then the loop.\<close>

lemma wait_rounds_loop:
  assumes "0 \<le> fd" "fd < FD_SETSIZE" "normal_tv deadline"
  shows "bind (gettimeout deadline) (\<lambda>g. if fst g = -1 then ret (-1) else waitfd_loop fd deadline [fd] (snd g)) w = (Val n, v) \<Longrightarrow>
    \<exists>es. trace v = trace w @ es \<and> wait_rounds fd deadline (errno w) es n (errno v)"
proof (induction "length (script w)" arbitrary: w rule: less_induct)
  case less
  let ?round = "bind (gettimeout deadline) (\<lambda>g. if fst g = -1 then ret (-1) else waitfd_loop fd deadline [fd] (snd g))"
  obtain k tv u where g: "gettimeout deadline w = (Val (k, tv), u)"
    and rest: "(if k = -1 then ret (-1) u else waitfd_loop fd deadline [fd] tv u) = (Val n, v)"
    using less.prems by (auto simp: bind_apply split: prod.splits outcome.splits if_splits)
  obtain t where t: "trace u = trace w @ [Sys (Call ''gettimeofday'' []) t]" "usecs tv = usecs deadline - usecs (now_of t)"
    "normal_tv deadline \<longrightarrow> normal_tv (now_of t) \<longrightarrow> normal_tv tv" "k = (if tv_sec tv < 0 \<or> tv = Timeval 0 0 then -1 else 0)"
    "k = -1 \<longrightarrow> errno u = ETIME" "k \<noteq> -1 \<longrightarrow> errno u = errno_after t (errno w)"
    using gettimeout_cases[OF g] by (elim exE conjE) (rule that; assumption)
  have nt: "normal_tv tv \<Longrightarrow> usecs tv \<le> 0 \<longleftrightarrow> k = -1"
    using t(4) by (cases tv) (auto simp: usecs_def normal_tv_def)
  show ?case
  proof (cases "k = -1")
    case True
    with rest t nt assms(3) show ?thesis
      by (intro exI[of _ "[Sys (Call ''gettimeofday'' []) t]"]) (simp add: ret_apply)
  next
    case False
    then have w1: "waitfd_loop fd deadline [fd] tv u = (Val n, v)" using rest by simp
    let ?c = "Call ''select'' [I (fd + 1), I (tv_sec tv), I (tv_usec tv), I fd]"
    note unf = waitfd_loop.simps[of fd deadline "[fd]" tv u]
    obtain r rs where s: "script u = r # rs"
      using w1 by (cases "script u") (auto simp: unf select_read_def bind_apply syscall_Nil)
    let ?x = "answered ?c r u"
    have "\<not> tv_sec tv < 0" using t(4) False by (metis (full_types))
    then have sel: "wait_select fd (usecs deadline - usecs (now_of t)) ?c" "normal_tv (now_of t) \<longrightarrow> 0 < usecs deadline - usecs (now_of t)"
      using t(3) False nt assms(3) unfolding t(2)[symmetric] by (simp, force)
    show ?thesis
    proof (cases "retval r = -1 \<and> errno ?x = EINTR")
      case True
      have "?round ?x = (Val n, v)"
        using w1 True s
        by (auto simp: unf select_read_def bind_apply syscall_Cons Let_def fds_only assms(1,2) split: prod.splits outcome.splits if_splits)
      moreover have "length (script ?x) < length (script w)" using gettimeout_script_less[OF g] s by simp
      ultimately obtain es where "trace v = trace ?x @ es" "wait_rounds fd deadline (errno ?x) es n (errno v)"
        using less.hyps by blast
      with True t sel False show ?thesis
        by (intro exI[of _ "Sys (Call ''gettimeofday'' []) t # Sys ?c r # es"]) (simp add: Let_def)
    next
      case F: False
      with w1 s t sel False show ?thesis
        by (intro exI[of _ "[Sys (Call ''gettimeofday'' []) t, Sys ?c r]"])
          (auto simp: unf select_read_def bind_apply syscall_Cons ret_apply seq_apply set_errno_apply Let_def split: if_splits)
    qed
  qed
qed

section \<open>Properties\<close>

text \<open>C3: When \<open>copyfile\<close> returns, what it wrote to \<open>tofd\<close> is a prefix of what it read
  from \<open>fromfd\<close>, and it touched no other descriptor; if no call failed (but
  for interruptions) it is all of it, and the count returned is its length.\<close>

theorem copyfile_copies:
  assumes "copyfile fromfd tofd w = (Val n, v)" and "kernel_ok (trace v)"
  shows "\<exists>s p. prefix p s \<and> io_delta (only fromfd s) (only tofd p) w v \<and> n \<le> int (length p) \<and>
    (\<not> list_ex hard_error (trace v) \<longrightarrow> p = s \<and> n = int (length s))"
  using copyfile_loop_cases[OF assms(1)[unfolded copyfile_def] assms(2)] by auto

theorem copyfile_copies_witness:
  "let run = copyfile 3 4 (boot [Data ''abcd'', Ret 1, Ret 3, Err EINTR, Data ''e'', Ret 1, Data []])
   in fst run = Val 5 \<and> delivered 4 (trace (snd run)) = received 3 (trace (snd run))"
proof -
  let ?run = "copyfile 3 4 (boot [Data ''abcd'', Ret 1, Ret 3, Err EINTR, Data ''e'', Ret 1, Data []])"
  have x: "fst ?run = Val 5" and ok: "kernel_ok (trace (snd ?run))"
    and ne: "\<not> list_ex hard_error (trace (snd ?run))"
    by (simp_all add: copyfile_def copyfile_loop.simps readwrite_def r_read_def r_write_def
        restart_loop.simps r_write_loop.simps run_defs u64_def s64_def kernel_ok_def c_limits)
  from copyfile_copies[OF run_eq[OF x] ok] ne x show ?thesis
    by (auto simp: io_delta_def)
qed

text \<open>C4: \<open>readblock\<close> returns the size asked for with the buffer full, 0 with nothing
  read at end of file, or \<open>-1\<close> with an incomplete block; \<open>readline\<close> returns a positive
  count only with one complete line that fits the buffer with its terminating NUL. In both cases the buffer holds
  exactly the bytes taken from the descriptor, so that nothing is read past the block or the line.\<close>

theorem readblock_readline:
  assumes "kernel_ok (trace v)"
  shows "(readblock fd sz w = (Val (k, b), v) \<and> sz < 2 ^ 63 \<longrightarrow> io_delta (only fd b) nothing w v \<and>
      (k = int sz \<and> length b = sz \<or> k = 0 \<and> b = [] \<or> k = -1 \<and> length b < sz)) \<and>
    (readline fd nbytes w = (Val (k, b), v) \<longrightarrow> io_delta (only fd b) nothing w v \<and>
      (k = int (length b) \<and> k < nbytes \<and> is_line b \<or> k = 0 \<and> b = [] \<or> k = -1 \<and> CHR 0x0A \<notin> set b))"
proof (intro conjI[OF impI impI]; (elim conjE)?)
  assume "readblock fd sz w = (Val (k, b), v)" "sz < 2 ^ 63"
  then show "io_delta (only fd b) nothing w v \<and>
      (k = int sz \<and> length b = sz \<or> k = 0 \<and> b = [] \<or> k = -1 \<and> length b < sz)"
    using readblock_loop_cases[OF _ assms] unfolding readblock_def by fastforce
next
  assume "readline fd nbytes w = (Val (k, b), v)"
  from readline_loop_cases[OF this[unfolded readline_def] assms] show "io_delta (only fd b) nothing w v \<and>
      (k = int (length b) \<and> k < nbytes \<and> is_line b \<or> k = 0 \<and> b = [] \<or> k = -1 \<and> CHR 0x0A \<notin> set b)" by simp
qed

theorem readblock_readline_witness:
  "(let run = readblock 5 4 (boot [Data ''ab'', Err EINTR, Data ''cd''])
    in fst run = Val (4, ''abcd'') \<and> received 5 (trace (snd run)) = ''abcd'') \<and>
   (let run = readline 0 16 (boot [Data ''h'', Err EINTR, Data ''i'', Data [CHR 0x0A], Data ''x''])
    in fst run = Val (3, ''hi'' @ [CHR 0x0A]) \<and> is_line (''hi'' @ [CHR 0x0A]) \<and>
       received 0 (trace (snd run)) = ''hi'' @ [CHR 0x0A])"
proof -
  let ?b = "readblock 5 4 (boot [Data ''ab'', Err EINTR, Data ''cd''])"
  let ?l = "readline 0 16 (boot [Data ''h'', Err EINTR, Data ''i'', Data [CHR 0x0A], Data ''x''])"
  have b: "fst ?b = Val (4, ''abcd'')" "kernel_ok (trace (snd ?b))"
    by (simp_all add: readblock_def readblock_loop.simps run_defs u64_def s64_def kernel_ok_def)
  have l: "fst ?l = Val (3, ''hi'' @ [CHR 0x0A])" "kernel_ok (trace (snd ?l))"
    by (simp_all add: readline_def readline_loop.simps run_defs kernel_ok_def)
  from readblock_readline[OF b(2), THEN conjunct1, rule_format, OF conjI[OF run_eq[OF b(1)]]] have "received 5 (trace (snd ?b)) = ''abcd''"
    by (auto simp: io_delta_def)
  moreover from readblock_readline[OF l(2), THEN conjunct2, rule_format, OF run_eq[OF l(1)]] have "is_line (''hi'' @ [CHR 0x0A]) \<and>
      received 0 (trace (snd ?l)) = ''hi'' @ [CHR 0x0A]" by (auto simp: io_delta_def)
  ultimately show ?thesis using b(1) l(1) by (simp add: Let_def)
qed

text \<open>For normalised times, \<open>gettimeout\<close> succeeds exactly when the deadline is still
  ahead, and the timeout it computes is normalised and is the exact distance
  to the deadline; otherwise it fails with \<open>ETIME\<close>.\<close>

lemma gettimeout_remaining:
  assumes "gettimeout deadline w = (Val (k, t), v)" and "normal_tv deadline"
    and "trace v = trace w @ [Sys (Call ''gettimeofday'' []) (Outs 0 [sec, usec])]"
    and "normal_tv (Timeval sec usec)"
  shows "usecs t = usecs deadline - usecs (Timeval sec usec) \<and> normal_tv t \<and>
    (k = 0 \<longleftrightarrow> Timeval sec usec < deadline) \<and> (k \<noteq> 0 \<longrightarrow> k = -1 \<and> errno v = ETIME)"
proof -
  let ?now = "Timeval sec usec"
  obtain r where r: "trace v = trace w @ [Sys (Call ''gettimeofday'' []) r]"
    "usecs t = usecs deadline - usecs (Timeval (out 0 r) (out 1 r))"
    "normal_tv (Timeval (out 0 r) (out 1 r)) \<longrightarrow> normal_tv t"
    "k = (if tv_sec t < 0 \<or> t = Timeval 0 0 then -1 else 0)" "k = -1 \<longrightarrow> errno v = ETIME"
    using gettimeout_cases[OF assms(1)] assms(2) by blast
  from r(1) assms(3) have "r = Outs 0 [sec, usec]" by simp
  then have now: "Timeval (out 0 r) (out 1 r) = ?now" by (simp add: out_def)
  with r(3) assms(4) have nt: "normal_tv t" by simp
  then have "usecs t \<le> 0 \<longleftrightarrow> tv_sec t < 0 \<or> t = Timeval 0 0"
    by (cases t) (auto simp: usecs_def normal_tv_def)
  with r(2) now assms(2,4) have "(tv_sec t < 0 \<or> t = Timeval 0 0) \<longleftrightarrow> \<not> ?now < deadline"
    by (auto simp flip: usecs_less_iff)
  with r nt now show ?thesis by auto
qed

text \<open>C5: for a descriptor that an \<open>fd_set\<close> has room for and a normalised deadline,
  \<open>waitfdtimed\<close> goes in rounds. In each it asks for the time; if the deadline has passed it fails with
  \<open>ETIME\<close>, and otherwise it calls \<open>select\<close> on the set of just this descriptor, whatever an earlier call left
  there, with exactly the time that remains. Only an interruption starts another round: if the
  descriptor is ready it returns 0, a timeout gives \<open>ETIME\<close>, and another failure is passed on.
  For other descriptors it fails with \<open>EINVAL\<close> and makes no call.\<close>

theorem waitfdtimed_ready:
  assumes "waitfdtimed fd deadline w = (Val n, v)" and "normal_tv deadline"
  shows "\<exists>es. trace v = trace w @ es \<and>
    (if 0 \<le> fd \<and> fd < FD_SETSIZE then wait_rounds fd deadline (errno w) es n (errno v)
     else es = [] \<and> n = -1 \<and> errno v = EINVAL)"
proof (cases "0 \<le> fd \<and> fd < FD_SETSIZE")
  case True
  with assms wait_rounds_loop[of fd deadline w n v] show ?thesis
    by (simp add: waitfdtimed_def Let_def fds_only)
next
  case False
  with assms(1) show ?thesis by (auto simp: waitfdtimed_def seq_apply set_errno_apply ret_apply split: if_splits)
qed

theorem waitfdtimed_ready_witness:
  "let run = waitfdtimed 3 (Timeval 5 0) (boot [Outs 0 [1, 0], ErrOuts EINTR [7, 9], Outs 0 [2, 0], Outs 1 [3]])
   in fst run = Val 0 \<and> wait_rounds 3 (Timeval 5 0) 0 (trace (snd run)) 0 (errno (snd run))"
proof -
  let ?run = "waitfdtimed 3 (Timeval 5 0) (boot [Outs 0 [1, 0], ErrOuts EINTR [7, 9], Outs 0 [2, 0], Outs 1 [3]])"
  have x: "fst ?run = Val 0"
    by (simp add: waitfdtimed_def gettimeout_def waitfd_loop.simps select_read_def fds_set_def fds_zero_def run_defs Let_def c_limits)
  from waitfdtimed_ready[OF run_eq[OF x]] x show ?thesis by (auto simp: normal_tv_def Let_def)
qed

end
