(* ===== verification/Common.thy ===== *)
theory Common
  imports Restart
begin

text \<open>
  \<^verbatim>\<open>src/common.c\<close>, the code linked into every demo: the error reporter,
  subtraction of times, conversion to binary, the restarted sleep and the hex
  dump.
\<close>

section \<open>Definitions\<close>

subsection \<open>Error reports\<close>

text \<open>
  \<open>malloc\<close> returns NULL as 0. The message is formatted into 511 of the 512
  bytes; \<open>exit\<close> is called when \<open>fatal\<close> is not 0.
\<close>

definition handle_err :: "int \<Rightarrow> string \<Rightarrow> arg list \<Rightarrow> int prog" where
  "handle_err fatal fmt args =
     bind (icall (Call ''malloc'' [I 512])) (\<lambda>err_str.
       if err_str = 0 then ret (-1)
       else
         seq (eprintf ''%s'' [S (snprintf 511 fmt args)])
        (bind get_errno (\<lambda>e.
         seq (whenp (e \<noteq> 0) (perror ''perror says''))
        (seq (emit (Did ''free'' [I err_str]))
         (if fatal = 0 then ret 0 else exit_prog fatal)))))"

text \<open>\<open>debug\<close> is whether the macro \<open>DEBUG\<close> is defined.\<close>

definition Dprint :: "bool \<Rightarrow> string \<Rightarrow> arg list \<Rightarrow> unit prog" where
  "Dprint debug fmt args = (if debug then eprintf fmt args else skip)"


subsection \<open>Subtraction of times\<close>

text \<open>
  The two carries from \<open>*y\<close>; \<open>nsec\<close> is an \<open>int\<close>, the members of a time are
  \<open>long\<close>.
\<close>

definition tv_borrow :: "timeval \<Rightarrow> timeval \<Rightarrow> timeval option" where
  "tv_borrow x y =
     (if tv_usec x < tv_usec y then
        Option.bind (ck_long (tv_usec y - tv_usec x)) (\<lambda>d.
          let nsec = s32 (c_div d 1000000 + 1) in
          Option.bind (ck_int (1000000 * nsec)) (\<lambda>m.
          Option.bind (ck_long (tv_usec y - m)) (\<lambda>usec.
          Option.bind (ck_long (tv_sec y + nsec)) (\<lambda>sec. Some (Timeval sec usec)))))
      else Some y)"

definition tv_carry :: "timeval \<Rightarrow> timeval \<Rightarrow> timeval option" where
  "tv_carry x y =
     Option.bind (ck_long (tv_usec x - tv_usec y)) (\<lambda>d.
       if 1000000 < d then
         let nsec = s32 (c_div d 1000000) in
         Option.bind (ck_int (1000000 * nsec)) (\<lambda>m.
         Option.bind (ck_long (tv_usec y + m)) (\<lambda>usec.
         Option.bind (ck_long (tv_sec y - nsec)) (\<lambda>sec. Some (Timeval sec usec))))
       else Some y)"

text \<open>Returns the C return value, \<open>*result\<close>, and \<open>*y\<close>, which the code changes.\<close>

definition timeval_subtract :: "timeval \<Rightarrow> timeval \<Rightarrow> (int \<times> timeval \<times> timeval) option" where
  "timeval_subtract x y =
     Option.bind (tv_borrow x y) (\<lambda>y.
     Option.bind (tv_carry x y) (\<lambda>y.
     Option.bind (ck_long (tv_sec x - tv_sec y)) (\<lambda>sec.
     Option.bind (ck_long (tv_usec x - tv_usec y)) (\<lambda>usec.
       Some (if tv_sec x < tv_sec y then 1 else 0, Timeval sec usec, y)))))"


subsection \<open>Decimal to binary\<close>

text \<open>The do-while loop that fills \<open>temp\<close>, least significant digit first.\<close>

fun dec2bin_digits :: "nat \<Rightarrow> string" where
  "dec2bin_digits decimal =
     (let remain = decimal mod 2; decimal' = decimal div 2;
          d = char_of (remain + 48)
      in if 0 < decimal' then d # dec2bin_digits decimal' else [d])"

declare dec2bin_digits.simps [simp del]

text \<open>
  The reversing loop \<^verbatim>\<open>while (k >= 0) binary[n++] = temp[--k];\<close> runs once more
  than there are characters and reads \<open>temp[-1]\<close>; \<open>junk\<close> is the byte it finds
  there. \<open>temp_at temp junk k\<close> is \<open>temp[k]\<close>.
\<close>

definition temp_at :: "string \<Rightarrow> char \<Rightarrow> int \<Rightarrow> char" where
  "temp_at temp junk k = (if 0 \<le> k \<and> k < int (length temp) then temp ! nat k else junk)"

fun dec2bin_reverse :: "string \<Rightarrow> char \<Rightarrow> nat \<Rightarrow> string" where
  "dec2bin_reverse temp junk 0 = [temp_at temp junk (-1)]"
| "dec2bin_reverse temp junk (Suc k) = temp_at temp junk (int k) # dec2bin_reverse temp junk k"

text \<open>
  The array \<open>binary\<close> after the call; \<open>None\<close> where \<^verbatim>\<open>-decimal\<close> overflows, which is
  undefined.
\<close>

definition dec2bin :: "char \<Rightarrow> int \<Rightarrow> string option" where
  "dec2bin junk decimal =
     (if decimal = LONG_MIN then None
      else let neg_flag = decimal < 0;
               temp = dec2bin_digits (nat \<bar>decimal\<bar>) @ [if neg_flag then CHR ''-'' else CHR '' ''];
               binary = dec2bin_reverse temp junk (length temp)
           in Some (binary[length binary - 1 := NUL]))"


subsection \<open>Sleeping\<close>

text \<open>
  The remaining time \<open>rem\<close> comes back as the two members of the reply; the
  debug print is off.
\<close>

function r_sleep_loop :: "int \<Rightarrow> int \<Rightarrow> int prog" where
  "r_sleep_loop sec nsec w =
     bind (syscall (Call ''nanosleep'' [I sec, I nsec])) (\<lambda>r w.
       if retval r = -1 then
         if errno w \<noteq> EINTR then ret (-1) w
         else r_sleep_loop (out 0 r) (out 1 r) w
       else ret 0 w) w"
  by pat_completeness auto
termination
  by (relation "measure (\<lambda>(s, n, w). length (script w))") (auto dest: syscall_script_less)

declare r_sleep_loop.simps [simp del]

definition r_sleep :: "int \<Rightarrow> int \<Rightarrow> int prog" where
  "r_sleep sec nsec = r_sleep_loop sec nsec"


subsection \<open>Hex dump\<close>

definition ruler :: string where
  "ruler = ''        +0          +4          +8          +c            0   4   8   c   '' @ [LF]"

text \<open>The array \<open>buffer[128]\<close> as it is set up before the loop.\<close>

definition hex_buffer_init :: "char list option" where
  "hex_buffer_init =
     Option.bind (memset_in 0 NUL 128 (replicate 128 NUL)) (\<lambda>buffer.
     Option.bind (memset_in 0 (CHR '' '') (58 + 16) buffer) (\<lambda>buffer.
     Option.bind (put_in (58 + 16) [LF] buffer) (\<lambda>buffer.
     Option.bind (put_in (58 + 17) [NUL] buffer) (\<lambda>buffer.
       put_in 0 ''+0000'' buffer))))"

text \<open>
  The loop body for the byte \<open>d\<close> at position \<open>j\<close> of the line, with \<open>temp[16]\<close>. The array
  \<open>ascii\<close> starts at \<open>buffer + 58\<close>.
\<close>

definition hex_byte :: "char \<Rightarrow> nat \<Rightarrow> char list \<Rightarrow> char list option" where
  "hex_byte d j buffer =
     Option.bind (sprintf_in 16 ''%02x'' [I (int (code d))]) (\<lambda>temp.
     Option.bind (put_in (8 + j * 3) (take 2 temp) buffer) (\<lambda>buffer.
       put_in (58 + j) [if 31 < code d \<and> code d < 127 then d else CHR ''.''] buffer))"

text \<open>What the loop does at the start of a new line, at index \<open>i\<close>.\<close>

definition hex_newline :: "int \<Rightarrow> char list \<Rightarrow> char list option" where
  "hex_newline i buffer =
     Option.bind (memset_in 0 (CHR '' '') (58 + 16) buffer) (\<lambda>buffer.
     Option.bind (sprintf_in 16 ''+%04x'' [I i]) (\<lambda>temp.
       put_in 0 (take 5 temp) buffer))"

text \<open>\<^verbatim>\<open>printf("%s", buffer)\<close>.\<close>

definition hex_print :: "char list \<Rightarrow> unit prog" where
  "hex_print buffer = or_undef ''unterminated string'' (cstr_in buffer) (\<lambda>s. printf ''%s'' [S s])"

text \<open>
  The loop; \<open>ds\<close> is what is left of the readable bytes at \<open>data + i\<close>. Reading
  past them is undefined, as is writing outside of the arrays.
\<close>

fun hex_loop :: "string \<Rightarrow> int \<Rightarrow> int \<Rightarrow> nat \<Rightarrow> char list \<Rightarrow> unit prog" where
  "hex_loop [] sz i j buffer =
     (if i < sz then stop (Undef ''read past the end of data'')
      else if j \<noteq> 0 then hex_print buffer else skip)"
| "hex_loop (d # ds) sz i j buffer =
     (if i < sz then
        if j = 16 then
          seq (hex_print buffer)
            (or_undef ''write outside of an array'' (hex_newline i buffer) (\<lambda>buffer.
             or_undef ''write outside of an array'' (hex_byte d 0 buffer) (\<lambda>buffer.
               hex_loop ds sz (i + 1) 1 buffer)))
        else
          or_undef ''write outside of an array'' (hex_byte d j buffer) (\<lambda>buffer.
            hex_loop ds sz (i + 1) (j + 1) buffer)
      else if j \<noteq> 0 then hex_print buffer else skip)"

definition hex_dump :: "string \<Rightarrow> int \<Rightarrow> string option \<Rightarrow> bool \<Rightarrow> int \<Rightarrow> unit prog" where
  "hex_dump data sz caption verbose addr =
     seq (case caption of
            Some c \<Rightarrow> whenp verbose
              (printf (''---------> %s <--------- (%d bytes from %p)'' @ [LF]) [S c, I sz, I addr])
          | None \<Rightarrow> skip)
    (seq (printf ruler [])
         (or_undef ''write outside of an array'' hex_buffer_init (\<lambda>buffer. hex_loop data sz 0 0 buffer)))"


section \<open>Subtraction of times\<close>

lemma tv_borrow_usecs: "tv_borrow x y = Some y' \<Longrightarrow> usecs y' = usecs y"
  by (auto simp: tv_borrow_def Let_def usecs_def bind_eq_Some_conv split: if_splits)

lemma tv_carry_usecs: "tv_carry x y = Some y' \<Longrightarrow> usecs y' = usecs y"
  by (auto simp: tv_carry_def Let_def usecs_def bind_eq_Some_conv split: if_splits)

lemma tv_borrow_normal:
  assumes "normal_tv x" "normal_tv y" "LONG_MIN \<le> tv_sec y" "tv_sec y < LONG_MAX"
  shows "tv_borrow x y = Some (if tv_usec x < tv_usec y
    then Timeval (tv_sec y + 1) (tv_usec y - 1000000) else y)"
proof (cases "tv_usec x < tv_usec y")
  case True
  then have "c_div (tv_usec y - tv_usec x) 1000000 = 0"
    using assms by (simp add: normal_tv_def c_div_nonneg)
  with True assms show ?thesis
    by (simp add: tv_borrow_def normal_tv_def ck_long_def ck_int_def c_limits s32_id)
qed (simp add: tv_borrow_def)

lemma tv_carry_normal:
  assumes "0 \<le> tv_usec x - tv_usec y" "tv_usec x - tv_usec y < 1000000"
  shows "tv_carry x y = Some y"
  using assms by (simp add: tv_carry_def ck_long_def c_limits)

lemma timeval_subtract_normal:
  assumes "normal_tv x" "normal_tv y" "0 \<le> tv_sec x" "0 \<le> tv_sec y"
    "tv_sec x < LONG_MAX" "tv_sec y < LONG_MAX"
  shows "\<exists>d y'. timeval_subtract x y = Some (if x < y then 1 else 0, d, y') \<and> normal_tv d"
proof -
  let ?y = "if tv_usec x < tv_usec y then Timeval (tv_sec y + 1) (tv_usec y - 1000000) else y"
  have b: "tv_borrow x y = Some ?y" using assms by (intro tv_borrow_normal) (auto simp: c_limits)
  have c: "tv_carry x ?y = Some ?y"
    using assms(1,2) by (intro tv_carry_normal) (auto simp: normal_tv_def)
  show ?thesis using assms
    by (auto simp: timeval_subtract_def b c ck_long_def c_limits normal_tv_def less_timeval_def
        less_eq_timeval_def usecs_def)
qed

text \<open>
  C9: whenever no arithmetic overflows, \<open>timeval_subtract\<close> computes the difference of two
  times exactly, and what it stores back in \<open>*y\<close> denotes the same time as
  before. For times that are not negative and whose microseconds are in range
  nothing overflows, the microseconds of the difference are in range, and the
  return value is 1 exactly when \<open>x\<close> is before \<open>y\<close>.
\<close>

theorem timeval_subtract_correct:
  "(\<forall>neg d y'. timeval_subtract x y = Some (neg, d, y') \<longrightarrow>
      usecs d = usecs x - usecs y \<and> usecs y' = usecs y) \<and>
   (normal_tv x \<and> normal_tv y \<and> 0 \<le> tv_sec x \<and> 0 \<le> tv_sec y \<and>
      tv_sec x < LONG_MAX \<and> tv_sec y < LONG_MAX \<longrightarrow>
    (\<exists>d y'. timeval_subtract x y = Some (if x < y then 1 else 0, d, y') \<and> normal_tv d))"
proof (intro conjI allI impI)
  fix neg d y' assume "timeval_subtract x y = Some (neg, d, y')"
  then obtain y1 where "tv_borrow x y = Some y1" "tv_carry x y1 = Some y'"
    "d = Timeval (tv_sec x - tv_sec y') (tv_usec x - tv_usec y')"
    by (auto simp: timeval_subtract_def bind_eq_Some_conv)
  then show "usecs d = usecs x - usecs y" "usecs y' = usecs y"
    using tv_borrow_usecs tv_carry_usecs by (auto simp: usecs_def[of "Timeval _ _"] usecs_def algebra_simps) 
qed (use timeval_subtract_normal in auto)

theorem timeval_subtract_correct_witness:
  "\<exists>d y'. timeval_subtract (Timeval 5 100) (Timeval 3 900) = Some (0, d, y') \<and>
     usecs d = 1999200 \<and> normal_tv d"
proof -
  have "normal_tv (Timeval 5 100)" "normal_tv (Timeval 3 900)" "\<not> Timeval 5 100 < Timeval 3 900"
    by (simp_all add: normal_tv_def less_timeval_def less_eq_timeval_def usecs_def)
  with timeval_subtract_correct[of "Timeval 5 100" "Timeval 3 900"] show ?thesis
    by (auto simp: c_limits usecs_def[of "Timeval 5 100"] usecs_def[of "Timeval 3 900"])
qed


section \<open>Decimal to binary\<close>

text \<open>The value of a binary numeral, least significant digit first.\<close>

fun bin_val :: "string \<Rightarrow> nat" where
  "bin_val [] = 0"
| "bin_val (c # cs) = (if c = CHR ''1'' then 1 else 0) + 2 * bin_val cs"

lemma dec2bin_digits_unfold:
  "dec2bin_digits n = (if odd n then CHR ''1'' else CHR ''0'') #
     (if n div 2 = 0 then [] else dec2bin_digits (n div 2))"
proof -
  have "char_of (n mod 2 + 48) = (if odd n then CHR ''1'' else CHR ''0'')"
    by (cases "odd n") (simp_all add: bit_chars odd_iff_mod_2_eq_one)
  then show ?thesis by (subst dec2bin_digits.simps) (simp only: Let_def neq0_conv[symmetric], simp)
qed

lemma dec2bin_digits_val: "bin_val (dec2bin_digits n) = n"
proof (induction n rule: dec2bin_digits.induct)
  case (1 n)
  have "(if odd n then 1 else 0) + 2 * (n div 2) = n" by auto
  with 1 show ?case by (subst dec2bin_digits_unfold) auto
qed

lemma dec2bin_digits_set: "set (dec2bin_digits n) \<subseteq> {CHR ''0'', CHR ''1''}"
proof (induction n rule: dec2bin_digits.induct)
  case (1 n)
  then show ?case by (subst dec2bin_digits_unfold) auto
qed

lemma dec2bin_digits_length: "n < 2 ^ k \<Longrightarrow> 0 < k \<Longrightarrow> length (dec2bin_digits n) \<le> k"
proof (induction n arbitrary: k rule: dec2bin_digits.induct)
  case (1 n)
  show ?case
  proof (cases "0 < n div 2")
    case True
    with 1(2,3) obtain k' where k: "k = Suc k'" "0 < k'"
      by (cases k; cases "k - 1") auto
    with 1(2) have "n div 2 < 2 ^ k'" by (auto simp: less_mult_imp_div_less)
    from 1(1)[OF refl refl refl True this k(2)] k(1) True show ?thesis
      by (subst dec2bin_digits_unfold) simp
  qed (use 1(3) in \<open>subst dec2bin_digits_unfold, simp\<close>)
qed

lemma dec2bin_digits_last: "0 < n \<Longrightarrow> last (dec2bin_digits n) = CHR ''1''"
proof (induction n rule: dec2bin_digits.induct)
  case (1 n)
  show ?case
  proof (cases "0 < n div 2")
    case True
    from 1(1)[OF refl refl refl True True] show ?thesis using True
      by (subst dec2bin_digits_unfold) (auto simp: dec2bin_digits_unfold[of "n div 2"])
  next
    case False
    with 1(2) have "n = 1" by auto
    then show ?thesis by (subst dec2bin_digits_unfold) simp
  qed
qed

lemma dec2bin_reverse_eq:
  "k \<le> length temp \<Longrightarrow> dec2bin_reverse temp junk k = rev (take k temp) @ [junk]"
  by (induction k) (auto simp: temp_at_def take_Suc_conv_app_nth)

text \<open>
  C8: for every \<open>long\<close> but the least, \<open>dec2bin\<close> leaves a sign character, the binary
  digits of the absolute value, most significant first and without leading
  zeros, and a terminating NUL; there are at most 63 digits, so an array of 65
  characters holds the result. The byte read at \<open>temp[-1]\<close> does not show.
\<close>

theorem dec2bin_correct:
  assumes "LONG_MIN < d" and "d \<le> LONG_MAX"
  shows "\<exists>ds. dec2bin junk d = Some ((if d < 0 then CHR ''-'' else CHR '' '') # ds @ [NUL]) \<and>
    int (bin_val (rev ds)) = \<bar>d\<bar> \<and> set ds \<subseteq> {CHR ''0'', CHR ''1''} \<and>
    0 < length ds \<and> length ds \<le> 63 \<and> (d \<noteq> 0 \<longrightarrow> hd ds = CHR ''1'')"
proof (intro exI[of _ "rev (dec2bin_digits (nat \<bar>d\<bar>))"] conjI)
  let ?ds = "dec2bin_digits (nat \<bar>d\<bar>)"
  have ne: "?ds \<noteq> []" by (subst dec2bin_digits.simps) (simp add: Let_def)
  from assms show "dec2bin junk d = Some ((if d < 0 then CHR ''-'' else CHR '' '') # rev ?ds @ [NUL])"
    by (simp add: dec2bin_def Let_def dec2bin_reverse_eq list_update_append)
  show "int (bin_val (rev (rev ?ds))) = \<bar>d\<bar>" by (simp add: dec2bin_digits_val)
  show "set (rev ?ds) \<subseteq> {CHR ''0'', CHR ''1''}" using dec2bin_digits_set by simp
  show "0 < length (rev ?ds)" using ne by simp
  have "nat \<bar>d\<bar> < 2 ^ 63" using assms by (auto simp: c_limits)
  then show "length (rev ?ds) \<le> 63" using dec2bin_digits_length[of "nat \<bar>d\<bar>" 63] by simp
  show "d \<noteq> 0 \<longrightarrow> hd (rev ?ds) = CHR ''1''" using dec2bin_digits_last[of "nat \<bar>d\<bar>"] ne
    by (simp add: hd_rev)
qed

theorem dec2bin_correct_witness:
  "\<exists>ds. dec2bin (CHR ''?'') (-6) = Some (CHR ''-'' # ds @ [NUL]) \<and> bin_val (rev ds) = 6"
  using dec2bin_correct[of "-6" "CHR ''?''"] by (auto simp: c_limits)


section \<open>Hex dump\<close>

text \<open>
  What a dump looks like, written from the outside: a line is its label, the
  bytes in hexadecimal, and the bytes as characters where they are printable,
  each part padded with blanks.
\<close>

definition hex2 :: "char \<Rightarrow> string" where
  "hex2 d = take 2 (cformat ''%02x'' [I (int (code d))])"

definition hex_label :: "int \<Rightarrow> string" where
  "hex_label i = take 5 (cformat ''+%04x'' [I i])"

definition hex_printable :: "char \<Rightarrow> char" where
  "hex_printable d = (if 31 < code d \<and> code d < 127 then d else CHR ''.'')"

definition hex_line :: "string \<Rightarrow> string \<Rightarrow> string" where
  "hex_line label c =
     label @ replicate (8 - length label) (CHR '' '') @ concat (map (\<lambda>d. hex2 d @ '' '') c) @
     replicate (50 - 3 * length c) (CHR '' '') @ map hex_printable c @
     replicate (16 - length c) (CHR '' '') @ [LF]"

function lines_with :: "(int \<Rightarrow> string) \<Rightarrow> int \<Rightarrow> string \<Rightarrow> string list" where
  "lines_with lab i ds = (if ds = [] then []
     else hex_line (lab i) (take 16 ds) # lines_with lab (i + 16) (drop 16 ds))"
  by pat_completeness auto
termination by (relation "measure (\<lambda>(l, i, ds). length ds)") auto

declare lines_with.simps [simp del]

abbreviation dump_lines :: "int \<Rightarrow> string \<Rightarrow> string list" where
  "dump_lines \<equiv> lines_with hex_label"

lemma length_hex2 [simp]: "length (hex2 d) = 2"
  by (simp add: hex2_def cformat_02x pad_simps)

lemma length_hex_label [simp]: "length (hex_label i) = 5"
  by (simp add: hex_label_def cformat_04x pad_simps)

lemma hex2_not_NUL: "NUL \<notin> set (hex2 d)"
  using set_take_subset[of 2 "cformat ''%02x'' [I (int (code d))]"] show_base_16_not_NUL
    pad_simps(2)[of True 2] unfolding hex2_def cformat_02x by fastforce

lemma hex_label_not_NUL: "NUL \<notin> set (hex_label i)"
  using set_take_subset[of 5 "cformat ''+%04x'' [I i]"] show_base_16_not_NUL
    pad_simps(2)[of True 4] unfolding hex_label_def cformat_04x by fastforce

lemma hex_printable_not_NUL: "hex_printable d \<noteq> NUL"
  by (auto simp: hex_printable_def)

lemma hex_line_not_NUL: "NUL \<notin> set label \<Longrightarrow> NUL \<notin> set (hex_line label c)"
  using hex2_not_NUL hex_printable_not_NUL by (auto simp: hex_line_def) metis

lemma length_hexs [simp]: "length (concat (map (\<lambda>d. hex2 d @ '' '') c)) = 3 * length c"
  by (induction c) auto

lemma length_hex_line: "length label \<le> 8 \<Longrightarrow> length c \<le> 16 \<Longrightarrow> length (hex_line label c) = 75"
  by (simp add: hex_line_def)

lemma hex_line_byte:
  assumes "length label \<le> 8" and "length c < 16"
  shows "hex_byte d (length c) (hex_line label c @ r) = Some (hex_line label (c @ [d]) @ r)"
proof -
  let ?h = "\<lambda>c. concat (map (\<lambda>d. hex2 d @ '' '') c)" and ?sp = "\<lambda>n. replicate n (CHR '' '')"
  let ?j = "length c"
  have sp: "?sp (50 - 3 * ?j) = ?sp 2 @ '' '' @ ?sp (50 - 3 * (?j + 1))"
    "?sp (16 - ?j) = '' '' @ ?sp (16 - (?j + 1))"
    using assms(2) by (simp_all flip: replicate_Suc replicate_add add: numeral_2_eq_2 Suc_diff_Suc)
  let ?a = "label @ ?sp (8 - length label) @ ?h c"
  have "put (8 + ?j * 3) (hex2 d) (hex_line label c @ r) =
      ?a @ hex2 d @ '' '' @ ?sp (50 - 3 * (?j + 1)) @ map hex_printable c @ ?sp (16 - ?j) @ [LF] @ r"
    using put_middle[of ?a "8 + ?j * 3" "?sp 2" "hex2 d"] assms(1)
    by (simp add: hex_line_def sp(1))
  moreover have "put (58 + ?j) [hex_printable d]
      (?a @ hex2 d @ '' '' @ ?sp (50 - 3 * (?j + 1)) @ map hex_printable c @ ?sp (16 - ?j) @ [LF] @ r)
    = hex_line label (c @ [d]) @ r"
    using put_middle[of "?a @ hex2 d @ '' '' @ ?sp (50 - 3 * (?j + 1)) @ map hex_printable c" "58 + ?j"
        "'' ''" "[hex_printable d]"] assms
    by (simp add: hex_line_def sp(2))
  moreover have "length (cformat ''%02x'' [I (int (code d))]) < 16"
    using length_show_base_16[of "int (code d)"] by (simp add: cformat_02x pad_simps del: power_numeral)
  ultimately show ?thesis using assms length_hex_line[of label c]
    by (simp add: hex_byte_def sprintf_in_def put_in_def hex_printable_def flip: hex2_def)
qed

lemma hex_line_Nil: "length label \<le> 8 \<Longrightarrow> hex_line label [] = label @ replicate (74 - length label) (CHR '' '') @ [LF]"
  by (simp add: hex_line_def flip: replicate_add append_assoc)

text \<open>Clearing the line and putting a label at its start.\<close>

lemma hex_line_relabel:
  assumes "length label \<le> 8" and "length c \<le> 16" and "length new \<le> 8"
  shows "Option.bind (memset_in 0 (CHR '' '') (58 + 16) (hex_line label c @ r)) (put_in 0 new) = Some (hex_line new [] @ r)"
proof -
  have "memset_at 0 (CHR '' '') (58 + 16) (hex_line label c @ r) = replicate 74 (CHR '' '') @ [LF] @ r"
    using assms length_hex_line[OF assms(1,2)] by (simp add: memset_at_def put_def hex_line_def)
  moreover have "replicate 74 (CHR '' '') = replicate (length new) (CHR '' '') @ replicate (74 - length new) (CHR '' '')"
    using assms(3) by (simp flip: replicate_add)
  ultimately show ?thesis
    using put_middle[of "[]" 0 "replicate (length new) (CHR '' '')" new "replicate (74 - length new) (CHR '' '') @ [LF] @ r"] assms(3)
    using length_hex_line[OF assms(1,2)] by (simp add: hex_line_Nil memset_in_def put_in_def)
qed

lemma hex_line_newline:
  assumes "length label \<le> 8" and "length c \<le> 16"
  shows "hex_newline i (hex_line label c @ r) = Some (hex_line (hex_label i) [] @ r)"
proof -
  have "sprintf_in 16 ''+%04x'' [I i] = Some (cformat ''+%04x'' [I i])"
    using length_show_base_16[of i] by (simp add: sprintf_in_def Let_def cformat_04x pad_simps del: power_numeral)
  then show ?thesis using hex_line_relabel[OF assms, of "hex_label i" r]
    by (simp add: hex_newline_def hex_label_def)
qed

lemma hex_print_line: "NUL \<notin> set label \<Longrightarrow> hex_print (hex_line label c @ NUL # r) = printf ''%s'' [S (hex_line label c)]"
  by (simp add: hex_print_def cstr_in_def cstr_append_NUL hex_line_not_NUL)


abbreviation out_lines :: "string list \<Rightarrow> event list" where
  "out_lines ls \<equiv> map (\<lambda>l. Out 1 ''%s'' [S l]) ls"

text \<open>
  A loop that dumps bytes line by line, whatever it labels the lines with. \<open>fits i\<close> is
  what the label of the line at \<open>i\<close> needs.
\<close>

locale line_dumper =
  fixes newline :: "int \<Rightarrow> char list \<Rightarrow> char list option" and lab :: "int \<Rightarrow> string" and fits :: "int \<Rightarrow> bool"
    and loop :: "string \<Rightarrow> int \<Rightarrow> int \<Rightarrow> nat \<Rightarrow> char list \<Rightarrow> unit prog"
  assumes loop_end: "sz \<le> i \<Longrightarrow> loop ds sz i j buffer = (if j \<noteq> 0 then hex_print buffer else skip)"
    and loop_step: "i < sz \<Longrightarrow> fits i \<Longrightarrow> loop (d # ds) sz i j buffer =
      (if j = 16 then seq (hex_print buffer)
         (or_undef ''write outside of an array'' (newline i buffer) (\<lambda>buffer.
          or_undef ''write outside of an array'' (hex_byte d 0 buffer) (loop ds sz (i + 1) 1)))
       else or_undef ''write outside of an array'' (hex_byte d j buffer) (loop ds sz (i + 1) (j + 1)))"
    and lab_ok: "length (lab i) \<le> 8" "NUL \<notin> set (lab i)"
    and newline_line: "length label \<le> 8 \<Longrightarrow> length c \<le> 16 \<Longrightarrow> newline i (hex_line label c @ r) = Some (hex_line (lab i) [] @ r)"
begin

lemma loop_lines:
  assumes "length label \<le> 8" "NUL \<notin> set label" "length c \<le> 16" "sz = i + int n" "n \<le> length ds"
    "\<forall>k. i \<le> k \<and> k < sz \<longrightarrow> fits k"
  shows "loop ds sz i (length c) (hex_line label c @ NUL # r) w =
    (Val (), w\<lparr>trace := trace w @ out_lines
       (if c = [] \<and> n = 0 then []
        else hex_line label (c @ take (16 - length c) (take n ds)) #
             lines_with lab (i + 16 - int (length c)) (drop (16 - length c) (take n ds)))\<rparr>)"
  using assms
proof (induction n arbitrary: label c i w ds)
  case 0
  then show ?case by (simp add: loop_end hex_print_line prog_simps lines_with.simps)
next
  case (Suc n)
  from Suc.prems(5) obtain d ds' where ds: "ds = d # ds'" "n \<le> length ds'" by (cases ds) auto
  note line = hex_print_line[OF Suc.prems(2)]
  have i: "sz = (i + 1) + int n" "i < sz" "fits i" "\<forall>k. i + 1 \<le> k \<and> k < sz \<longrightarrow> fits k" using Suc.prems(4,6) by auto
  show ?case
  proof (cases "length c = 16")
    case True
    note nl = newline_line[OF Suc.prems(1,3)]
    have first: "hex_byte d 0 (hex_line (lab i) [] @ NUL # r) = Some (hex_line (lab i) [d] @ NUL # r)"
      using hex_line_byte[of "lab i" "[]" d "NUL # r"] lab_ok by simp
    show ?thesis
      using Suc.IH[of "lab i" "[d]" "i + 1" ds' "w\<lparr>trace := trace w @ out_lines [hex_line label c]\<rparr>"] i True ds lab_ok
      by (auto simp: loop_step prog_simps nl first line lines_with.simps[of lab i "d # take n ds'"]
          take_Cons' drop_Cons' add.commute)
  next
    case False
    then have lt: "length c < 16" using Suc.prems(3) by simp
    note step = hex_line_byte[OF Suc.prems(1) lt]
    have k: "16 - length c = Suc (16 - length (c @ [d]))" using lt by simp
    show ?thesis
      using Suc.IH[of label "c @ [d]" "i + 1" ds'] Suc.prems i lt ds
      by (simp add: loop_step step k False algebra_simps)
  qed
qed

text \<open>A dump that starts with an empty line.\<close>

lemma dump:
  assumes "sz = int n" "n \<le> length ds" "\<forall>k. 0 \<le> k \<and> k < sz \<longrightarrow> fits k"
  shows "loop ds sz 0 0 (hex_line (lab 0) [] @ NUL # r) w =
    (Val (), w\<lparr>trace := trace w @ out_lines (lines_with lab 0 (take n ds))\<rparr>)"
  using loop_lines[of "lab 0" "[]" sz 0 n ds r w] assms lab_ok
  by (cases "ds = []") (simp_all add: lines_with.simps[of lab 0])

end

interpretation cdump: line_dumper hex_newline hex_label "\<lambda>_. True" hex_loop
proof
  fix sz i :: int and ds buffer j
  assume "sz \<le> i"
  then show "hex_loop ds sz i j buffer = (if j \<noteq> 0 then hex_print buffer else skip)" by (cases ds) auto
qed (auto simp: hex_label_not_NUL hex_line_newline)

lemma hex_buffer_init_line: "hex_buffer_init = Some (hex_line ''+0000'' [] @ NUL # replicate 52 NUL)"
  by (simp add: hex_buffer_init_def put_in_def memset_in_def put_def memset_at_def hex_line_def numeral_eq_Suc)

lemma hex_dump_run:
  "hex_dump data (int (length data)) caption verbose addr w =
     (Val (), w\<lparr>trace := trace w @
        (case caption of
           Some c \<Rightarrow> if verbose then [Out 1 (''---------> %s <--------- (%d bytes from %p)'' @ [LF])
                                      [S c, I (int (length data)), I addr]] else []
         | None \<Rightarrow> []) @ [Out 1 ruler []] @ out_lines (dump_lines 0 data)\<rparr>)"
proof -
  have label: "hex_label 0 = ''+0000''"
    by code_simp
  show ?thesis
    using cdump.dump[of "int (length data)" "length data" data "replicate 52 NUL"]
    by (auto simp: hex_dump_def prog_simps hex_buffer_init_line label split: option.splits)
qed

subsection \<open>Reading a dump back\<close>

definition hex_val :: "char \<Rightarrow> nat" where
  "hex_val c = (if code c < 58 then code c - 48 else code c - 87)"

definition undump_line :: "nat \<Rightarrow> string \<Rightarrow> string" where
  "undump_line n l = map (\<lambda>j. char_of (16 * hex_val (l ! (8 + 3 * j)) + hex_val (l ! (9 + 3 * j)))) [0..<n]"

fun undump :: "nat \<Rightarrow> string list \<Rightarrow> string" where
  "undump n [] = []"
| "undump n (l # ls) = undump_line (min n 16) l @ undump (n - 16) ls"

lemma hex_val_digit [simp]: "d < 16 \<Longrightarrow> hex_val (digit_char d) = d"
  by (simp add: hex_val_def code_digit_char)

lemma hex2_eq: "hex2 d = [digit_char (code d div 16), digit_char (code d mod 16)]"
proof -
  have m: "nat (int (code d) mod 2 ^ 32) = code d" using code_less[of d] by simp
  have "pad True 2 (show_base 16 (code d)) = [digit_char (code d div 16), digit_char (code d mod 16)]"
  proof (cases "code d < 16")
    case True
    have z: "digit_char 0 = CHR ''0''" by code_simp
    from True show ?thesis by (simp add: show_base.simps pad_def z digit_char_neq(2))
  next
    case False
    then show ?thesis using code_less[of d]
      by (simp add: show_base.simps[of 16 "code d"] show_base.simps[of 16 "code d div 16"] pad_def)
  qed
  then show ?thesis unfolding hex2_def cformat_02x m by simp
qed

lemma hexs_nth:
  "j < length c \<Longrightarrow> concat (map (\<lambda>d. hex2 d @ '' '') c) ! (3 * j) = hex2 (c ! j) ! 0 \<and>
     concat (map (\<lambda>d. hex2 d @ '' '') c) ! (3 * j + 1) = hex2 (c ! j) ! 1"
proof (induction c arbitrary: j)
  case (Cons d c)
  then show ?case by (cases j) (simp_all add: hex2_eq)
qed simp

lemma undump_line_hex_line:
  assumes "length label \<le> 8"
  shows "undump_line (length c) (hex_line label c) = c"
proof (rule nth_equalityI)
  fix j assume "j < length (undump_line (length c) (hex_line label c))"
  then have j: "j < length c" by (simp add: undump_line_def)
  have at: "hex_line label c ! (8 + k) = concat (map (\<lambda>d. hex2 d @ '' '') c) ! k" if "k < 3 * length c" for k
  proof -
    let ?p = "label @ replicate (8 - length label) (CHR '' '')" and ?h = "concat (map (\<lambda>d. hex2 d @ '' '') c)"
    obtain rest where "hex_line label c = ?p @ ?h @ rest" by (simp add: hex_line_def)
    moreover have "length ?p = 8" using assms by simp
    ultimately show ?thesis using that nth_append_length_plus[of ?p "?h @ rest" k] by (simp add: nth_append)
  qed
  have "hex_line label c ! (8 + 3 * j) = hex2 (c ! j) ! 0" "hex_line label c ! (9 + 3 * j) = hex2 (c ! j) ! 1"
    using at[of "3 * j"] at[of "3 * j + 1"] hexs_nth[OF j] j by (simp_all add: add.commute add.left_commute)
  then show "undump_line (length c) (hex_line label c) ! j = c ! j"
    using j code_less[of "c ! j"] by (simp add: undump_line_def hex2_eq)
qed (simp add: undump_line_def)

lemma undump_lines: "(\<And>i. length (lab i) \<le> 8) \<Longrightarrow> undump (length ds) (lines_with lab i ds) = ds"
proof (induction lab i ds rule: lines_with.induct)
  case (1 lab i ds)
  then show ?case
    using undump_line_hex_line[of "lab i" "take 16 ds"]
    by (subst lines_with.simps) (auto simp: min.commute)
qed

lemma undump_dump_lines: "undump (length ds) (dump_lines i ds) = ds"
  by (rule undump_lines) simp

text \<open>
  C6: \<open>hex_dump\<close> of a whole object prints the caption when asked to, the ruler, and
  then exactly the lines of the dump, sixteen bytes a line; it never leaves the
  line buffer and never reads past the data. The dump loses nothing: from its lines and the number of bytes,
  the bytes can be read back.
\<close>

theorem hex_dump_roundtrip:
  "hex_dump data (int (length data)) caption verbose addr w =
     (Val (), w\<lparr>trace := trace w @
        (case caption of
           Some c \<Rightarrow> if verbose then [Out 1 (''---------> %s <--------- (%d bytes from %p)'' @ [LF])
                                      [S c, I (int (length data)), I addr]] else []
         | None \<Rightarrow> []) @ [Out 1 ruler []] @ out_lines (dump_lines 0 data)\<rparr>) \<and>
   undump (length data) (dump_lines 0 data) = data"
  using hex_dump_run undump_dump_lines by blast


section \<open>Sleeping\<close>

definition nsecs :: "int \<Rightarrow> int \<Rightarrow> int" where
  "nsecs sec nsec = 1000000000 * sec + nsec"

text \<open>The time a sleep took: what was asked for, less what the kernel reports as remaining.\<close>

definition slept :: "call \<Rightarrow> reply \<Rightarrow> int" where
  "slept c r = (case c of
     Call f [I sec, I nsec] \<Rightarrow>
       nsecs sec nsec - (if retval r = -1 then nsecs (out 0 r) (out 1 r) else 0)
   | _ \<Rightarrow> 0)"

fun time_slept :: "event list \<Rightarrow> int" where
  "time_slept [] = 0"
| "time_slept (Sys c r # es) = slept c r + time_slept es"
| "time_slept (_ # es) = time_slept es"

lemma r_sleep_loop_time:
  "r_sleep_loop sec nsec w = (Val x, v) \<Longrightarrow>
   \<exists>es. trace v = trace w @ es \<and> (x = 0 \<and> time_slept es = nsecs sec nsec \<or> x = -1 \<and> errno v \<noteq> EINTR)"
proof (induction "script w" arbitrary: sec nsec w)
  case Nil
  then show ?case
    by (subst (asm) r_sleep_loop.simps) (simp add: prog_simps flip: Nil.hyps)
next
  case (Cons r rs)
  note s = Cons.hyps(2)[symmetric]
  let ?c = "Call ''nanosleep'' [I sec, I nsec]"
  let ?u = "answered ?c r w"
  have su: "rs = script ?u" by (simp add: s)
  show ?case
  proof (cases "retval r = -1 \<and> errno ?u = EINTR")
    case True
    then have "r_sleep_loop (out 0 r) (out 1 r) ?u = (Val x, v)"
      using Cons.prems by (subst (asm) r_sleep_loop.simps) (simp add: prog_simps s)
    from Cons.hyps(1)[OF su this] obtain es where es: "trace v = trace ?u @ es"
      "x = 0 \<and> time_slept es = nsecs (out 0 r) (out 1 r) \<or> x = -1 \<and> errno v \<noteq> EINTR" by blast
    with True show ?thesis by (intro exI[of _ "Sys ?c r # es"]) (auto simp: slept_def)
  next
    case False
    then show ?thesis using Cons.prems
      by (subst (asm) r_sleep_loop.simps)
        (auto simp: prog_simps s slept_def split: if_splits intro!: exI[of _ "[Sys ?c r]"])
  qed
qed

text \<open>
  C7: interrupts do not shorten \<open>r_sleep\<close>: when it returns 0, the sleeps it made,
  each counted as what it asked for less what the kernel reported as remaining,
  add up to exactly the time requested; otherwise it returns -1 for an error
  that is not an interrupt.
\<close>

theorem r_sleep_total_time:
  assumes "r_sleep sec nsec w = (Val x, v)"
  shows "\<exists>es. trace v = trace w @ es \<and>
    (x = 0 \<and> time_slept es = nsecs sec nsec \<or> x = -1 \<and> errno v \<noteq> EINTR)"
  using assms unfolding r_sleep_def by (rule r_sleep_loop_time)

theorem r_sleep_total_time_witness:
  "\<exists>es. trace (snd (r_sleep 3 0 (boot [ErrOuts EINTR [1, 500], Ret 0]))) = es \<and>
     time_slept es = 3000000000"
proof -
  let ?run = "r_sleep 3 0 (boot [ErrOuts EINTR [1, 500], Ret 0])"
  have "fst ?run = Val 0" by (simp add: r_sleep_def r_sleep_loop.simps run_defs out_def)
  from r_sleep_total_time[OF run_eq[OF this]] show ?thesis by (auto simp: nsecs_def)
qed

end
