(* ===== verification/Mysh.thy ===== *)
theory Mysh
  imports Kernel
begin

text \<open>
  \<^verbatim>\<open>src/fork/mysh/mysh.c\<close>, a simple shell: it reads a command line, splits it at
  blanks, and runs it in a child process. A run of the model is the life of
  one process; the reply to \<open>fork\<close> says whether the run goes on as the parent or
  as the child.
\<close>

section \<open>Definitions\<close>

abbreviation (input) LEN :: nat where "LEN \<equiv> 128"
abbreviation (input) MAXARGS :: nat where "MAXARGS \<equiv> 1024"
abbreviation (input) PROMPT :: string where "PROMPT \<equiv> ''mysh> ''"
abbreviation (input) SEP :: "char list" where "SEP \<equiv> '' ''"

text \<open>
  The two arrays of pointers. \<open>newargs\<close> starts out equal to \<open>orig_newargs\<close> and
  is overwritten with pointers into \<open>cmd\<close>; NULL is 0.
\<close>

record mysh_state =
  newargs :: "int list"
  orig_newargs :: "int list"

text \<open>What does not change while the shell runs.\<close>

record mysh_env =
  MYDEBUG :: bool
  prog_name :: string
  cmd_at :: int
  rusage_at :: int

definition SHOWARGS :: "mysh_env \<Rightarrow> mysh_state \<Rightarrow> unit prog" where
  "SHOWARGS env st =
     whenp (MYDEBUG env)
       (for_each [0..<MAXARGS] (\<lambda>i.
          printf (''newargs[%d]=%p'' @ [LF] @ ''    orig_newargs[%d]=%p'' @ [LF])
            [I (int i), I (newargs st ! i), I (int i), I (orig_newargs st ! i)]))"

definition mysh_Dprint :: "mysh_env \<Rightarrow> string \<Rightarrow> arg list \<Rightarrow> unit prog" where
  "mysh_Dprint env fmt args = (if \<not> MYDEBUG env then skip else eprintf fmt args)"

definition free_args :: "int list \<Rightarrow> unit prog" where
  "free_args args = for_each args (\<lambda>p. whenp (p \<noteq> 0) (emit (Did ''free'' [I p])))"

definition displayChildStatus :: "int \<Rightarrow> int \<Rightarrow> unit prog" where
  "displayChildStatus stat cpid =
     seq (printf ([LF] @ ''Child %d just died!'' @ [LF]) [I cpid])
    (seq (whenp (WIFEXITED stat)
           (printf ('' exited normally, exit status: %d'' @ [LF]) [I (WEXITSTATUS stat)]))
    (seq (whenp (WIFSIGNALED stat)
           (printf ('' exited abnormally, signal killed with: %d'' @ [LF]) [I (WTERMSIG stat)]))
    (seq (whenp (WIFSTOPPED stat)
           (printf ('' stopped; stop signal: %d'' @ [LF]) [I (WSTOPSIG stat)]))
    (seq (whenp (WCOREDUMP stat) (printf ('' dumped core.'' @ [LF]) []))
         (whenp (WIFCONTINUED stat) (printf ('' continued.'' @ [LF]) []))))))"

text \<open>
  The members of \<open>*rusage\<close> are passed in the order they are printed; \<open>rusage\<close> is
  the pointer, which the code does not check.
\<close>

definition show_resusage :: "int \<Rightarrow> int list \<Rightarrow> unit prog" where
  "show_resusage rusage members =
     (if rusage = 0 then stop (Undef ''null pointer'')
      else printf
        (''Resource usage stats ::'' @ [LF] @
         '' time in user   mode       : %6ld.%06ld [s.us]'' @ [LF] @
         '' time in kernel mode       : %6ld.%06ld [s.us]'' @ [LF] @
         '' max RSS                   : %9ld KB'' @ [LF] @
         '' minor faults (no IO)      : %9ld'' @ [LF] @
         '' major faults (IO)         : %9ld'' @ [LF] @
         '' #times fs performed i/p   : %9ld'' @ [LF] @
         '' #times fs performed o/p   : %9ld'' @ [LF] @
         '' # voluntary ctx switches  : %9ld'' @ [LF] @
         '' # involuntary ctx switches: %9ld'' @ [LF]) (map I members))"

text \<open>
  The two calls of \<open>strtok\<close>: the entries \<open>newargs[0]\<close>, \<open>newargs[1]\<close>, \dots that
  are assigned, the last one NULL. A token is given with its offset in \<open>cmd\<close>;
  \<open>pos\<close> is the offset at which the next call goes on.
\<close>

function strtok_rest :: "nat \<Rightarrow> string \<Rightarrow> (nat \<times> string) option list" where
  "strtok_rest pos s =
     (case strtok SEP s of
        (None, r) \<Rightarrow> [None]
      | (Some t, r) \<Rightarrow>
          Some (pos + length (takeWhile (\<lambda>c. c \<in> set SEP) s), t)
            # strtok_rest (pos + (length s - length r)) r)"
  by pat_completeness auto
termination
  by (relation "measure (\<lambda>(pos, s). length s)") (auto dest: strtok_rest_less[OF sym])

declare strtok_rest.simps [simp del]

definition mysh_tokens :: "string \<Rightarrow> (nat \<times> string) option list" where
  "mysh_tokens cmd =
     (case strtok SEP cmd of
        (None, r) \<Rightarrow> [None, None]
      | (Some t, r) \<Rightarrow>
          Some (length (takeWhile (\<lambda>c. c \<in> set SEP) cmd), t)
            # strtok_rest (length cmd - length r) r)"

text \<open>The strings at the pointers up to the first NULL, as \<open>execvp\<close> reads them.\<close>

fun argv_of :: "(nat \<times> string) option list \<Rightarrow> string list" where
  "argv_of (Some (off, t) # ts) = t # argv_of ts"
| "argv_of _ = []"

text \<open>The pointers that are stored for the tokens.\<close>

definition token_ptr :: "int \<Rightarrow> (nat \<times> string) option \<Rightarrow> int" where
  "token_ptr cmd_addr t = (case t of None \<Rightarrow> 0 | Some (off, _) \<Rightarrow> cmd_addr + int off)"

definition mysh_showtokens :: "mysh_env \<Rightarrow> string list \<Rightarrow> unit prog" where
  "mysh_showtokens env args =
     whenp (MYDEBUG env)
       (seq (for_each [0..<length args] (\<lambda>i.
               printf ([LF] @ ''newargs[%d]=%s'' @ [LF]) [I (int i), S (args ! i)]))
            (printf [LF] []))"

text \<open>
  The child: \<open>execvp\<close> only returns on failure. With NULL as the file it is
  undefined.
\<close>

definition mysh_child :: "mysh_state \<Rightarrow> string list \<Rightarrow> mysh_state prog" where
  "mysh_child st args =
     seq (free_args (orig_newargs st))
       (if args = [] then stop (Undef ''execvp of a null pointer'')
        else bind (icall (Call ''execvp'' (S (hd args) # map S args))) (\<lambda>r.
          if r = -1 then seq (perror ''exec failure'') (exit_prog 1)
          else ret st))"

definition mysh_parent :: "mysh_env \<Rightarrow> mysh_state \<Rightarrow> mysh_state prog" where
  "mysh_parent env st =
     bind (syscall (Call ''wait3'' [S ''WUNTRACED''])) (\<lambda>r.
       if retval r = -1 then seq (perror ''wait'') (exit_prog 1)
       else seq (displayChildStatus (out 0 r) (retval r))
           (seq (show_resusage (rusage_at env) (tl (outs r)))
                (ret st)))"

text \<open>
  From the point where the line has been cut to \<open>cmd\<close>. The entries of
  \<open>newargs\<close> past those assigned keep their values.
\<close>

definition mysh_run :: "mysh_env \<Rightarrow> mysh_state \<Rightarrow> string \<Rightarrow> mysh_state prog" where
  "mysh_run env st cmd =
     (let toks = mysh_tokens cmd; args = argv_of toks in
      if MAXARGS < length toks then stop (Undef ''newargs overflow'')
      else
        let st = st\<lparr>newargs := map (token_ptr (cmd_at env)) toks @ drop (length toks) (newargs st)\<rparr> in
        if int MAXARGS < int (length toks) - 2 then
          seq (eprintf (''%s: Too many arguments (max is %d), aborting command.'' @ [LF])
                 [S (prog_name env), I (int MAXARGS)]) (ret st)
        else
          seq (mysh_showtokens env args)
         (bind (icall (Call ''fork'' [])) (\<lambda>pid.
            if pid = -1 then seq (perror ''fork failed'') (ret st)
            else if pid = 0 then mysh_child st args
            else mysh_parent env st)))"

text \<open>
  One turn of the loop. \<open>fgets\<close> replies with the line it stored, or with 0
  for NULL; \<open>strlen\<close> sees the line up to its first NUL.
\<close>

definition mysh_body :: "mysh_env \<Rightarrow> mysh_state \<Rightarrow> mysh_state prog" where
  "mysh_body env st =
     seq (SHOWARGS env st)
    (seq (printf ''%s'' [S PROMPT])
    (seq (emit (Flush 1))
    (bind (syscall (Call ''fgets'' [I (int LEN)])) (\<lambda>r.
       if retval r = 0 then ret st
       else if cstr (payload r) = [] then stop (Undef ''cmd[-1]'')
       else
         let cmd = butlast (cstr (payload r)) in
         seq (mysh_Dprint env (''cmd: len=%d cmd=%s'' @ [LF]) [I (int (length cmd)), S cmd])
         (if cmd = [] then ret st
          else if strncmp cmd ''q'' (length cmd) = 0 then
            seq (printf (''q pressed.'' @ [LF]) [])
           (seq (free_args (orig_newargs st)) (exit_prog 0))
          else mysh_run env st cmd)))))"

lemma shrinks_mysh_run: "shrinks (mysh_run env st cmd)"
  unfolding mysh_run_def Let_def mysh_showtokens_def mysh_child_def mysh_parent_def
    displayChildStatus_def show_resusage_def free_args_def
  by (intro shrink_intros)

lemma consumes_mysh_body: "consumes (mysh_body env st)"
  unfolding mysh_body_def Let_def SHOWARGS_def mysh_Dprint_def free_args_def
  by (intro consumes_seq2 consumes_bind1 consumes_syscall shrink_intros shrinks_mysh_run)

function mysh_loop :: "mysh_env \<Rightarrow> mysh_state \<Rightarrow> unit prog" where
  "mysh_loop env st w = bind (mysh_body env st) (\<lambda>st w. mysh_loop env st w) w"
  by pat_completeness auto
termination
  by (relation "measure (\<lambda>(env, st, w). length (script w))")
    (auto dest: consumesD[OF consumes_mysh_body])

declare mysh_loop.simps [simp del]

interpretation mysh: service "mysh_body env" "mysh_loop env" for env
  by unfold_locales (rule mysh_loop.simps, rule consumes_mysh_body)

text \<open>The allocation loop: \<open>i\<close> entries have been set.\<close>

function mysh_alloc :: "string \<Rightarrow> int list \<Rightarrow> int list prog" where
  "mysh_alloc argv0 ptrs =
     (if length ptrs < MAXARGS then
        bind (icall (Call ''malloc'' [I (int LEN)])) (\<lambda>p.
          if p = 0 then
            seq (eprintf ''%s: no memory for newargs[%d]..'' [S argv0, I (int (length ptrs))])
                (exit_prog 1)
          else mysh_alloc argv0 (ptrs @ [p]))
      else ret ptrs)"
  by pat_completeness auto
termination
  by (relation "measure (\<lambda>(a, ptrs). MAXARGS - length ptrs)") auto

declare mysh_alloc.simps [simp del]

text \<open>\<open>argv\<close> is the argument vector; \<open>cmd_addr\<close> the address of the array \<open>cmd\<close>.\<close>

definition mysh_main :: "int \<Rightarrow> string list \<Rightarrow> unit prog" where
  "mysh_main cmd_addr argv =
     bind (icall (Call ''malloc'' [S ''sizeof(struct rusage)''])) (\<lambda>rus.
       let env = \<lparr>MYDEBUG = (1 < length argv \<and> strcmp (argv ! 1) ''-D'' = 0),
                  prog_name = argv ! 0, cmd_at = cmd_addr, rusage_at = rus\<rparr> in
       bind (mysh_alloc (prog_name env) []) (\<lambda>ptrs.
         let st = \<lparr>newargs = ptrs, orig_newargs = ptrs\<rparr> in
         seq (SHOWARGS env st) (mysh_loop env st)))"

section \<open>Splitting a command line\<close>

text \<open>The words of a line: the pieces between blanks that are not empty.\<close>

fun pieces :: "string \<Rightarrow> string list" where
  "pieces [] = [[]]"
| "pieces (c # cs) = (if c = CHR '' '' then [] # pieces cs else (c # hd (pieces cs)) # tl (pieces cs))"

definition line_words :: "string \<Rightarrow> string list" where
  "line_words s = filter (\<lambda>t. t \<noteq> []) (pieces s)"

lemma pieces_unfold:
  "pieces s = takeWhile (\<lambda>c. c \<noteq> CHR '' '') s #
     (if dropWhile (\<lambda>c. c \<noteq> CHR '' '') s = [] then []
      else pieces (drop 1 (dropWhile (\<lambda>c. c \<noteq> CHR '' '') s)))"
  by (induction s) auto

lemma line_words_blanks: "line_words (dropWhile (\<lambda>c. c = CHR '' '') s) = line_words s"
  by (induction s) (auto simp: line_words_def)

lemma line_words_token:
  "c \<noteq> CHR '' '' \<Longrightarrow> line_words (c # cs) = takeWhile (\<lambda>c. c \<noteq> CHR '' '') (c # cs) #
     line_words (drop 1 (dropWhile (\<lambda>c. c \<noteq> CHR '' '') (c # cs)))"
  unfolding line_words_def
  by (subst pieces_unfold)
    (simp del: dropWhile_eq_Nil_conv pieces.simps(2) add: dropWhile_eq_Nil_conv[symmetric])

lemma strtok_blank:
  "strtok '' '' s = (case dropWhile (\<lambda>c. c = CHR '' '') s of
      [] \<Rightarrow> (None, [])
    | c # cs \<Rightarrow> (Some (takeWhile (\<lambda>c. c \<noteq> CHR '' '') (c # cs)),
                drop 1 (dropWhile (\<lambda>c. c \<noteq> CHR '' '') (c # cs))))"
  by (simp add: strtok_def Let_def del: dropWhile_eq_Nil_conv split: list.split)

lemma line_words_strtok:
  "line_words s = (case strtok '' '' s of (None, r) \<Rightarrow> [] | (Some t, r) \<Rightarrow> t # line_words r)"
proof (cases "dropWhile (\<lambda>c. c = CHR '' '') s")
  case Nil
  have "line_words s = []"
    by (subst line_words_blanks[symmetric]) (simp only: Nil, simp add: line_words_def)
  then show ?thesis unfolding strtok_blank Nil by simp
next
  case (Cons c cs)
  have c: "c \<noteq> CHR '' ''" using hd_dropWhile[of "\<lambda>c. c = CHR '' ''" s] unfolding Cons by simp
  have "line_words s = line_words (c # cs)" by (subst line_words_blanks[symmetric]) (simp only: Cons)
  then show ?thesis unfolding strtok_blank Cons line_words_token[OF c] by simp
qed

lemma argv_of_strtok_rest: "argv_of (strtok_rest pos s) = line_words s"
proof (induction pos s rule: strtok_rest.induct)
  case (1 pos s)
  then show ?case
    by (subst strtok_rest.simps, subst line_words_strtok) (auto split: prod.splits option.splits)
qed

lemma argv_of_mysh_tokens: "argv_of (mysh_tokens cmd) = line_words cmd"
  by (subst line_words_strtok)
    (auto simp: mysh_tokens_def argv_of_strtok_rest split: prod.splits option.splits)

lemma length_strtok_rest: "length (strtok_rest pos s) \<le> length s + 1"
proof (induction pos s rule: strtok_rest.induct)
  case (1 pos s)
  then show ?case
    using strtok_rest_less[of "'' ''" s]
    by (subst strtok_rest.simps) (fastforce split: prod.splits option.splits)
qed

lemma length_mysh_tokens: "length (mysh_tokens cmd) \<le> length cmd + 2"
proof (cases "strtok '' '' cmd")
  case (Pair t r)
  then show ?thesis
    using length_strtok_rest[of "length cmd - length r" r] strtok_rest_less[of "'' ''" cmd _ r]
    by (cases t) (auto simp: mysh_tokens_def)
qed

lemma pieces_append: "CHR '' '' \<notin> set t \<Longrightarrow> pieces (t @ CHR '' '' # s) = t # pieces s"
  by (induction t) auto

lemma line_words_join:
  "\<forall>t \<in> set ws. t \<noteq> [] \<and> CHR '' '' \<notin> set t \<Longrightarrow>
   line_words (concat (map (\<lambda>t. t @ '' '') ws)) = ws"
  by (induction ws) (simp_all add: line_words_def pieces_append)

section \<open>A turn of the shell\<close>

text \<open>The calls that free the pointers that are not NULL.\<close>

definition freed :: "int list \<Rightarrow> event list" where
  "freed ps = map (\<lambda>p. Did ''free'' [I p]) (filter (\<lambda>p. p \<noteq> 0) ps)"

lemma free_args_apply [prog_simps]: "free_args ps w = (Val (), w\<lparr>trace := trace w @ freed ps\<rparr>)"
  unfolding free_args_def freed_def
  by (induction ps arbitrary: w) (simp_all add: prog_simps)

text \<open>
  A line \<open>fgets\<close> returns fits its buffer. The shell also relies on it not to
  start with a NUL, and not to consist of blanks only.
\<close>

definition good_line :: "reply \<Rightarrow> bool" where
  "good_line r \<longleftrightarrow> length (payload r) < LEN \<and>
     (retval r \<noteq> 0 \<longrightarrow> cstr (payload r) \<noteq> [] \<and>
        (butlast (cstr (payload r)) \<noteq> [] \<longrightarrow> line_words (butlast (cstr (payload r))) \<noteq> []))"

definition good_lines :: "event list \<Rightarrow> bool" where
  "good_lines es \<longleftrightarrow> (\<forall>r. Sys (Call ''fgets'' [I (int LEN)]) r \<in> set es \<longrightarrow> good_line r)"

lemma wp_free_args [wp_simps]: "wp (free_args ps) Q R w = Q () (w\<lparr>trace := trace w @ freed ps\<rparr>)"
  by (simp add: wp_def free_args_apply)

text \<open>
  The memory taken and given back, read off a trace: every call of \<open>malloc\<close> with its argument
  and its result, and every pointer passed to \<open>free\<close>.
\<close>

fun malloced_by :: "event \<Rightarrow> (arg list \<times> int) list" where
  "malloced_by (Sys (Call f xs) r) = (if f = ''malloc'' then [(xs, retval r)] else [])"
| "malloced_by _ = []"

fun freed_by :: "event \<Rightarrow> int list" where
  "freed_by (Did f [I p]) = (if f = ''free'' then [p] else [])"
| "freed_by _ = []"

definition mallocs :: "event list \<Rightarrow> (arg list \<times> int) list" where
  "mallocs es = concat (map malloced_by es)"

definition frees :: "event list \<Rightarrow> int list" where
  "frees es = concat (map freed_by es)"

lemma mallocs_simps [simp]:
  "mallocs [] = []" "mallocs (e # es) = malloced_by e @ mallocs es" "mallocs (xs @ ys) = mallocs xs @ mallocs ys"
  by (simp_all add: mallocs_def)

lemma frees_simps [simp]:
  "frees [] = []" "frees (e # es) = freed_by e @ frees es" "frees (xs @ ys) = frees xs @ frees ys"
  by (simp_all add: frees_def)

lemma frees_none: "list_all (\<lambda>e. freed_by e = []) es \<Longrightarrow> frees es = []"
  by (induction es) auto

lemma mallocs_none: "list_all (\<lambda>e. malloced_by e = []) es \<Longrightarrow> mallocs es = []"
  by (induction es) auto

lemma prints_memory [simp]:
  "frees (map (\<lambda>i. Out n f (xs i)) is) = []" "mallocs (map (\<lambda>i. Out n f (xs i)) is) = []"
  by (rule frees_none mallocs_none, simp add: list_all_iff)+

lemma frees_freed [simp]: "frees (freed ps) = filter (\<lambda>p. p \<noteq> 0) ps"
  by (induction ps) (auto simp: freed_def)

text \<open>\<open>execvp\<close> returns only when it has failed.\<close>

fun exec_ok :: "event \<Rightarrow> bool" where
  "exec_ok (Sys (Call f xs) r) = (f = ''execvp'' \<longrightarrow> retval r = -1)"
| "exec_ok _ = True"

abbreviation execs_ok :: "event list \<Rightarrow> bool" where
  "execs_ok es \<equiv> list_all exec_ok es"

text \<open>What is printed of a child's status.\<close>

definition status_lines :: "int \<Rightarrow> int \<Rightarrow> event list" where
  "status_lines stat cpid =
     [Out 1 ([LF] @ ''Child %d just died!'' @ [LF]) [I cpid]] @
     (if WIFEXITED stat then
        [Out 1 ('' exited normally, exit status: %d'' @ [LF]) [I (WEXITSTATUS stat)]] else []) @
     (if WIFSIGNALED stat then
        [Out 1 ('' exited abnormally, signal killed with: %d'' @ [LF]) [I (WTERMSIG stat)]] else []) @
     (if WIFSTOPPED stat then [Out 1 ('' stopped; stop signal: %d'' @ [LF]) [I (WSTOPSIG stat)]] else []) @
     (if WCOREDUMP stat then [Out 1 ('' dumped core.'' @ [LF]) []] else []) @
     (if WIFCONTINUED stat then [Out 1 ('' continued.'' @ [LF]) []] else [])"

lemma frees_status_lines [simp]: "frees (status_lines stat cpid) = []"
  by (rule frees_none) (simp add: status_lines_def)

lemma displayChildStatus_apply [prog_simps]:
  "displayChildStatus stat cpid w = (Val (), w\<lparr>trace := trace w @ status_lines stat cpid\<rparr>)"
  by (simp add: displayChildStatus_def status_lines_def seq_apply whenp_emit emit_apply)

lemma wp_displayChildStatus [wp_simps]:
  "wp (displayChildStatus stat cpid) Q R w = Q () (w\<lparr>trace := trace w @ status_lines stat cpid\<rparr>)"
  by (simp add: wp_def displayChildStatus_apply)

text \<open>A child goes on only if \<open>execvp\<close> has returned something else than -1.\<close>

lemma mysh_child_wp:
  "wp (mysh_child st args) (\<lambda>st' v. orig_newargs st' = orig_newargs st \<and> \<not> execs_ok (trace v))
     (\<lambda>h v. h \<noteq> Exited 0 \<and> (args \<noteq> [] \<longrightarrow> h \<in> {Blocked, Exited 1})) w"
  by (auto simp: mysh_child_def wp_simps split: list.splits)

lemma mysh_parent_wp:
  "wp (mysh_parent env st) (\<lambda>st' v. orig_newargs st' = orig_newargs st \<and> frees (trace v) = frees (trace w))
     (\<lambda>h v. h \<noteq> Exited 0 \<and> (rusage_at env \<noteq> 0 \<longrightarrow> h \<in> {Blocked, Exited 1})) w"
  by (auto simp: mysh_parent_def show_resusage_def wp_simps split: list.splits)

text \<open>What running a command can lead to.\<close>

lemma mysh_run_wp:
  "wp (mysh_run env st cmd)
    (\<lambda>st' v. orig_newargs st' = orig_newargs st \<and> (execs_ok (trace v) \<longrightarrow> frees (trace v) = frees (trace w)))
    (\<lambda>h v. h \<noteq> Exited 0 \<and>
       (length cmd < LEN \<and> line_words cmd \<noteq> [] \<and> rusage_at env \<noteq> 0 \<longrightarrow> h \<in> {Blocked, Exited 1})) w"
proof (cases "length (mysh_tokens cmd) \<le> MAXARGS")
  case True
  let ?st = "st\<lparr>newargs := map (token_ptr (cmd_at env)) (mysh_tokens cmd) @
      drop (length (mysh_tokens cmd)) (newargs st)\<rparr>"
  let ?Q = "\<lambda>st' v. orig_newargs st' = orig_newargs st \<and> (execs_ok (trace v) \<longrightarrow> frees (trace v) = frees (trace w))"
  let ?R = "\<lambda>h v. h \<noteq> Exited 0 \<and>
       (length cmd < LEN \<and> line_words cmd \<noteq> [] \<and> rusage_at env \<noteq> 0 \<longrightarrow> h = Blocked \<or> h = Exited 1)"
  have c: "wp (mysh_child ?st (line_words cmd)) ?Q ?R u" for u
    by (rule wp_mono[OF mysh_child_wp]) simp_all
  have p: "wp (mysh_parent env ?st) ?Q ?R u" if "frees (trace u) = frees (trace w)" for u
    by (rule wp_mono[OF mysh_parent_wp]) (use that in simp_all)
  from True show ?thesis
    by (auto simp: mysh_run_def Let_def mysh_showtokens_def wp_simps argv_of_mysh_tokens intro!: c p split: list.splits)
next
  case False
  then show ?thesis using length_mysh_tokens[of cmd] by (simp add: mysh_run_def Let_def wp_simps)
qed

lemma emits_mysh_run: "emits (\<lambda>_. True) (mysh_run env st cmd)"
  unfolding mysh_run_def Let_def mysh_showtokens_def mysh_child_def mysh_parent_def
    displayChildStatus_def show_resusage_def free_args_def
  by (intro emits_intros TrueI)

lemma emits_mysh_body: "emits (\<lambda>_. True) (mysh_body env st)"
  unfolding mysh_body_def Let_def SHOWARGS_def mysh_Dprint_def free_args_def
  by (intro emits_intros TrueI emits_mysh_run)

text \<open>How the shell can end, given the buffers \<open>ps\<close> it allocated and those freed already.\<close>

definition mysh_end :: "mysh_env \<Rightarrow> int list \<Rightarrow> int list \<Rightarrow> halt \<Rightarrow> world \<Rightarrow> bool" where
  "mysh_end env ps fs h v \<longleftrightarrow>
     (rusage_at env \<noteq> 0 \<and> good_lines (trace v) \<longrightarrow> h \<in> {Blocked, Exited 0, Exited 1}) \<and>
     (h = Exited 0 \<and> execs_ok (trace v) \<longrightarrow> frees (trace v) = fs @ filter (\<lambda>p. p \<noteq> 0) ps)"

lemma good_linesD:
  "good_lines es \<Longrightarrow> Sys (Call ''fgets'' [I (int LEN)]) r \<in> set es \<Longrightarrow> good_line r"
  by (simp add: good_lines_def)

lemma good_line_start: "good_line r \<Longrightarrow> retval r \<noteq> 0 \<Longrightarrow> cstr (payload r) \<noteq> []"
  by (simp add: good_line_def)

lemma good_line_cmd:
  assumes "good_line r" "retval r \<noteq> 0" "butlast (cstr (payload r)) \<noteq> []"
  shows "length (butlast (cstr (payload r))) < LEN" "line_words (butlast (cstr (payload r))) \<noteq> []"
  using assms length_cstr_le[of "payload r"] by (auto simp: good_line_def)

lemma mysh_run_end:
  assumes "good_lines (trace w) \<longrightarrow> length cmd < LEN \<and> line_words cmd \<noteq> []"
  shows "wp (mysh_run env st cmd)
    (\<lambda>st' v. orig_newargs st' = orig_newargs st \<and> (execs_ok (trace v) \<longrightarrow> frees (trace v) = frees (trace w)))
    (mysh_end env ps fs) w"
proof (rule wp_mono[OF wp_emits[OF emits_mysh_run mysh_run_wp]])
  fix h v
  assume h: "(h \<noteq> Exited 0 \<and> (length cmd < LEN \<and> line_words cmd \<noteq> [] \<and> rusage_at env \<noteq> 0 \<longrightarrow>
      h \<in> {Blocked, Exited 1})) \<and> extends w v"
  then have "good_lines (trace v) \<longrightarrow> good_lines (trace w)" by (auto simp: extends_def good_lines_def)
  with h assms show "mysh_end env ps fs h v" by (auto simp: mysh_end_def)
qed simp

lemma mysh_body_end:
  "wp (mysh_body env st)
     (\<lambda>st' v. orig_newargs st' = orig_newargs st \<and> (execs_ok (trace v) \<longrightarrow> frees (trace v) = frees (trace w)))
     (mysh_end env (orig_newargs st) (frees (trace w))) w"
proof -
  have start: "wp (SHOWARGS env st) Q R w" if "\<And>es. frees es = [] \<Longrightarrow> Q () (w\<lparr>trace := trace w @ es\<rparr>)" for Q R w
    using that[of "[]"] that by (simp add: SHOWARGS_def wp_simps)
  have dbg: "wp (mysh_Dprint env f xs) Q R w" if "\<And>es. frees es = [] \<Longrightarrow> Q () (w\<lparr>trace := trace w @ es\<rparr>)" for f xs Q R w
    using that[of "[]"] that by (simp add: mysh_Dprint_def wp_simps)
  have run: "wp (mysh_run env st cmd)
     (\<lambda>st' v. orig_newargs st' = orig_newargs st \<and> (execs_ok (trace v) \<longrightarrow> frees (trace v) = fs))
     (mysh_end env ps fs) u"
    if "good_lines (trace u) \<longrightarrow> length cmd < LEN \<and> line_words cmd \<noteq> []" "frees (trace u) = fs" for cmd ps fs u
    using mysh_run_end[OF that(1), of env st ps fs] that(2) by simp
  show ?thesis
    unfolding mysh_body_def wp_seq
    by (rule start, simp add: wp_simps split: list.splits,
        auto simp: Let_def wp_simps mysh_end_def intro!: dbg run
          dest: good_linesD good_line_start good_line_cmd)
qed

lemma mysh_loop_end: "wp (mysh_loop env st) (\<lambda>_ _. False) (mysh_end env (orig_newargs st) (frees (trace w))) w"
proof (rule mysh.invariant[where J = "\<lambda>s v. orig_newargs s = orig_newargs st \<and> (execs_ok (trace v) \<longrightarrow> frees (trace v) = frees (trace w))"])
  fix s :: mysh_state and v :: world
  assume J: "orig_newargs s = orig_newargs st \<and> (execs_ok (trace v) \<longrightarrow> frees (trace v) = frees (trace w))"
  have "wp (mysh_body env s)
     (\<lambda>st' u. (orig_newargs st' = orig_newargs s \<and> (execs_ok (trace u) \<longrightarrow> frees (trace u) = frees (trace v))) \<and> extends v u)
     (\<lambda>h u. mysh_end env (orig_newargs s) (frees (trace v)) h u \<and> extends v u) v"
    by (rule wp_emits[OF emits_mysh_body mysh_body_end])
  then show "wp (mysh_body env s) (\<lambda>s v. orig_newargs s = orig_newargs st \<and> (execs_ok (trace v) \<longrightarrow> frees (trace v) = frees (trace w)))
      (mysh_end env (orig_newargs st) (frees (trace w))) v"
    by (rule wp_mono) (use J in \<open>auto simp: mysh_end_def extends_def\<close>)
qed simp

section \<open>Memory\<close>

text \<open>The allocations of \<open>newargs\<close>: \<open>LEN\<close> bytes each, none of them failed.\<close>

abbreviation arg_bufs :: "int list \<Rightarrow> (arg list \<times> int) list" where
  "arg_bufs ps \<equiv> map (Pair [I (int LEN)]) ps"

definition alloc_done :: "int list \<Rightarrow> world \<Rightarrow> int list \<Rightarrow> world \<Rightarrow> bool" where
  "alloc_done ptrs w ps v \<longleftrightarrow> length ps = MAXARGS \<and> frees (trace v) = frees (trace w) \<and>
     (\<exists>new. ps = ptrs @ new \<and> 0 \<notin> set new \<and> mallocs (trace v) = mallocs (trace w) @ arg_bufs new)"

lemma mysh_alloc_wp:
  "length ptrs \<le> MAXARGS \<Longrightarrow>
   wp (mysh_alloc a ptrs) (alloc_done ptrs w) (\<lambda>h v. h \<in> {Blocked, Exited 1}) w"
proof (induction a ptrs arbitrary: w rule: mysh_alloc.induct)
  case (1 a ptrs)
  show ?case
  proof (cases "length ptrs < MAXARGS")
    case False
    with "1.prems" show ?thesis by (subst mysh_alloc.simps) (simp add: wp_simps alloc_done_def)
  next
    case True
    let ?c = "Call ''malloc'' [I (int LEN)]"
    have step: "alloc_done ptrs w ps v" if "retval r \<noteq> 0" "alloc_done (ptrs @ [retval r]) (answered ?c r w) ps v" for r ps v
      using that by (auto simp: alloc_done_def)
    have "wp (mysh_alloc a (ptrs @ [retval r])) (alloc_done ptrs w) (\<lambda>h v. h \<in> {Blocked, Exited 1}) (answered ?c r w)"
      if "retval r \<noteq> 0" for r
      by (rule wp_mono[OF "1.IH"[OF True that]]) (use True step that in simp_all)
    with True show ?thesis by (subst mysh_alloc.simps) (simp add: wp_simps split: list.splits)
  qed
qed

lemma emits_mysh_body_malloced: "emits (\<lambda>e. malloced_by e = []) (mysh_body env st)"
  unfolding mysh_body_def mysh_run_def Let_def SHOWARGS_def mysh_Dprint_def free_args_def
    mysh_showtokens_def mysh_child_def mysh_parent_def displayChildStatus_def show_resusage_def
  by (intro emits_intros) simp_all

text \<open>
  How the program ends, with \<open>rusage\<close> checked to have been allocated. If it quits, all the memory
  that was taken is \<open>rusage\<close> and the buffers, and the buffers are what was given back.
\<close>

abbreviation rusage_size :: "arg list" where "rusage_size \<equiv> [S ''sizeof(struct rusage)'']"

definition mysh_over :: "halt \<Rightarrow> world \<Rightarrow> bool" where
  "mysh_over h v \<longleftrightarrow>
     ((rusage_size, 0) \<notin> set (mallocs (trace v)) \<and> good_lines (trace v) \<longrightarrow> h \<in> {Blocked, Exited 0, Exited 1}) \<and>
     (h = Exited 0 \<and> execs_ok (trace v) \<longrightarrow> (\<exists>rus ps. length ps = MAXARGS \<and> 0 \<notin> set ps \<and>
        mallocs (trace v) = (rusage_size, rus) # arg_bufs ps \<and> frees (trace v) = ps))"

lemma mysh_loop_over:
  assumes "length ps = MAXARGS" "0 \<notin> set ps" "orig_newargs st = ps" "frees (trace w) = []"
    and "mallocs (trace w) = (rusage_size, rusage_at env) # arg_bufs ps"
  shows "wp (mysh_loop env st) (\<lambda>_ _. False) mysh_over w"
proof (cases "mysh_loop env st w")
  case (Pair r v)
  from mysh.emits_loop[OF emits_mysh_body_malloced] Pair obtain es
    where "trace v = trace w @ es" "list_all (\<lambda>e. malloced_by e = []) es" by (rule emitsD)
  then have "mallocs (trace v) = mallocs (trace w)" by (simp add: mallocs_none)
  moreover have "filter (\<lambda>p. p \<noteq> 0) ps = ps" using assms(2) by (auto simp: filter_id_conv)
  ultimately show ?thesis
    using mysh_loop_end[of env st w] Pair assms
    by (auto simp: wp_def mysh_end_def mysh_over_def split: outcome.splits)
qed

lemma mysh_start_over:
  assumes "length ps = MAXARGS" "0 \<notin> set ps" "frees (trace w) = []"
    and "mallocs (trace w) = (rusage_size, rusage_at env) # arg_bufs ps"
  shows "wp (let st = \<lparr>newargs = ps, orig_newargs = ps\<rparr> in seq (SHOWARGS env st) (mysh_loop env st))
    (\<lambda>_ _. False) mysh_over w"
proof -
  let ?st = "\<lparr>newargs = ps, orig_newargs = ps\<rparr>"
  have "wp (SHOWARGS env ?st) (\<lambda>_ v. frees (trace v) = frees (trace w) \<and> mallocs (trace v) = mallocs (trace w)) (\<lambda>_ _. False) w"
    by (simp add: SHOWARGS_def wp_simps)
  then have "wp (SHOWARGS env ?st) (\<lambda>_. wp (mysh_loop env ?st) (\<lambda>_ _. False) mysh_over) mysh_over w"
    by (rule wp_mono) (use assms in \<open>auto intro!: mysh_loop_over\<close>)
  then show ?thesis by (simp add: Let_def wp_seq)
qed

lemma mysh_main_over: "wp (mysh_main cmd_addr argv) (\<lambda>_ _. False) mysh_over (boot rs)"
proof -
  have "wp (bind (mysh_alloc a []) (\<lambda>ps. let st = \<lparr>newargs = ps, orig_newargs = ps\<rparr> in
      seq (SHOWARGS env st) (mysh_loop env st))) (\<lambda>_ _. False) mysh_over w"
    if "mallocs (trace w) = [(rusage_size, rusage_at env)]" "frees (trace w) = []" for a env w
    unfolding wp_bind
    by (rule wp_mono[OF mysh_alloc_wp]) (use that in \<open>auto simp: alloc_done_def mysh_over_def[of "Exited 1"]
      mysh_over_def[of Blocked] intro!: mysh_start_over\<close>)
  note alloc = this[unfolded Let_def wp_bind]
  show ?thesis
    by (cases rs) (auto simp: mysh_main_def wp_simps Let_def mysh_over_def[of Blocked] intro!: alloc)
qed

lemma mysh_alloc_run:
  "0 \<notin> set ps \<Longrightarrow> length ptrs + length ps = MAXARGS \<Longrightarrow> script w = map Ret ps @ rs \<Longrightarrow>
   \<exists>v. mysh_alloc a ptrs w = (Val (ptrs @ ps), v) \<and> script v = rs \<and>
     trace v = trace w @ map (\<lambda>p. Sys (Call ''malloc'' [I (int LEN)]) (Ret p)) ps"
proof (induction ps arbitrary: ptrs w)
  case Nil
  then show ?case by (subst mysh_alloc.simps) (simp add: prog_simps)
next
  case (Cons p ps)
  let ?v = "answered (Call ''malloc'' [I (int LEN)]) (Ret p) w"
  have "\<exists>v. mysh_alloc a (ptrs @ [p]) ?v = (Val ((ptrs @ [p]) @ ps), v) \<and> script v = rs \<and>
     trace v = trace ?v @ map (\<lambda>p. Sys (Call ''malloc'' [I (int LEN)]) (Ret p)) ps"
    using Cons.prems by (intro Cons.IH) simp_all
  with Cons.prems show ?case
    by (subst mysh_alloc.simps) (simp add: prog_simps icall_def)
qed

lemma mysh_quits:
  "\<exists>x. mysh_main 5000 [''mysh''] (boot (Ret 9 # map Ret (replicate MAXARGS 77) @ [Data (''q'' @ [LF])])) = (Halt (Exited 0), x) \<and>
     good_lines (trace x) \<and> execs_ok (trace x) \<and> (rusage_size, 0) \<notin> set (mallocs (trace x))"
proof -
  let ?w = "boot (Ret 9 # map Ret (replicate MAXARGS 77) @ [Data (''q'' @ [LF])])"
  let ?u = "answered (Call ''malloc'' [S ''sizeof(struct rusage)'']) (Ret 9) ?w"
  let ?m = "map (\<lambda>p. Sys (Call ''malloc'' [I (int LEN)]) (Ret p)) (replicate MAXARGS 77)"
  obtain v where v: "mysh_alloc ''mysh'' [] ?u = (Val (replicate MAXARGS 77), v)"
    "script v = [Data (''q'' @ [LF])]" "trace v = trace ?u @ ?m"
    using mysh_alloc_run[of "replicate MAXARGS 77" "[]" ?u "[Data (''q'' @ [LF])]" "''mysh''"] by auto
  obtain ms where ms: "ms = ?m" by blast
  have m: "Sys (Call ''fgets'' xs) r \<notin> set ms" "execs_ok ms" "(rusage_size, 0) \<notin> set (mallocs ms)" for xs r
    by (auto simp: ms list_all_iff mallocs_def simp del: map_replicate)
  have f: "Sys (Call ''fgets'' xs) r \<notin> set (freed ps)" "execs_ok (freed ps)" "(rusage_size, 0) \<notin> set (mallocs (freed ps))" for xs r ps
    by (auto simp: freed_def list_all_iff mallocs_def)
  from v show ?thesis unfolding ms[symmetric] using m f
    by (simp add: mysh_main_def icall_def prog_simps Let_def SHOWARGS_def mysh_loop.simps[of _ _ v]
        mysh_body_def mysh_Dprint_def cstr_def good_lines_def good_line_def line_words_def del: map_replicate)
qed

section \<open>Running commands\<close>



text \<open>The call that runs the words of a line.\<close>

definition exec_call :: "string list \<Rightarrow> call" where
  "exec_call args = Call ''execvp'' (S (hd args) # map S args)"

text \<open>
  C10: given a command line, the child executes the program named by its first word with
  the words of the line as arguments, after freeing its copies of the buffers;
  when \<open>execvp\<close> fails it reports that and exits with status 1.
\<close>

theorem mysh_execs:
  assumes "script w = Data (line @ [LF]) # Ret 0 # rs" "\<not> MYDEBUG env"
    and "NUL \<notin> set line" "length line + 1 < LEN" "line_words line \<noteq> []" "line \<noteq> ''q''"
  shows "\<exists>es. es = trace w @ [Out 1 ''%s'' [S PROMPT], Flush 1,
        Sys (Call ''fgets'' [I (int LEN)]) (Data (line @ [LF])), Sys (Call ''fork'' []) (Ret 0)] @
        freed (orig_newargs st) \<and>
     (rs = [] \<longrightarrow> mysh_loop env st w = (Halt Blocked, w\<lparr>script := [], trace := es @
        [Pending (exec_call (line_words line))]\<rparr>)) \<and>
     (\<forall>e rs'. rs = Err e # rs' \<longrightarrow> mysh_loop env st w = (Halt (Exited 1),
        w\<lparr>script := rs', errno := e, trace := es @ [Sys (exec_call (line_words line)) (Err e),
          Perror ''exec failure'']\<rparr>))"
proof -
  have cmd: "cstr (line @ [LF]) = line @ [LF]" "line \<noteq> []"
    using assms(3,5) by (auto simp: cstr_def line_words_def)
  have "length (mysh_tokens line) \<le> MAXARGS" using length_mysh_tokens[of line] assms(4) by simp
  moreover have "strncmp line ''q'' (length line) \<noteq> 0"
    using assms(3,6) cmd(2) by (subst strncmp_0_iff) (auto simp: take_Cons' split: if_splits)
  ultimately show ?thesis
    using assms(1,2,5) cmd
    by (auto simp: mysh_loop.simps[of _ _ w] mysh_body_def SHOWARGS_def mysh_Dprint_def mysh_run_def Let_def
        mysh_showtokens_def mysh_child_def argv_of_mysh_tokens exec_call_def prog_simps icall_def answered_def)
qed


theorem mysh_execs_witness:
  "fst (mysh_loop \<lparr>MYDEBUG = False, prog_name = ''mysh'', cmd_at = 5000, rusage_at = 9\<rparr>
       \<lparr>newargs = [1, 2], orig_newargs = [1, 2]\<rparr> (boot [Data (''ls  -l'' @ [LF]), Ret 0])) = Halt Blocked \<and>
   last (trace (snd (mysh_loop \<lparr>MYDEBUG = False, prog_name = ''mysh'', cmd_at = 5000, rusage_at = 9\<rparr>
       \<lparr>newargs = [1, 2], orig_newargs = [1, 2]\<rparr> (boot [Data (''ls  -l'' @ [LF]), Ret 0])))) =
     Pending (Call ''execvp'' [S ''ls'', S ''ls'', S ''-l''])"
  using mysh_execs[of "boot [Data (''ls  -l'' @ [LF]), Ret 0]" "''ls  -l''" "[]"
      "\<lparr>MYDEBUG = False, prog_name = ''mysh'', cmd_at = 5000, rusage_at = 9\<rparr>"
      "\<lparr>newargs = [1, 2], orig_newargs = [1, 2]\<rparr>"]
  by (simp add: line_words_def exec_call_def)

end
