(* ===== verification/Monitor.thy ===== *)
theory Monitor
  imports Kernel
begin

text \<open>
  Protocols as automata that read the trace. A monitor moves from state to
  state with each event; it can find that the program has broken the protocol
  (\<open>Wrong\<close>), or that the kernel has not kept a promise the protocol rests on
  (\<open>Broken\<close>), after which nothing is asked of the program.
\<close>

datatype 's verdict = Broken | Wrong | At 's

type_synonym 's monitor = "event \<Rightarrow> 's \<Rightarrow> 's verdict"

fun mrun :: "'s monitor \<Rightarrow> event list \<Rightarrow> 's \<Rightarrow> 's verdict" where
  "mrun f [] s = At s"
| "mrun f (e # es) s = (case f e s of At t \<Rightarrow> mrun f es t | Broken \<Rightarrow> Broken | Wrong \<Rightarrow> Wrong)"

lemma mrun_append:
  "mrun f (xs @ ys) s = (case mrun f xs s of At t \<Rightarrow> mrun f ys t | Broken \<Rightarrow> Broken | Wrong \<Rightarrow> Wrong)"
  by (induction xs arbitrary: s) (auto split: verdict.splits)

definition holds :: "('s \<Rightarrow> bool) \<Rightarrow> 's verdict \<Rightarrow> bool" where
  "holds P v = (case v of At t \<Rightarrow> P t | Broken \<Rightarrow> True | Wrong \<Rightarrow> False)"

lemma holds_simps [simp]: "holds P (At t) = P t" "holds P Broken" "\<not> holds P Wrong"
  by (simp_all add: holds_def)

lemma holds_mono: "holds P v \<Longrightarrow> (\<And>t. P t \<Longrightarrow> Q t) \<Longrightarrow> holds Q v"
  by (cases v) auto

text \<open>
  \<open>tracks f m Q s\<close>: started with the monitor in state \<open>s\<close>, the program \<open>m\<close> keeps
  to the protocol, and when it returns \<open>x\<close> the monitor is in a state \<open>t\<close> with
  \<open>Q x t\<close>.
\<close>

abbreviation appends :: "'a prog \<Rightarrow> bool" where
  "appends m \<equiv> emits (\<lambda>_. True) m"

definition tracks_at :: "'s monitor \<Rightarrow> 'a prog \<Rightarrow> ('a \<Rightarrow> 's \<Rightarrow> bool) \<Rightarrow> 's \<Rightarrow> world \<Rightarrow> bool" where
  "tracks_at f m Q s w \<longleftrightarrow> (\<exists>es. trace (snd (m w)) = trace w @ es \<and>
     (case fst (m w) of Val x \<Rightarrow> holds (Q x) (mrun f es s) | Halt h \<Rightarrow> holds (\<lambda>_. True) (mrun f es s)))"

definition tracks :: "'s monitor \<Rightarrow> 'a prog \<Rightarrow> ('a \<Rightarrow> 's \<Rightarrow> bool) \<Rightarrow> 's \<Rightarrow> bool" where
  "tracks f m Q s \<longleftrightarrow> (\<forall>w. tracks_at f m Q s w)"

lemma tracks_atE:
  assumes "tracks_at f m Q s w" and "m w = (r, v)"
  obtains es where "trace v = trace w @ es"
    and "\<forall>x. r = Val x \<longrightarrow> holds (Q x) (mrun f es s)" and "holds (\<lambda>_. True) (mrun f es s)"
proof -
  from assms obtain es where es: "trace v = trace w @ es"
    "case r of Val x \<Rightarrow> holds (Q x) (mrun f es s) | Halt h \<Rightarrow> holds (\<lambda>_. True) (mrun f es s)"
    by (metis fst_conv snd_conv tracks_at_def)
  then have "holds (\<lambda>_. True) (mrun f es s)" by (auto split: outcome.splits intro: holds_mono)
  with es that show thesis by (metis outcome.simps(5))
qed

lemma tracksI:
  "(\<And>w. \<exists>es. trace (snd (m w)) = trace w @ es \<and>
     (case fst (m w) of Val x \<Rightarrow> holds (Q x) (mrun f es s) | Halt h \<Rightarrow> holds (\<lambda>_. True) (mrun f es s))) \<Longrightarrow>
   tracks f m Q s"
  by (simp add: tracks_def tracks_at_def)

lemma tracksE:
  assumes "tracks f m Q s" and "m w = (r, v)"
  obtains es where "trace v = trace w @ es"
    and "\<forall>x. r = Val x \<longrightarrow> holds (Q x) (mrun f es s)" and "holds (\<lambda>_. True) (mrun f es s)"
  using assms tracks_atE unfolding tracks_def by metis

lemma tracks_mono: "tracks f m Q s \<Longrightarrow> (\<And>x t. Q x t \<Longrightarrow> Q' x t) \<Longrightarrow> tracks f m Q' s"
  unfolding tracks_def tracks_at_def by (fastforce split: outcome.splits intro: holds_mono)

lemma tracks_ret: "Q x s \<Longrightarrow> tracks f (ret x) Q s"
  by (simp add: tracks_def tracks_at_def ret_def)

lemma tracks_stop: "tracks f (stop h) Q s"
  by (simp add: tracks_def tracks_at_def stop_def)

lemma tracks_emit: "holds (Q ()) (f e s) \<Longrightarrow> tracks f (emit e) Q s"
  by (auto simp: tracks_def tracks_at_def emit_def split: verdict.splits)

lemma tracks_syscall:
  "holds (\<lambda>_. True) (f (Pending c) s) \<Longrightarrow> (\<And>r. holds (Q r) (f (Sys c r) s)) \<Longrightarrow> tracks f (syscall c) Q s"
  by (auto simp: tracks_def tracks_at_def syscall_def split: list.splits verdict.splits)
    (metis holds_simps(1,2,3) verdict.exhaust)+

text \<open>A rule for one world, which also says what the first part has returned there.\<close>

lemma tracks_at_bind:
  assumes m: "tracks_at f m P s w"
    and k: "\<And>x v t. m w = (Val x, v) \<Longrightarrow> P x t \<Longrightarrow> tracks_at f (k x) Q t v"
    and ap: "\<And>x. appends (k x)"
  shows "tracks_at f (bind m k) Q s w"
proof -
  obtain r v where mw: "m w = (r, v)" by (cases "m w")
  from m mw obtain es where es: "trace v = trace w @ es"
    "\<forall>x. r = Val x \<longrightarrow> holds (P x) (mrun f es s)" "holds (\<lambda>_. True) (mrun f es s)" by (rule tracks_atE)
  show ?thesis
  proof (cases r)
    case (Halt h)
    with mw es show ?thesis by (auto simp: tracks_at_def bind_def)
  next
    case (Val x)
    obtain r' u where ku: "k x v = (r', u)" by (cases "k x v")
    show ?thesis
    proof (cases "mrun f es s")
      case (At t)
      with es(2)[rule_format, OF Val] have "P x t" by simp
      from tracks_atE[OF k[OF mw[unfolded Val] this] ku] obtain fs where "trace u = trace v @ fs"
        "\<forall>y. r' = Val y \<longrightarrow> holds (Q y) (mrun f fs t)" "holds (\<lambda>_. True) (mrun f fs t)" by blast
      with At Val mw ku es(1) show ?thesis
        by (auto simp: tracks_at_def bind_def mrun_append split: outcome.splits intro!: exI[of _ "es @ fs"])
    next
      case Broken
      from ap ku obtain fs where "trace u = trace v @ fs" by (rule emitsD)
      with Broken Val mw ku es(1) show ?thesis
        by (auto simp: tracks_at_def bind_def mrun_append split: outcome.splits intro!: exI[of _ "es @ fs"])
    qed (use es(3) in simp)
  qed
qed

lemma tracks_bind:
  "tracks f m P s \<Longrightarrow> (\<And>x t. P x t \<Longrightarrow> tracks f (k x) Q t) \<Longrightarrow> (\<And>x. appends (k x)) \<Longrightarrow>
   tracks f (bind m k) Q s"
  unfolding tracks_def by (blast intro: tracks_at_bind)

lemma tracks_seq:
  "tracks f m (\<lambda>_ t. tracks f n Q t) s \<Longrightarrow> appends n \<Longrightarrow> tracks f (seq m n) Q s"
  unfolding seq_def by (rule tracks_bind)

lemma tracks_icall:
  assumes "holds (\<lambda>_. True) (f (Pending c) s)" and "\<And>r. holds (Q (retval r)) (f (Sys c r) s)"
  shows "tracks f (icall c) Q s"
  unfolding icall_def
  by (rule tracks_bind[where P = "\<lambda>r. Q (retval r)"])
    (auto intro: tracks_syscall tracks_ret assms emits_intros)

lemma tracks_if:
  "(b \<Longrightarrow> tracks f m Q s) \<Longrightarrow> (\<not> b \<Longrightarrow> tracks f n Q s) \<Longrightarrow> tracks f (if b then m else n) Q s"
  by simp

lemma tracks_skip: "Q () s \<Longrightarrow> tracks f skip Q s"
  by (simp add: skip_def tracks_ret)

lemma tracks_whenp:
  "(b \<Longrightarrow> tracks f m Q s) \<Longrightarrow> (\<not> b \<Longrightarrow> Q () s) \<Longrightarrow> tracks f (whenp b m) Q s"
  by (simp add: whenp_def tracks_skip)

lemma appends_iff: "appends m \<longleftrightarrow> (\<forall>w. extends w (snd (m w)))"
  by (auto simp: emits_def extends_def list_all_iff)

lemma tracks_not_wrong:
  assumes "tracks f m Q s"
  shows "\<exists>es. trace (snd (m w)) = trace w @ es \<and> mrun f es s \<noteq> Wrong"
proof -
  obtain r v where rv: "m w = (r, v)" by (cases "m w")
  from assms rv obtain es where "trace v = trace w @ es" "holds (\<lambda>_. True) (mrun f es s)" by (rule tracksE)
  with rv show ?thesis by auto
qed

text \<open>A program all of whose events leave the monitor where it is.\<close>

lemma tracks_silent:
  assumes "emits (\<lambda>e. f e s = At s) m" and "\<And>x. Q x s"
  shows "tracks f m Q s"
proof (rule tracksI)
  fix w
  obtain r v where mw: "m w = (r, v)" by (cases "m w")
  with assms(1) obtain es where es: "trace v = trace w @ es" "list_all (\<lambda>e. f e s = At s) es" by (rule emitsD)
  have "mrun f es s = At s" using es(2) by (induction es) auto
  with mw es(1) assms(2) show "\<exists>es. trace (snd (m w)) = trace w @ es \<and>
     (case fst (m w) of Val x \<Rightarrow> holds (Q x) (mrun f es s) | Halt h \<Rightarrow> holds (\<lambda>_. True) (mrun f es s))"
    by (auto split: outcome.splits)
qed

lemma tracks_quiet_bind:
  assumes "emits (\<lambda>e. f e s = At s) m" and "\<And>x. tracks f (k x) Q s" and "\<And>x. appends (k x)"
  shows "tracks f (bind m k) Q s"
proof (rule tracks_bind[where P = "\<lambda>_ t. t = s"])
  show "tracks f m (\<lambda>_ t. t = s) s" using assms(1) by (rule tracks_silent) simp
qed (use assms in auto)

lemma tracks_quiet_seq:
  "emits (\<lambda>e. f e s = At s) m \<Longrightarrow> tracks f n Q s \<Longrightarrow> appends n \<Longrightarrow> tracks f (seq m n) Q s"
  unfolding seq_def by (rule tracks_quiet_bind)

lemmas tracks_quiet = tracks_quiet_bind tracks_quiet_seq tracks_if tracks_stop

lemma tracks_for_each:
  assumes "\<And>x xs s. J (x # xs) s \<Longrightarrow> tracks f (m x) (\<lambda>_ t. J xs t) s" and "\<And>x. appends (m x)"
  shows "J xs s \<Longrightarrow> tracks f (for_each xs m) (\<lambda>_ t. J [] t) s"
proof (induction xs arbitrary: s)
  case Nil
  then show ?case by (simp add: tracks_skip)
next
  case (Cons x xs)
  have "tracks f (m x) (\<lambda>_ t. tracks f (for_each xs m) (\<lambda>_ t. J [] t) t) s"
    by (rule tracks_mono[OF assms(1)[OF Cons.prems]]) (rule Cons.IH)
  then show ?case by (auto intro: tracks_seq emits_intros assms(2))
qed

lemma tracks_bind_wp: "tracks f m (\<lambda>x t. tracks f (k x) Q t) s \<Longrightarrow> (\<And>x. appends (k x)) \<Longrightarrow> tracks f (bind m k) Q s"
  by (rule tracks_bind)

lemma tracks_get_errno: "(\<And>e. Q e s) \<Longrightarrow> tracks f get_errno Q s"
  by (simp add: tracks_def tracks_at_def get_errno_def)

lemmas tracks_wp = tracks_bind_wp tracks_seq tracks_icall tracks_syscall tracks_emit tracks_if tracks_whenp tracks_ret
  tracks_stop tracks_skip tracks_get_errno

context service
begin

lemma appends_loop: "(\<And>st. appends (body st)) \<Longrightarrow> appends (loop st)"
  by (rule emits_loop)

lemma tracks_loop:
  assumes step: "\<And>st s. J st s \<Longrightarrow> tracks f (body st) J s" and ap: "\<And>st. appends (body st)"
  shows "J st s \<Longrightarrow> tracks f (loop st) (\<lambda>_ _. False) s"
proof -
  have "\<exists>es. trace (snd (loop st w)) = trace w @ es \<and> (\<exists>h. fst (loop st w) = Halt h) \<and>
      holds (\<lambda>_. True) (mrun f es s)" if "J st s" for st s w
    using that
  proof (induction "length (script w)" arbitrary: st s w rule: less_induct)
    case less
    obtain r v where bw: "body st w = (r, v)" by (cases "body st w")
    from tracksE[OF step[OF less.prems] bw] obtain es where es: "trace v = trace w @ es"
      "\<forall>x. r = Val x \<longrightarrow> holds (J x) (mrun f es s)" "holds (\<lambda>_. True) (mrun f es s)" by blast
    show ?case
    proof (cases r)
      case (Halt h)
      with bw es show ?thesis by (auto simp: loop_unfold[of st w] bind_def)
    next
      case (Val st')
      then have lw: "loop st w = loop st' v" using bw by (simp add: loop_unfold[of st w] bind_def)
      have dec: "length (script v) < length (script w)"
        using consumesD[OF body_consumes] bw Val by blast
      obtain h u where hu: "loop st' v = (Halt h, u)" using never_returns by blast
      show ?thesis
      proof (cases "mrun f es s")
        case (At t)
        with es(2)[rule_format, OF Val] have "J st' t" by simp
        from less.hyps[OF dec this] es(1) At lw show ?thesis by (auto simp: mrun_append)
      next
        case Broken
        from appends_loop[OF ap] hu obtain fs where "trace u = trace v @ fs" by (rule emitsD)
        with es(1) Broken lw hu show ?thesis by (auto simp: mrun_append)
      qed (use es(3) in simp)
    qed
  qed
  then show "J st s \<Longrightarrow> tracks f (loop st) (\<lambda>_ _. False) s"
    by (fastforce intro: tracksI)
qed

end

end
