(* ===== verification/SelectChat.thy ===== *)
theory SelectChat
  imports Monitor
begin

text \<open>
  \<^verbatim>\<open>src/ipc/net_sockets/inet_domain/beej_newer/select_svr_chat/selectserver.c\<close>, a chat
  server on \<open>select\<close>: what one client sends is sent on to all the others. A set
  of descriptors (\<open>fd_set\<close>) is a set of integers; putting a descriptor in that
  is not below \<open>FD_SETSIZE\<close> is undefined.
\<close>

section \<open>Definitions\<close>

text \<open>The macro \<open>VP\<close> of the file's \<^verbatim>\<open>convenient.h\<close>.\<close>

definition VP :: "bool \<Rightarrow> string \<Rightarrow> arg list \<Rightarrow> unit prog" where
  "VP verbose str args = whenp verbose (printf str args)"

abbreviation (input) VERBOSE :: bool where "VERBOSE \<equiv> True"
abbreviation (input) PORT :: string where "PORT \<equiv> ''9034''"
abbreviation (input) AF_INET :: int where "AF_INET \<equiv> 2"

definition chat_hexdump :: "string \<Rightarrow> nat \<Rightarrow> unit prog" where
  "chat_hexdump srcbuf len =
     seq (for_each [0..<len] (\<lambda>i. printf ''%02x '' [I (int (code (srcbuf ! i)))]))
         (printf [LF] [])"

text \<open>The address of the member: \<open>sin_addr\<close> is at offset 4, \<open>sin6_addr\<close> at 8.\<close>

definition get_in_addr :: "int \<Rightarrow> int \<Rightarrow> int" where
  "get_in_addr sa_family sa = (if sa_family = AF_INET then sa + 4 else sa + 8)"

text \<open>
  The search for an address to listen at. An entry of the list \<open>ai\<close> is its
  family, type and protocol. \<open>junk\<close> is what the uninitialised \<open>remoteaddr\<close>
  holds as its family and \<open>ra\<close> its address.
\<close>

fun chat_bind :: "int \<Rightarrow> int \<Rightarrow> (int \<times> int \<times> int) list \<Rightarrow> int option prog" where
  "chat_bind junk ra [] = ret None"
| "chat_bind junk ra ((family, socktype, protocol) # ps) =
     seq (VP VERBOSE (''Issuing socket() syscall now...'' @ [LF]) [])
    (bind (icall (Call ''socket'' [I family, I socktype, I protocol])) (\<lambda>listener.
       if listener < 0 then chat_bind junk ra ps
       else
         bind (icall (Call ''setsockopt'' [I listener, S ''SOL_SOCKET'', S ''SO_REUSEADDR'', I 1])) (\<lambda>_.
         seq (VP VERBOSE (''Issuing bind() syscall now: ip addr %x port %s...'' @ [LF])
                [I (get_in_addr junk ra), S PORT])
        (bind (icall (Call ''bind'' [I listener, I family, I socktype, I protocol])) (\<lambda>r.
           if r < 0 then bind (icall (Close listener)) (\<lambda>_. chat_bind junk ra ps)
           else ret (Some listener))))))"

text \<open>The variables of the main loop.\<close>

record chat =
  master :: "int set"
  fdmax :: int

definition FD_SET :: "int \<Rightarrow> int set \<Rightarrow> int set prog" where
  "FD_SET fd s =
     (if fd < 0 \<or> FD_SETSIZE \<le> fd then stop (Undef ''FD_SET out of range'') else ret (insert fd s))"

definition chat_accept :: "int \<Rightarrow> chat \<Rightarrow> chat prog" where
  "chat_accept listener st =
     bind (icall (Call ''accept'' [I listener])) (\<lambda>newfd.
       if newfd = -1 then seq (perror ''accept'') (ret st)
       else
         bind (FD_SET newfd (master st)) (\<lambda>m.
         bind (syscall (Call ''inet_ntop'' [I newfd])) (\<lambda>remoteIP.
         seq (printf (''selectserver: +++ new connection from %s on socket %d'' @ [LF])
                [S (payload remoteIP), I newfd])
           (ret (st\<lparr>master := m, fdmax := (if fdmax st < newfd then newfd else fdmax st)\<rparr>)))))"

text \<open>Sending on what client \<open>i\<close> has sent.\<close>

definition chat_send :: "int \<Rightarrow> int \<Rightarrow> chat \<Rightarrow> string \<Rightarrow> unit prog" where
  "chat_send listener i st buf =
     for_each [0..fdmax st] (\<lambda>j.
       whenp (j \<in> master st \<and> j \<noteq> listener \<and> j \<noteq> i)
         (bind (icall (Send j buf)) (\<lambda>r. whenp (r = -1) (perror ''send''))))"

definition chat_show :: "string \<Rightarrow> unit prog" where
  "chat_show buf =
     seq (VP VERBOSE (''Got data, broadcast it to all ...'' @ [LF]) [])
    (seq (printf (''Data (%d bytes):In char::'' @ [LF]) [I (int (length buf))])
    (seq (for_each [0..<length buf] (\<lambda>k. printf ''%c '' [Ch (buf ! k)]))
    (seq (printf ([LF] @ ''In hex::'' @ [LF]) [])
         (chat_hexdump buf (length buf)))))"

definition chat_recv :: "int \<Rightarrow> int \<Rightarrow> chat \<Rightarrow> chat prog" where
  "chat_recv listener i st =
     seq (VP VERBOSE (''Issue recv() (on read fd %d)...'' @ [LF]) [I i])
    (bind (syscall (Recv i 256 False)) (\<lambda>r.
       let nbytes = retval r in
       if nbytes \<le> 0 then
         seq (if nbytes = 0 then printf (''selectserver: socket %d hung up'' @ [LF]) [I i]
              else perror ''recv'')
        (bind (icall (Close i)) (\<lambda>_. ret (st\<lparr>master := master st - {i}\<rparr>)))
       else
         seq (chat_show (payload r))
        (seq (chat_send listener i st (payload r)) (ret st))))"

text \<open>What is done for a descriptor \<open>i\<close> that is ready.\<close>

definition chat_ready :: "int \<Rightarrow> int \<Rightarrow> chat \<Rightarrow> chat prog" where
  "chat_ready listener i st =
     seq (VP VERBOSE (''Got a connection (on read fd %d), issue accept() ...'' @ [LF]) [I i])
       (if i = listener then chat_accept listener st else chat_recv listener i st)"

lemma shrinks_chat_send: "shrinks (chat_send listener i st buf)"
  unfolding chat_send_def by (intro shrink_intros)

lemma shrinks_chat_show: "shrinks (chat_show buf)"
  unfolding chat_show_def VP_def chat_hexdump_def by (intro shrink_intros)

lemma consumes_chat_ready: "consumes (chat_ready listener i st)"
  unfolding chat_ready_def chat_accept_def chat_recv_def FD_SET_def VP_def Let_def
  by (intro consumes_seq2 consumes_if consumes_bind1 consumes_icall consumes_syscall shrink_intros
      shrinks_chat_send shrinks_chat_show)

text \<open>
  The scan over the descriptors; \<open>fdmax\<close> can grow while it goes on.
\<close>

function chat_scan :: "int \<Rightarrow> int set \<Rightarrow> int \<Rightarrow> chat \<Rightarrow> chat prog" where
  "chat_scan listener read_fds i st w =
     (if fdmax st < i then ret st w
      else if i \<in> read_fds then
        bind (chat_ready listener i st) (\<lambda>st w. chat_scan listener read_fds (i + 1) st w) w
      else chat_scan listener read_fds (i + 1) st w)"
  by pat_completeness auto
termination
  by (relation "measures [\<lambda>(l, fds, i, st, w). length (script w), \<lambda>(l, fds, i, st, w). nat (fdmax st + 1 - i)]")
    (auto dest: consumesD[OF consumes_chat_ready])

declare chat_scan.simps [simp del]

text \<open>
  One turn of the main loop. The reply to \<open>select\<close> lists the descriptors it
  leaves in \<open>read_fds\<close>.
\<close>

definition chat_body :: "int \<Rightarrow> chat \<Rightarrow> chat prog" where
  "chat_body listener st =
     seq (VP VERBOSE (''Issuing select() syscall now...'' @ [LF]) [])
    (bind (syscall (Call ''select'' [I (fdmax st + 1)])) (\<lambda>r.
       if retval r = -1 then seq (perror ''select'') (exit_prog 4)
       else seq (VP VERBOSE (''select() unblocked...'' @ [LF]) [])
                (chat_scan listener (set (outs r)) 0 st)))"

lemma shrinks_chat_scan: "shrinks (chat_scan listener fds i st)"
  unfolding shrinks_def
proof
  fix w show "length (script (snd (chat_scan listener fds i st w))) \<le> length (script w)"
  proof (induction listener fds i st w rule: chat_scan.induct)
    case (1 listener fds i st w)
    show ?case
    proof (cases "chat_ready listener i st w")
      case (Pair r v)
      have "length (script v) \<le> length (script w)"
        using consumes_chat_ready Pair by (auto simp: consumes_def dest: shrinksD)
      with 1 Pair show ?thesis
        by (subst chat_scan.simps) (auto simp: ret_apply bind_apply split: outcome.splits
            dest: order_trans)
    qed
  qed
qed

lemma consumes_chat_body: "consumes (chat_body listener st)"
  unfolding chat_body_def VP_def
  by (intro consumes_seq2 consumes_bind1 consumes_syscall shrink_intros shrinks_chat_scan)

function chat_loop :: "int \<Rightarrow> chat \<Rightarrow> unit prog" where
  "chat_loop listener st w = bind (chat_body listener st) (\<lambda>st w. chat_loop listener st w) w"
  by pat_completeness auto
termination
  by (relation "measure (\<lambda>(l, st, w). length (script w))")
    (auto dest: consumesD[OF consumes_chat_body])

declare chat_loop.simps [simp del]

interpretation chat: service "chat_body listener" "chat_loop listener" for listener
  by unfold_locales (rule chat_loop.simps, rule consumes_chat_body)

text \<open>
  \<open>addrs\<close> groups what \<open>getaddrinfo\<close> returned into the entries of its list. The
  message of \<open>gai_strerror\<close> is printed by its number.
\<close>

fun addrs :: "int list \<Rightarrow> (int \<times> int \<times> int) list" where
  "addrs (a # b # c # xs) = (a, b, c) # addrs xs"
| "addrs _ = []"

definition selectserver_main :: "int \<Rightarrow> int \<Rightarrow> unit prog" where
  "selectserver_main junk ra =
     seq (VP VERBOSE (''Issuing getaddrinfo() syscall now...'' @ [LF]) [])
    (bind (syscall (Call ''getaddrinfo'' [S ''NULL'', S PORT, S ''AF_INET'', S ''SOCK_STREAM'', S ''AI_PASSIVE'']))
       (\<lambda>r.
       if retval r \<noteq> 0 then
         seq (eprintf (''selectserver: %s'' @ [LF]) [I (retval r)]) (exit_prog 1)
       else
         bind (chat_bind junk ra (addrs (outs r))) (\<lambda>p.
           case p of
             None \<Rightarrow> seq (eprintf (''selectserver: failed to bind'' @ [LF]) []) (exit_prog 2)
           | Some listener \<Rightarrow>
               seq (emit (Did ''freeaddrinfo'' []))
              (bind (icall (Call ''listen'' [I listener, I 10])) (\<lambda>l.
                 if l = -1 then seq (perror ''listen'') (exit_prog 3)
                 else
                   bind (FD_SET listener {}) (\<lambda>m.
                     chat_loop listener \<lparr>master = m, fdmax = listener\<rparr>))))))"

section \<open>The protocol of the chat\<close>

text \<open>
  The room as an observer of the calls sees it: who is connected, which
  messages have yet to be sent on and to whom, and who is being disconnected.
\<close>

record room =
  members :: "int set"
  unsent :: "(int \<times> string) list"
  leaving :: "int option"

definition idle :: "room \<Rightarrow> bool" where
  "idle rm \<longleftrightarrow> unsent rm = [] \<and> leaving rm = None"

text \<open>
  The kernel is relied on to return descriptors from \<open>accept\<close> that are not in
  use, and from \<open>select\<close> only descriptors it was asked about.
\<close>

fun room_event :: "int \<Rightarrow> room monitor" where
  "room_event listener (Sys (Call f xs) r) rm =
     (if f = ''accept'' then
        if \<not> idle rm then Wrong
        else if retval r = -1 then At rm
        else if retval r < 0 \<or> retval r = listener \<or> retval r \<in> members rm then Broken
        else At (rm\<lparr>members := insert (retval r) (members rm)\<rparr>)
      else if f = ''select'' \<and> \<not> set (outs r) \<subseteq> insert listener (members rm) then Broken
      else At rm)"
| "room_event listener (Sys (Recv i n p) r) rm =
     (if \<not> idle rm \<or> i \<notin> members rm then Wrong
      else if retval r \<le> 0 then At (rm\<lparr>leaving := Some i\<rparr>)
      else At (rm\<lparr>unsent := map (\<lambda>j. (j, payload r)) (sorted_list_of_set (members rm - {i}))\<rparr>))"
| "room_event listener (Sys (Close i) r) rm =
     (if leaving rm \<noteq> Some i then Wrong
      else At (rm\<lparr>members := members rm - {i}, leaving := None\<rparr>))"
| "room_event listener (Sys (Send j s) r) rm =
     (case unsent rm of
        [] \<Rightarrow> Wrong
      | x # xs \<Rightarrow> if x = (j, s) then At (rm\<lparr>unsent := xs\<rparr>) else Wrong)"
| "room_event listener _ rm = At rm"

text \<open>How the variables of the server relate to the room between two descriptors.\<close>

definition in_room :: "int \<Rightarrow> chat \<Rightarrow> room \<Rightarrow> bool" where
  "in_room listener st rm \<longleftrightarrow> idle rm \<and> finite (members rm) \<and> listener \<notin> members rm \<and>
     master st = insert listener (members rm) \<and> (\<forall>j \<in> master st. 0 \<le> j \<and> j \<le> fdmax st)"

lemma room_silent:
  "(\<And>f xs r. e \<noteq> Sys (Call f xs) r) \<Longrightarrow> (\<And>i n p r. e \<noteq> Sys (Recv i n p) r) \<Longrightarrow>
   (\<And>i r. e \<noteq> Sys (Close i) r) \<Longrightarrow> (\<And>j s r. e \<noteq> Sys (Send j s) r) \<Longrightarrow>
   (\<And>i n r. e \<noteq> Sys (Read i n) r) \<Longrightarrow> room_event listener e rm = At rm"
  by (cases "(listener, e, rm)" rule: room_event.cases) auto

lemma sorted_members:
  assumes "finite M" "\<forall>j \<in> M. 0 \<le> j \<and> j \<le> n"
  shows "filter (\<lambda>j. j \<in> M) [0..n] = sorted_list_of_set (M :: int set)"
  using assms by (intro sorted_distinct_set_unique) (auto simp: sorted_wrt_filter)

lemma appends_chat_send: "appends (chat_send listener i st buf)"
  unfolding chat_send_def by (intro emits_intros TrueI)

lemma appends_chat_show: "appends (chat_show buf)"
  unfolding chat_show_def VP_def chat_hexdump_def by (intro emits_intros TrueI)

lemma tracks_chat_send:
  assumes "in_room listener st rm" "i \<in> members rm"
  shows "tracks (room_event listener) (chat_send listener i st s) (\<lambda>_ t. t = rm)
    (rm\<lparr>unsent := map (\<lambda>j. (j, s)) (sorted_list_of_set (members rm - {i}))\<rparr>)"
proof -
  let ?J = "\<lambda>js t. t = rm\<lparr>unsent := map (\<lambda>j. (j, s)) js\<rparr>"
  let ?m = "\<lambda>j. bind (icall (Send j s)) (\<lambda>r. whenp (r = -1) (perror ''send''))"
  have one: "tracks (room_event listener) (?m j) (\<lambda>_ t. ?J js t) t" if "?J (j # js) t" for j js t
    using that
    by (intro tracks_bind[where P = "\<lambda>_ t. ?J js t"] tracks_icall tracks_whenp tracks_emit emits_intros TrueI)
      auto
  have js: "filter (\<lambda>j. j \<in> master st \<and> j \<noteq> listener \<and> j \<noteq> i) [0..fdmax st] =
      sorted_list_of_set (members rm - {i})"
    using assms unfolding in_room_def
    by (subst sorted_members[symmetric, of _ "fdmax st"]) (auto intro!: filter_cong)
  have "tracks (room_event listener) (for_each (sorted_list_of_set (members rm - {i})) ?m) (\<lambda>_ t. ?J [] t)
      (rm\<lparr>unsent := map (\<lambda>j. (j, s)) (sorted_list_of_set (members rm - {i}))\<rparr>)"
    by (rule tracks_for_each[of ?J]) (auto intro: one emits_intros)
  moreover have "?J [] t \<longleftrightarrow> t = rm" for t using assms by (cases rm) (simp add: in_room_def idle_def)
  ultimately show ?thesis unfolding chat_send_def for_each_whenp js by simp
qed


lemma tracks_chat_recv:
  assumes "in_room listener st rm" "i \<in> members rm"
  shows "tracks (room_event listener) (chat_recv listener i st) (in_room listener) rm"
proof -
  have show': "tracks (room_event listener) (chat_show s) (\<lambda>_ t. t = rm') rm'" for s rm'
    unfolding chat_show_def VP_def chat_hexdump_def
    by (rule tracks_silent, intro emits_intros) simp_all
  have close': "tracks (room_event listener)
      (bind (icall (Close i)) (\<lambda>_. ret (st\<lparr>master := master st - {i}\<rparr>)))
      (in_room listener) (rm\<lparr>leaving := Some i\<rparr>)"
    using assms
    by (intro tracks_bind[where P = "\<lambda>_. in_room listener (st\<lparr>master := master st - {i}\<rparr>)"]
        tracks_icall tracks_ret emits_intros TrueI)
      (auto simp: in_room_def idle_def)
  have quit: "tracks (room_event listener)
      (seq (if b then printf f xs else perror m) (bind (icall (Close i)) (\<lambda>_. ret (st\<lparr>master := master st - {i}\<rparr>))))
      (in_room listener) (rm\<lparr>leaving := Some i\<rparr>)" for b f xs m
    using close' by (intro tracks_seq tracks_if tracks_emit emits_intros TrueI) auto
  have send': "tracks (room_event listener) (seq (chat_send listener i st s) (ret st))
      (in_room listener) (rm\<lparr>unsent := map (\<lambda>j. (j, s)) (sorted_list_of_set (members rm - {i}))\<rparr>)" for s
    by (rule tracks_seq[OF tracks_mono[OF tracks_chat_send[OF assms]]])
      (auto intro: tracks_ret emits_intros assms(1))
  have relay: "tracks (room_event listener) (seq (chat_show s) (seq (chat_send listener i st s) (ret st)))
      (in_room listener) (rm\<lparr>unsent := map (\<lambda>j. (j, s)) (sorted_list_of_set (members rm - {i}))\<rparr>)" for s
    by (rule tracks_seq[OF tracks_mono[OF show']])
      (auto intro: send' emits_intros appends_chat_send)
  let ?k = "\<lambda>r. if retval r \<le> 0 then
      seq (if retval r = 0 then printf (''selectserver: socket %d hung up'' @ [LF]) [I i] else perror ''recv'')
        (bind (icall (Close i)) (\<lambda>_. ret (st\<lparr>master := master st - {i}\<rparr>)))
    else seq (chat_show (payload r)) (seq (chat_send listener i st (payload r)) (ret st))"
  let ?P = "\<lambda>r t. t = (if retval r \<le> 0 then rm\<lparr>leaving := Some i\<rparr>
      else rm\<lparr>unsent := map (\<lambda>j. (j, payload r)) (sorted_list_of_set (members rm - {i}))\<rparr>)"
  have ap: "appends (?k r)" for r
    by (intro emits_intros appends_chat_show appends_chat_send TrueI)
  have "tracks (room_event listener) (syscall (Recv i 256 False)) ?P rm"
    using assms by (intro tracks_syscall) (auto simp: in_room_def)
  then have "tracks (room_event listener) (bind (syscall (Recv i 256 False)) ?k) (in_room listener) rm"
    by (rule tracks_bind) (use quit relay ap in auto)
  moreover have "appends (bind (syscall (Recv i 256 False)) ?k)" by (intro emits_bind emits_syscall ap TrueI)
  ultimately show ?thesis
    unfolding chat_recv_def Let_def VP_def
    by (intro tracks_seq tracks_whenp tracks_emit) simp_all
qed

lemma appends_chat_ready: "appends (chat_ready listener i st)"
  unfolding chat_ready_def chat_accept_def chat_recv_def FD_SET_def VP_def Let_def
  by (intro emits_intros appends_chat_show appends_chat_send TrueI)

lemma tracks_chat_accept:
  assumes "in_room listener st rm"
  shows "tracks (room_event listener) (chat_accept listener st) (in_room listener) rm"
proof -
  let ?P = "\<lambda>n t. if n = -1 then t = rm else in_room listener
      (st\<lparr>master := insert n (master st), fdmax := (if fdmax st < n then n else fdmax st)\<rparr>) t"
  let ?k = "\<lambda>newfd. if newfd = -1 then seq (perror ''accept'') (ret st)
       else bind (FD_SET newfd (master st)) (\<lambda>m.
         bind (syscall (Call ''inet_ntop'' [I newfd])) (\<lambda>remoteIP.
         seq (printf (''selectserver: +++ new connection from %s on socket %d'' @ [LF])
                [S (payload remoteIP), I newfd])
           (ret (st\<lparr>master := m, fdmax := (if fdmax st < newfd then newfd else fdmax st)\<rparr>))))"
  have ap: "appends (?k n)" for n unfolding FD_SET_def by (intro emits_intros TrueI)
  have k: "tracks (room_event listener) (?k n) (in_room listener) t" if "?P n t" for n t
  proof (cases "n = -1")
    case True
    with that assms show ?thesis by (auto intro!: tracks_seq tracks_emit tracks_ret emits_intros)
  next
    case False
    show ?thesis
    proof (cases "n < 0 \<or> FD_SETSIZE \<le> n")
      case True
      with False show ?thesis by (simp add: FD_SET_def tracks_stop)
    next
      case ok: False
      let ?st = "st\<lparr>master := insert n (master st), fdmax := (if fdmax st < n then n else fdmax st)\<rparr>"
      have "tracks (room_event listener) (bind (syscall (Call ''inet_ntop'' [I n])) (\<lambda>ip.
          seq (printf f [S (payload ip), I n]) (ret ?st))) (in_room listener) t" for f
        by (rule tracks_bind[where P = "\<lambda>_ u. u = t"])
          (use that False in \<open>auto intro!: tracks_syscall tracks_seq tracks_emit tracks_ret emits_intros\<close>)
      with ok False show ?thesis by (simp add: FD_SET_def)
    qed
  qed
  have "tracks (room_event listener) (icall (Call ''accept'' [I listener])) ?P rm"
    using assms by (intro tracks_icall) (auto simp: in_room_def idle_def, fastforce)
  then show ?thesis unfolding chat_accept_def by (rule tracks_bind) (rule k, assumption, rule ap)
qed


lemma tracks_chat_ready:
  assumes "in_room listener st rm" "i \<in> insert listener (members rm)"
  shows "tracks (room_event listener) (chat_ready listener i st) (in_room listener) rm"
proof -
  have ap: "appends (if i = listener then chat_accept listener st else chat_recv listener i st)"
    using appends_chat_ready[of listener i st]
    unfolding chat_accept_def chat_recv_def FD_SET_def VP_def Let_def
    by (intro emits_intros appends_chat_show appends_chat_send TrueI)
  show ?thesis
    unfolding chat_ready_def VP_def
    using assms tracks_chat_accept[OF assms(1)] tracks_chat_recv[OF assms(1)] ap
    by (intro tracks_seq tracks_whenp tracks_emit) auto
qed

text \<open>
  While descriptors are scanned members may leave and join; those that were
  ready and have not been reached yet are still there.
\<close>

lemma chat_ready_keeps:
  assumes "chat_ready listener i st w = (Val st', v)"
  shows "master st - {i} \<subseteq> master st'"
  using assms
  by (auto simp: chat_ready_def chat_accept_def chat_recv_def FD_SET_def VP_def Let_def prog_simps icall_def
      bind_def syscall_def split: if_splits prod.splits outcome.splits list.splits)


lemma appends_chat_scan: "appends (chat_scan listener fds i st)"
  unfolding appends_iff
proof
  fix w show "extends w (snd (chat_scan listener fds i st w))"
  proof (induction listener fds i st w rule: chat_scan.induct)
    case (1 listener fds i st w)
    obtain r v where rv: "chat_ready listener i st w = (r, v)" by (cases "chat_ready listener i st w")
    have "extends w v" using appends_chat_ready rv by (rule emits_extends)
    with 1 rv show ?case
      by (subst chat_scan.simps) (auto simp: ret_apply bind_apply split: outcome.splits intro: extends_trans)
  qed
qed

lemma tracks_chat_scan:
  "in_room listener st rm \<Longrightarrow> {j \<in> fds. i \<le> j} \<subseteq> master st \<Longrightarrow>
   tracks_at (room_event listener) (chat_scan listener fds i st) (in_room listener) rm w"
proof (induction listener fds i st w arbitrary: rm rule: chat_scan.induct)
  case (1 listener fds i st w)
  note pre = "1.prems"
  consider (over) "fdmax st < i" | (ready) "\<not> fdmax st < i" "i \<in> fds" | (other) "\<not> fdmax st < i" "i \<notin> fds"
    by blast
  then show ?case
  proof cases
    case over
    then have "chat_scan listener fds i st w = ret st w" by (simp add: chat_scan.simps)
    with pre(1) show ?thesis by (simp add: tracks_at_def ret_apply)
  next
    case ready
    then have eq: "chat_scan listener fds i st w =
        bind (chat_ready listener i st) (\<lambda>st. chat_scan listener fds (i + 1) st) w"
      by (simp add: chat_scan.simps[of listener fds i st w])
    have i: "i \<in> insert listener (members rm)" using pre ready(2) by (auto simp: in_room_def)
    have "tracks_at (room_event listener) (bind (chat_ready listener i st) (\<lambda>st. chat_scan listener fds (i + 1) st))
        (in_room listener) rm w"
    proof (rule tracks_at_bind)
      show "tracks_at (room_event listener) (chat_ready listener i st) (in_room listener) rm w"
        using tracks_chat_ready[OF pre(1) i] by (simp add: tracks_def)
      fix st' v t assume st': "chat_ready listener i st w = (Val st', v)" "in_room listener st' t"
      have "{j \<in> fds. i + 1 \<le> j} \<subseteq> master st'"
        using chat_ready_keeps[OF st'(1)] pre(2) by (fastforce simp: subset_iff)
      from "1.IH"(1)[OF ready st' this]
      show "tracks_at (room_event listener) (chat_scan listener fds (i + 1) st') (in_room listener) t v" .
    qed (rule appends_chat_scan)
    with eq show ?thesis by (simp add: tracks_at_def)
  next
    case other
    have "chat_scan listener fds i st w = chat_scan listener fds (i + 1) st w"
      using other by (simp add: chat_scan.simps[of listener fds i st w])
    moreover have "{j \<in> fds. i + 1 \<le> j} \<subseteq> master st" using pre(2) by auto
    ultimately show ?thesis using "1.IH"(2)[OF other pre(1)] by (simp add: tracks_at_def)
  qed
qed

lemma tracks_chat_body:
  assumes "in_room listener st rm"
  shows "tracks (room_event listener) (chat_body listener st) (in_room listener) rm"
proof -
  let ?k = "\<lambda>r. if retval r = -1 then seq (perror ''select'') (exit_prog 4)
       else seq (VP VERBOSE (''select() unblocked...'' @ [LF]) [])
                (chat_scan listener (set (outs r)) 0 st)"
  have ap: "appends (?k r)" for r unfolding VP_def by (intro emits_intros appends_chat_scan TrueI)
  have "tracks (room_event listener) (syscall (Call ''select'' [I (fdmax st + 1)]))
      (\<lambda>r t. t = rm \<and> set (outs r) \<subseteq> insert listener (members rm)) rm"
    by (intro tracks_syscall) auto
  then have "tracks (room_event listener) (bind (syscall (Call ''select'' [I (fdmax st + 1)])) ?k)
      (in_room listener) rm"
  proof (rule tracks_bind)
    fix r t assume t: "t = rm \<and> set (outs r) \<subseteq> insert listener (members rm)"
    have "tracks (room_event listener) (chat_scan listener (set (outs r)) 0 st) (in_room listener) t"
      using assms t unfolding tracks_def by (auto intro!: tracks_chat_scan simp: in_room_def)
    then show "tracks (room_event listener) (?k r) (in_room listener) t"
      unfolding VP_def
      by (intro tracks_if tracks_seq tracks_emit tracks_whenp emits_intros appends_chat_scan)
        (simp_all add: tracks_stop)
  qed (rule ap)
  moreover have "appends (bind (syscall (Call ''select'' [I (fdmax st + 1)])) ?k)"
    by (intro emits_bind emits_syscall ap TrueI)
  ultimately show ?thesis
    unfolding chat_body_def VP_def[of _ "''Issuing select() syscall now...'' @ [LF]"]
    by (intro tracks_seq tracks_whenp tracks_emit) simp_all
qed


text \<open>The room before anyone has joined.\<close>

definition empty_room :: room where
  "empty_room = \<lparr>members = {}, unsent = [], leaving = None\<rparr>"

text \<open>
  C12: the server follows the protocol of the chat for ever: whatever a connected client
  sends is sent on, unchanged and before anything else is received, to every
  other connected client and to nobody else; who hangs up is disconnected; and
  it reads only from clients that are connected. This holds up to the first
  time the kernel returns a descriptor that is in use or reports one it was
  not asked about.
\<close>

theorem chat_relays:
  assumes "0 \<le> listener"
  shows "\<exists>es. trace (snd (chat_loop listener \<lparr>master = {listener}, fdmax = listener\<rparr> w)) = trace w @ es \<and>
    mrun (room_event listener) es empty_room \<noteq> Wrong"
proof -
  have ap: "appends (chat_body listener st)" for st
    unfolding chat_body_def VP_def by (intro emits_intros appends_chat_scan TrueI)
  have "tracks (room_event listener) (chat_loop listener \<lparr>master = {listener}, fdmax = listener\<rparr>)
      (\<lambda>_ _. False) empty_room"
    by (rule chat.tracks_loop[where J = "in_room listener", OF tracks_chat_body ap])
      (use assms in \<open>simp_all add: in_room_def empty_room_def idle_def\<close>)
  then show ?thesis by (rule tracks_not_wrong)
qed

theorem chat_relays_witness:
  "let w = boot [Outs 1 [3], Ret 4, Data ''10.0.0.1'', Outs 1 [3], Ret 5, Data ''10.0.0.2'',
         Outs 1 [4], Data ''hi'', Ret 2];
       es = trace (snd (chat_loop 3 \<lparr>master = {3}, fdmax = 3\<rparr> w))
   in Sys (Send 5 ''hi'') (Ret 2) \<in> set es \<and> mrun (room_event 3) es empty_room \<noteq> Wrong"
proof -
  let ?w = "boot [Outs 1 [3], Ret 4, Data ''10.0.0.1'', Outs 1 [3], Ret 5, Data ''10.0.0.2'',
         Outs 1 [4], Data ''hi'', Ret 2]"
  have "Sys (Send 5 ''hi'') (Ret 2) \<in> set (trace (snd (chat_loop 3 \<lparr>master = {3}, fdmax = 3\<rparr> ?w)))"
    by (simp add: chat_loop.simps chat_body_def chat_scan.simps chat_ready_def chat_accept_def chat_recv_def
        chat_send_def chat_show_def chat_hexdump_def VP_def FD_SET_def run_defs upto.simps)
  with chat_relays[of 3 ?w] show ?thesis by (simp add: Let_def)
qed

end
