(* ===== verification/Threads.thy ===== *)
theory Threads
  imports Monitor
begin

text \<open>
  Threads and processes that share a lock. Each of them is a program of its
  own; what happens in the system is an interleaving of their traces, in which
  the kernel gives the lock to one at a time. If every thread keeps to the
  discipline of the lock in its own trace, then whoever uses what the lock
  protects is the holder of the lock.
\<close>

section \<open>The discipline of a lock\<close>

text \<open>
  What an event means for the lock: it has been acquired, it has been released,
  the protected resource is used, or nothing. \<open>Dropped\<close> is the end of the thread or
  process, with which the kernel takes the lock back if it has it. \<open>Refused\<close> is the
  error a thread gets that asks for a lock it has. \<open>Misuse\<close> is an answer of the
  kernel after which nothing is asked of the thread, such as the failure of a
  call that the source does not check. That a thread is given the lock again while
  it has it is no behaviour of the kernel either.
\<close>

datatype lock_act = Acquired | Released | Dropped | Refused | Uses | Neutral | Misuse

fun lock_disc :: "(event \<Rightarrow> lock_act) \<Rightarrow> bool monitor" where
  "lock_disc act e h = (case act e of
      Acquired \<Rightarrow> if h then Broken else At True
    | Released \<Rightarrow> if h then At False else Wrong
    | Dropped \<Rightarrow> At False
    | Refused \<Rightarrow> if h then At True else Broken
    | Uses \<Rightarrow> if h then At True else Wrong
    | Neutral \<Rightarrow> At h
    | Misuse \<Rightarrow> Broken)"

declare lock_disc.simps [simp del]

lemma lock_disc_simps [simp]:
  "act e = Acquired \<Longrightarrow> lock_disc act e h = (if h then Broken else At True)"
  "act e = Released \<Longrightarrow> lock_disc act e h = (if h then At False else Wrong)"
  "act e = Dropped \<Longrightarrow> lock_disc act e h = At False"
  "act e = Refused \<Longrightarrow> lock_disc act e h = (if h then At True else Broken)"
  "act e = Uses \<Longrightarrow> lock_disc act e h = (if h then At True else Wrong)"
  "act e = Neutral \<Longrightarrow> lock_disc act e h = At h"
  "act e = Misuse \<Longrightarrow> lock_disc act e h = Broken"
  by (simp_all add: lock_disc.simps)


section \<open>Interleavings\<close>

text \<open>An event with the thread it belongs to, and the events of one thread.\<close>

type_synonym gevent = "nat \<times> event"

definition events_of :: "nat \<Rightarrow> gevent list \<Rightarrow> event list" where
  "events_of t gs = map snd (filter (\<lambda>g. fst g = t) gs)"

lemma events_of_simps [simp]:
  "events_of t [] = []" "events_of t (g # gs) = (if fst g = t then [snd g] else []) @ events_of t gs"
  "events_of t (gs @ hs) = events_of t gs @ events_of t hs"
  by (simp_all add: events_of_def)

text \<open>Who holds the lock after a sequence of events.\<close>

fun holder_step :: "(event \<Rightarrow> lock_act) \<Rightarrow> gevent \<Rightarrow> nat option \<Rightarrow> nat option" where
  "holder_step act (t, e) h =
     (case act e of Acquired \<Rightarrow> Some t | Released \<Rightarrow> None
       | Dropped \<Rightarrow> if h = Some t then None else h | Refused \<Rightarrow> h | Uses \<Rightarrow> h | Neutral \<Rightarrow> h | Misuse \<Rightarrow> h)"

fun holder :: "(event \<Rightarrow> lock_act) \<Rightarrow> gevent list \<Rightarrow> nat option \<Rightarrow> nat option" where
  "holder act [] h = h"
| "holder act (g # gs) h = holder act gs (holder_step act g h)"

lemma holder_append: "holder act (gs @ hs) h = holder act hs (holder act gs h)"
  by (induction gs arbitrary: h) auto

text \<open>
  The promise of the kernel: the lock is only given to a thread while nobody
  holds it, it is refused only to the thread that holds it, and the calls on it do
  not fail otherwise.
\<close>

definition lock_granted :: "(event \<Rightarrow> lock_act) \<Rightarrow> gevent list \<Rightarrow> bool" where
  "lock_granted act gs \<longleftrightarrow>
     (\<forall>hs t e rest. gs = hs @ (t, e) # rest \<longrightarrow>
        (act e = Acquired \<longrightarrow> holder act hs None = None) \<and>
        (act e = Refused \<longrightarrow> holder act hs None = Some t) \<and> act e \<noteq> Misuse)"

text \<open>
  \<open>runs_of m gs\<close>: what each thread \<open>t\<close> has done in \<open>gs\<close> is the beginning of a run
  of its program \<open>m t\<close>.
\<close>

definition runs_of :: "(nat \<Rightarrow> 'a prog) \<Rightarrow> gevent list \<Rightarrow> bool" where
  "runs_of m gs \<longleftrightarrow> (\<forall>t. \<exists>w. trace w = [] \<and> prefix (events_of t gs) (trace (snd (m t w))))"

lemma mrun_prefix: "prefix xs ys \<Longrightarrow> mrun f ys s \<noteq> Wrong \<Longrightarrow> mrun f xs s \<noteq> Wrong"
  by (auto simp: prefix_def mrun_append split: verdict.splits)


section \<open>Mutual exclusion\<close>

locale lock_users =
  fixes act :: "event \<Rightarrow> lock_act" and thread :: "nat \<Rightarrow> 'a prog"
  assumes disciplined: "tracks (lock_disc act) (thread t) (\<lambda>_ _. True) False"
begin

lemma thread_ok: "runs_of thread gs \<Longrightarrow> mrun (lock_disc act) (events_of t gs) False \<noteq> Wrong"
  using tracks_not_wrong[OF disciplined] mrun_prefix unfolding runs_of_def by (metis append_Nil)

lemma runs_of_append: "runs_of thread (gs @ hs) \<Longrightarrow> runs_of thread gs"
  unfolding runs_of_def by (fastforce dest: append_prefixD)

lemma lock_granted_append: "lock_granted act (gs @ hs) \<Longrightarrow> lock_granted act gs"
  unfolding lock_granted_def by fastforce

text \<open>The state of each thread's discipline says whether it is the holder.\<close>

lemma holder_agrees:
  "runs_of thread gs \<Longrightarrow> lock_granted act gs \<Longrightarrow>
   \<forall>t. mrun (lock_disc act) (events_of t gs) False = At (holder act gs None = Some t)"
proof (induction gs rule: rev_induct)
  case (snoc g gs)
  obtain u e where g: "g = (u, e)" by (cases g)
  have granted: "act e = Acquired \<Longrightarrow> holder act gs None = None" "act e = Refused \<Longrightarrow> holder act gs None = Some u"
    "act e \<noteq> Misuse"
    using snoc.prems(2) unfolding lock_granted_def g by auto
  have ih: "\<forall>t. mrun (lock_disc act) (events_of t gs) False = At (holder act gs None = Some t)"
    using snoc runs_of_append lock_granted_append by blast
  have "mrun (lock_disc act) (events_of u (gs @ [g])) False \<noteq> Wrong"
    using snoc.prems(1) by (rule thread_ok)
  then have ok: "lock_disc act e (holder act gs None = Some u) \<noteq> Wrong"
    using ih by (auto simp: g mrun_append split: verdict.splits)
  show ?case
    using granted ok ih by (cases "act e") (auto simp: g mrun_append holder_append split: if_splits)
qed simp

lemma use_by_holder:
  assumes "runs_of thread (gs @ (t, e) # rest)" and "lock_granted act (gs @ (t, e) # rest)"
    and "act e = Uses \<or> act e = Released"
  shows "holder act gs None = Some t"
proof -
  have "runs_of thread (gs @ [(t, e)])" using assms(1) runs_of_append[of "gs @ [(t, e)]" rest] by simp
  then have "mrun (lock_disc act) (events_of t (gs @ [(t, e)])) False \<noteq> Wrong" by (rule thread_ok)
  moreover have "mrun (lock_disc act) (events_of t gs) False = At (holder act gs None = Some t)"
    using holder_agrees runs_of_append[OF assms(1)] lock_granted_append[OF assms(2)] by blast
  ultimately show ?thesis using assms(3) by (auto simp: mrun_append split: if_splits)
qed

text \<open>
  Mutual exclusion: from the moment a thread has acquired the lock until it
  releases it or ends, no other thread uses the resource.
\<close>

lemma exclusive:
  assumes "runs_of thread (gs @ (t, e) # mid @ (u, d) # rest)"
    and "lock_granted act (gs @ (t, e) # mid @ (u, d) # rest)"
    and "act e = Acquired" "act d = Uses" "\<forall>d'. (t, d') \<in> set mid \<longrightarrow> act d' \<noteq> Released \<and> act d' \<noteq> Dropped"
  shows "u = t"
proof -
  have "holder act (gs @ (t, e) # pre) None = Some t" if "prefix pre mid" for pre
    using that
  proof (induction pre rule: rev_induct)
    case Nil
    then show ?case using assms(3) by (simp add: holder_append)
  next
    case (snoc g pre)
    obtain v c where g: "g = (v, c)" by (cases g)
    obtain post where mid: "mid = pre @ (v, c) # post" using snoc.prems g by (auto simp: prefix_def)
    have h: "holder act (gs @ (t, e) # pre) None = Some t"
      using snoc by (meson append_prefixD)
    have "act c = Released \<Longrightarrow> v = t"
      using use_by_holder[of "gs @ (t, e) # pre" v c "post @ (u, d) # rest"] assms(1,2) h by (simp add: mid)
    then have "act c \<noteq> Released" "act c = Dropped \<Longrightarrow> v \<noteq> t" using assms(5) by (auto simp: mid)
    moreover have "act c \<noteq> Acquired"
      using assms(2) h unfolding lock_granted_def mid
      by (metis append.assoc append_Cons option.distinct(1))
    ultimately show ?case using h by (cases "act c") (auto simp: g holder_append)
  qed
  from this[of mid] use_by_holder[of "gs @ (t, e) # mid" u d rest] assms show ?thesis by simp
qed

end

text \<open>An executable form of what the kernel promises.\<close>

fun granted_from :: "(event \<Rightarrow> lock_act) \<Rightarrow> gevent list \<Rightarrow> nat option \<Rightarrow> bool" where
  "granted_from act [] h = True"
| "granted_from act ((t, e) # gs) h =
     ((act e = Acquired \<longrightarrow> h = None) \<and> (act e = Refused \<longrightarrow> h = Some t) \<and> act e \<noteq> Misuse \<and>
      granted_from act gs (holder_step act (t, e) h))"

lemma splits_Cons:
  "(\<forall>hs t e rest. (u, d) # gs = hs @ (t, e) # rest \<longrightarrow> P hs t e) \<longleftrightarrow>
   P [] u d \<and> (\<forall>hs t e rest. gs = hs @ (t, e) # rest \<longrightarrow> P ((u, d) # hs) t e)" (is "?l \<longleftrightarrow> ?r")
proof
  assume l: ?l
  show ?r using l[rule_format, of "[]" u d gs] l[rule_format, of "(u, d) # _"] by simp
next
  assume r: ?r
  show ?l
  proof (intro allI impI)
    fix hs t e rest assume "(u, d) # gs = hs @ (t, e) # rest"
    with r show "P hs t e" by (cases hs) auto
  qed
qed

lemma granted_from_iff:
  "granted_from act gs h \<longleftrightarrow> (\<forall>hs t e rest. gs = hs @ (t, e) # rest \<longrightarrow>
     (act e = Acquired \<longrightarrow> holder act hs h = None) \<and> (act e = Refused \<longrightarrow> holder act hs h = Some t) \<and> act e \<noteq> Misuse)"
proof (induction act gs h rule: granted_from.induct)
  case (2 act t e gs h)
  show ?case unfolding granted_from.simps(2) 2 splits_Cons by (simp only: holder.simps conj_assoc)
qed simp

lemma lock_granted_code: "lock_granted act gs \<longleftrightarrow> granted_from act gs None"
  unfolding lock_granted_def granted_from_iff by simp

lemma events_of_pair: "events_of t (map (Pair u) es) = (if t = u then es else [])"
  by (simp add: events_of_def filter_map o_def)

lemma runs_not_wrong:
  assumes "runs_of m gs" and "tracks f (m t) Q s"
  shows "mrun f (events_of t gs) s \<noteq> Wrong"
proof -
  from assms(1) obtain w where "trace w = []" "prefix (events_of t gs) (trace (snd (m t w)))"
    unfolding runs_of_def by blast
  with tracks_not_wrong[OF assms(2), of w] mrun_prefix show ?thesis by fastforce
qed

lemma length_filter_threads:
  "\<forall>g\<in>set gs. fst g < M \<Longrightarrow> length (filter P (map snd gs)) = (\<Sum>t<M. length (filter P (events_of t gs)))"
proof (induction gs)
  case (Cons g gs)
  have "(\<Sum>t<M. length (filter P (events_of t (g # gs)))) =
      (\<Sum>t<M. (if t = fst g \<and> P (snd g) then 1 else 0) + length (filter P (events_of t gs)))"
    by (rule sum.cong) auto
  also have "\<dots> = (\<Sum>t<M. if t = fst g \<and> P (snd g) then 1 else 0) + (\<Sum>t<M. length (filter P (events_of t gs)))"
    by (rule sum.distrib)
  also have "(\<Sum>t<M. if t = fst g \<and> P (snd g) then 1 else 0) = (if P (snd g) then 1 else (0::nat))"
    using Cons.prems by (cases "P (snd g)") (simp_all add: sum.delta)
  finally show ?case using Cons by simp
qed simp

lemma filter_threads_le:
  assumes "\<And>t. length (filter P (events_of t gs)) \<le> length (filter Q (events_of t gs))"
  shows "length (filter P (map snd gs)) \<le> length (filter Q (map snd gs))"
proof -
  obtain M where "\<forall>g\<in>set gs. fst g < M" by (metis finite_imageI finite_nat_set_iff_bounded finite_set imageI)
  then show ?thesis using assms by (simp only: length_filter_threads sum_mono)
qed

lemma events_of_split:
  "events_of t gs = xs @ e # ys \<Longrightarrow> \<exists>g1 g2. gs = g1 @ (t, e) # g2 \<and> events_of t g1 = xs \<and> events_of t g2 = ys"
proof (induction gs arbitrary: xs)
  case (Cons g gs)
  show ?case
  proof (cases "fst g = t \<and> xs = []")
    case True
    with Cons.prems have "g # gs = [] @ (t, e) # gs" "events_of t gs = ys" by (cases g, auto)
    with True show ?thesis by (metis events_of_simps(1))
  next
    case False
    define xs' where "xs' = (if fst g = t then tl xs else xs)"
    from False Cons.prems have "events_of t gs = xs' @ e # ys" by (auto simp: xs'_def split: if_splits) (metis hd_Cons_tl list.inject append_Cons)
    from Cons.IH[OF this] obtain g1 g2 where g: "gs = g1 @ (t, e) # g2" "events_of t g1 = xs'" "events_of t g2 = ys" by blast
    have "events_of t (g # g1) = xs"
      using False Cons.prems g(2) by (auto simp: xs'_def split: if_splits) (metis append_Cons hd_Cons_tl list.sel(1))
    with g show ?thesis by (metis append_Cons)
  qed
qed simp

lemma filter_one_thread:
  "(\<And>t. t \<noteq> u \<Longrightarrow> filter P (events_of t gs) = []) \<Longrightarrow> filter P (map snd gs) = filter P (events_of u gs)"
proof (induction gs)
  case (Cons g gs)
  have "filter P (events_of t gs) = []" if "t \<noteq> u" for t
    using Cons.prems[OF that] by (auto split: if_splits)
  with Cons.IH have ih: "filter P (map snd gs) = filter P (events_of u gs)" by blast
  show ?case
  proof (cases "fst g = u")
    case False
    then have "\<not> P (snd g)" using Cons.prems[of "fst g"] by (auto split: if_splits)
    with False ih show ?thesis by simp
  qed (use ih in simp)
qed simp

end
