(* ===== verification/PreMT.thy ===== *)
theory PreMT
  imports Threads
begin

text \<open>
  \<^verbatim>\<open>src/ipc/net_sockets/inet_domain/server_pre_threaded/svr_pre_mt.c\<close>, a server with a
  pool of threads that take turns in \<open>accept\<close>, and its HTTP utilities. Each
  thread is a program; the global variables \<open>server_socket\<close> and \<open>prg_name\<close> do not
  change once the threads run and are arguments.
\<close>

unbundle bit_operations_syntax

section \<open>Definitions\<close>

abbreviation (input) DEFAULT_SERVER_PORT :: int where "DEFAULT_SERVER_PORT \<equiv> 8000"
abbreviation (input) QLEN_MAX :: int where "QLEN_MAX \<equiv> 10"
abbreviation (input) THREADS_COUNT :: nat where "THREADS_COUNT \<equiv> 10"
abbreviation (input) FILE_TO_TRANSFER :: string where "FILE_TO_TRANSFER \<equiv> ''/etc/passwd''"

abbreviation (input) CRLF :: string where "CRLF \<equiv> [CR, LF]"

definition unimplemented_content :: string where
  "unimplemented_content =
     ''HTTP/1.0 400 Bad Request'' @ CRLF @
     ''Content-type: text/html'' @ CRLF @
     CRLF @
     ''<html>'' @
     ''<head>'' @
     ''<title>ZeroHTTPd: Unimplemented</title>'' @
     ''</head>'' @
     ''<body>'' @
     ''<h1>Bad Request (Unimplemented)</h1>'' @
     ''<p>Your client sent a request ZeroHTTPd did not understand and it is probably not your fault.</p>'' @
     ''</body>'' @ ''</html>''"

definition http_404_content :: string where
  "http_404_content =
     ''HTTP/1.0 404 Not Found'' @ CRLF @
     ''Content-type: text/html'' @ CRLF @
     CRLF @
     ''<html>'' @
     ''<head>'' @
     ''<title>ZeroHTTPd: Not Found</title>'' @
     ''</head>'' @
     ''<body>'' @
     ''<h1>Not Found (404)</h1>'' @
     ''<p>Your client is asking for an object that was not found on this server.</p>'' @
     ''</body>'' @ ''</html>''"

definition fatal_error :: "string \<Rightarrow> 'a prog" where
  "fatal_error msg = seq (perror msg) (bind get_errno (\<lambda>e. exit_prog e))"

text \<open>
  A call of \<open>recv\<close> for one character: its value and the character \<open>c\<close>, which
  keeps its old value when nothing was received.
\<close>

definition recv1 :: "int \<Rightarrow> bool \<Rightarrow> char \<Rightarrow> (int \<times> char) prog" where
  "recv1 sock peek c =
     bind (syscall (Recv sock 1 peek)) (\<lambda>r.
       ret (retval r, if payload r = [] then c else hd (payload r)))"

text \<open>The loop of \<open>get_line\<close>; \<open>i\<close> is the length of \<open>buf\<close>.\<close>

definition get_line_step :: "int \<Rightarrow> char \<Rightarrow> string \<Rightarrow> (bool \<times> char \<times> string) prog" where
  "get_line_step sock c buf =
     bind (recv1 sock False c) (\<lambda>(n, c).
       if 0 < n then
         if c = CR then
           bind (recv1 sock True c) (\<lambda>(n, c).
             if 0 < n \<and> c = LF then bind (recv1 sock False c) (\<lambda>(n, c). ret (True, c, buf))
             else ret (True, c, buf))
         else ret (True, c, buf @ [c])
       else ret (False, c, buf))"

lemma consumes_get_line_step: "consumes (get_line_step sock c buf)"
proof -
  have r1: "consumes (recv1 sock p d)" for p d
    unfolding recv1_def by (intro consumes_bind1 consumes_syscall shrink_intros)
  then have s1: "shrinks (recv1 sock p d)" for p d by (simp add: consumes_def)
  show ?thesis
    unfolding get_line_step_def split_def by (intro consumes_bind1 r1 shrink_intros s1)
qed

function get_line_loop :: "int \<Rightarrow> int \<Rightarrow> char \<Rightarrow> string \<Rightarrow> (int \<times> string) prog" where
  "get_line_loop sock sz c buf w =
     (if int (length buf) < sz - 1 \<and> c \<noteq> LF then
        bind (get_line_step sock c buf) (\<lambda>r w.
          case r of (go_on, c, buf) \<Rightarrow>
            if go_on then get_line_loop sock sz c buf w else ret (0, buf) w) w
      else ret (int (length buf), buf) w)"
  by pat_completeness auto
termination
  by (relation "measure (\<lambda>(sock, sz, c, buf, w). length (script w))")
    (auto dest: consumesD[OF consumes_get_line_step])

declare get_line_loop.simps [simp del]

text \<open>The return value and the characters stored before the NUL.\<close>

definition get_line :: "int \<Rightarrow> int \<Rightarrow> (int \<times> string) prog" where
  "get_line sock sz = get_line_loop sock sz NUL []"

definition strtolower :: "string \<Rightarrow> string" where
  "strtolower str = map tolower str"

definition handle_unimplemented_method :: "int \<Rightarrow> unit prog" where
  "handle_unimplemented_method client_socket =
     bind (icall (Send client_socket unimplemented_content)) (\<lambda>_. skip)"

definition handle_http_404 :: "int \<Rightarrow> unit prog" where
  "handle_http_404 client_socket = bind (icall (Send client_socket http_404_content)) (\<lambda>_. skip)"

definition get_filename_ext :: "string \<Rightarrow> string" where
  "get_filename_ext filename =
     (case strrchr filename (CHR ''.'') of
        None \<Rightarrow> ''''
      | Some dot \<Rightarrow> if dot = filename then '''' else tl dot)"

text \<open>A \<open>char\<close> is signed; \<open>s8\<close> converts to it.\<close>

definition s8 :: "int \<Rightarrow> int" where
  "s8 x = (x + 128) mod 256 - 128"

definition from_hex :: "char \<Rightarrow> int" where
  "from_hex ch =
     (let v = s8 (int (code ch)) in
      s8 (if isdigit ch then v - 48
          else (if 0 \<le> v then int (code (tolower ch)) else v) - 97 + 10))"

text \<open>The characters written to the buffer, before the terminating NUL.\<close>

fun decode_loop :: "string \<Rightarrow> string" where
  "decode_loop [] = []"
| "decode_loop (c # cs) =
     (if c = CHR ''%'' then
        (case cs of
           a # b # rest \<Rightarrow>
             char_of (nat ((push_bit 4 (from_hex a) OR from_hex b) mod 256)) # decode_loop rest
         | [a] \<Rightarrow> decode_loop [a]
         | [] \<Rightarrow> decode_loop [])
      else if c = CHR ''+'' then CHR '' '' # decode_loop cs
      else c # decode_loop cs)"

text \<open>The pointer returned and what it points to.\<close>

definition urlencoding_decode :: "string \<Rightarrow> (int \<times> string) prog" where
  "urlencoding_decode str =
     bind (icall (Call ''malloc'' [I (int (length str) + 1)])) (\<lambda>buf.
       if buf = 0 then stop (Undef ''null pointer'') else ret (buf, decode_loop str @ [NUL]))"

text \<open>
  The members \<open>st_mode\<close> and \<open>st_size\<close> come with the reply to \<open>stat\<close>; \<open>S_IFREG\<close> is
  the bit \<open>0100000\<close>.
\<close>

definition transfer_file_contents :: "string \<Rightarrow> int \<Rightarrow> int prog" where
  "transfer_file_contents file_path client_socket =
     bind (syscall (Call ''stat'' [S file_path])) (\<lambda>statb.
       if retval statb < 0 then seq (perror ''stat failed'') (ret 1)
       else if out 0 statb AND 0x8000 = 0 then ret 2
       else let filesz = out 1 statb in
         if filesz \<le> 0 then ret 3
         else bind (icall (Call ''open'' [S file_path, S ''O_RDONLY''])) (\<lambda>fd.
           if fd < 0 then seq (perror ''open failed'') (ret 4)
           else bind (icall (Call ''sendfile'' [I client_socket, I fd, I 0, I filesz])) (\<lambda>r.
             if s32 r < 0 then seq (perror ''sendfile failed'') (ret 5)
             else bind (icall (Close fd)) (\<lambda>_. ret 0))))"

text \<open>The message for each error of the transfer.\<close>

definition transfer_msg :: "string \<Rightarrow> int \<Rightarrow> int \<Rightarrow> string" where
  "transfer_msg prg_name thrdnum r =
     (let failed = ''%s:%s():thread# %ld: transferring file %s failed; reason: '';
          args = [S prg_name, S ''handle_client'', I thrdnum, S FILE_TO_TRANSFER]
      in if r = 1 then snprintf 512 (failed @ ''stat(2) failed'' @ [LF]) args
         else if r = 2 then snprintf 512 (failed @ ''file isn'' @ [CHR 0x27] @ ''t a regular file'' @ [LF]) args
         else if r = 3 then snprintf 512 (failed @ ''empty file'' @ [LF]) args
         else if r = 4 then snprintf 512 (failed @ ''open failed (permissions?)'' @ [LF]) args
         else if r = 5 then snprintf 512 (failed @ ''sendfile(2) failed'' @ [LF]) args
         else snprintf 512 (''%s:%s():thread# %ld: transferring file %s: unknown issue (%d)'' @ [LF])
                (args @ [I r]))"

text \<open>
  \<open>strncat\<close> appends the whole hint; it is undefined when the result and its NUL
  do not fit into \<open>msg\<close>.
\<close>

definition lookup_hint :: string where
  "lookup_hint = ''Lookup server log for details.'' @ [LF]"

definition handle_client :: "string \<Rightarrow> int \<Rightarrow> int \<Rightarrow> unit prog" where
  "handle_client prg_name client_socket thrdnum =
     bind (transfer_file_contents FILE_TO_TRANSFER client_socket) (\<lambda>r.
       if r = 0 then skip
       else
         let msg = transfer_msg prg_name thrdnum r @ lookup_hint in
         if 512 \<le> length msg then stop (Undef ''msg overflow'')
         else bind (icall (Send client_socket msg)) (\<lambda>r.
           if s32 r < 0 then fatal_error ''send(2) failed'' else skip))"

abbreviation (input) lock_mlock :: call where "lock_mlock \<equiv> Call ''pthread_mutex_lock'' [S ''mlock'']"
abbreviation (input) unlock_mlock :: call where "unlock_mlock \<equiv> Call ''pthread_mutex_unlock'' [S ''mlock'']"

text \<open>One turn of a thread's loop.\<close>

definition server_body :: "int \<Rightarrow> string \<Rightarrow> int \<Rightarrow> unit \<Rightarrow> unit prog" where
  "server_body server_socket prg_name thrdnum _ =
     bind (icall lock_mlock) (\<lambda>_.
     bind (icall (Call ''accept'' [I server_socket])) (\<lambda>client_socket.
       if client_socket = -1 then
         bind (icall unlock_mlock) (\<lambda>_. fatal_error ''accept()'')
       else
         bind (icall unlock_mlock) (\<lambda>_.
           handle_client prg_name (s32 client_socket) thrdnum)))"

lemma shrinks_fatal_error: "shrinks (fatal_error m)"
  unfolding fatal_error_def by (intro shrink_intros)

lemma shrinks_handle_client: "shrinks (handle_client p c t)"
  unfolding handle_client_def transfer_file_contents_def Let_def
  by (intro shrink_intros shrinks_fatal_error)

lemma consumes_server_body: "consumes (server_body s p t u)"
  unfolding server_body_def
  by (intro consumes_bind1 consumes_icall shrink_intros shrinks_fatal_error shrinks_handle_client)

function enter_server_loop :: "int \<Rightarrow> string \<Rightarrow> int \<Rightarrow> unit \<Rightarrow> unit prog" where
  "enter_server_loop s p t u w = bind (server_body s p t u) (\<lambda>u w. enter_server_loop s p t u w) w"
  by pat_completeness auto
termination
  by (relation "measure (\<lambda>(s, p, t, u, w). length (script w))")
    (auto dest: consumesD[OF consumes_server_body])

declare enter_server_loop.simps [simp del]

interpretation svr: service "server_body s p t" "enter_server_loop s p t" for s p t
  by unfold_locales (rule enter_server_loop.simps, rule consumes_server_body)

definition create_thread :: "int \<Rightarrow> unit prog" where
  "create_thread index =
     bind (icall (Call ''pthread_attr_init'' [])) (\<lambda>_.
     bind (icall (Call ''pthread_attr_setdetachstate'' [S ''PTHREAD_CREATE_DETACHED''])) (\<lambda>_.
     bind (icall (Call ''pthread_attr_setstacksize'' [I (8 * 1024 * 1024)])) (\<lambda>_.
     bind (icall (Call ''pthread_create'' [S ''enter_server_loop'', I index])) (\<lambda>r.
     bind get_errno (\<lambda>e.
       whenp (r \<noteq> 0)
         (eprintf (''%s(): !WARNING! pthread_create() failed [index %ld]; errno=%d'' @ [LF])
            [S ''create_thread'', I index, I e]))))))"

definition setup_listening_socket :: "int \<Rightarrow> int prog" where
  "setup_listening_socket port =
     bind (icall (Call ''socket'' [S ''AF_INET'', S ''SOCK_STREAM'', I 0])) (\<lambda>sock.
       if sock = -1 then fatal_error ''socket()''
       else bind (icall (Call ''setsockopt'' [I sock, S ''SOL_SOCKET'', S ''SO_REUSEADDR'', I 1])) (\<lambda>r.
         if r < 0 then fatal_error ''setsockopt(SO_REUSEADDR)''
         else bind (icall (Call ''bind'' [I sock, S ''AF_INET'', I (port mod 2 ^ 16), S ''INADDR_ANY''])) (\<lambda>r.
           if r < 0 then fatal_error ''bind()''
           else bind (icall (Call ''listen'' [I sock, I QLEN_MAX])) (\<lambda>r.
             if r < 0 then fatal_error ''listen()'' else ret sock))))"

text \<open>
  The handler of \<open>SIGINT\<close>; the times are printed as \<open>double\<close>, here by their
  seconds and microseconds.
\<close>

definition print_stats :: "unit prog" where
  "print_stats =
     bind (syscall (Call ''getrusage'' [S ''RUSAGE_SELF''])) (\<lambda>myusage.
       if retval myusage < 0 then fatal_error ''getrusage()''
       else seq (printf ([LF] @ ''user time = %g, sys time = %g'' @ [LF])
                  [I (1000000 * out 0 myusage + out 1 myusage), I (1000000 * out 2 myusage + out 3 myusage)])
                (exit_prog 0))"

function pause_loop :: "unit prog" where
  "pause_loop w = bind (icall (Call ''pause'' [])) (\<lambda>_ w. pause_loop w) w"
  by pat_completeness auto
termination
  by (relation "measure (\<lambda>w. length (script w))") (auto dest: consumesD[OF consumes_icall])

declare pause_loop.simps [simp del]

definition svr_pre_mt_main :: "string list \<Rightarrow> unit prog" where
  "svr_pre_mt_main argv =
     bind (icall (Call ''signal'' [S ''SIGINT'', S ''print_stats''])) (\<lambda>_.
     let server_port = (if 1 < length argv then atoi (argv ! 1) else DEFAULT_SERVER_PORT) in
     bind (icall (Call ''signal'' [S ''SIGPIPE'', S ''SIG_IGN''])) (\<lambda>_.
     let prg_name = take 127 (argv ! 0) in
     bind (setup_listening_socket server_port) (\<lambda>server_socket.
     seq (printf (''Pre-MT server listening on port %d'' @ [LF]) [I server_port])
    (seq (for_each [0..<THREADS_COUNT] (\<lambda>i. create_thread (int i)))
         pause_loop))))"

section \<open>One thread at a time in accept\<close>

text \<open>What the calls of a thread mean for the mutex that protects \<open>accept\<close>.\<close>

definition svr_act :: "event \<Rightarrow> lock_act" where
  "svr_act e = (case e of
      Sys c r \<Rightarrow>
        if c = lock_mlock then (if retval r = 0 then Acquired else Misuse)
        else if c = unlock_mlock then (if retval r = 0 then Released else Misuse)
        else (case c of Call f xs \<Rightarrow> if f = ''accept'' then Uses else Neutral | _ \<Rightarrow> Neutral)
    | Pending (Call f xs) \<Rightarrow> if f = ''accept'' then Uses else Neutral
    | _ \<Rightarrow> Neutral)"

lemma svr_act_not_dropped: "svr_act e \<noteq> Dropped"
  by (simp add: svr_act_def split: event.splits call.splits)

lemma appends_handle_client: "appends (handle_client p c t)"
  unfolding handle_client_def transfer_file_contents_def fatal_error_def Let_def
  by (intro emits_intros TrueI)

lemma svr_handle_client: "tracks (lock_disc svr_act) (handle_client p c t) (\<lambda>_ h. h = False) False"
  by (rule tracks_silent)
    (unfold handle_client_def transfer_file_contents_def fatal_error_def Let_def,
      (intro emits_intros; simp add: svr_act_def), simp)

lemma svr_lock_calls:
  "tracks (lock_disc svr_act) (icall lock_mlock) (\<lambda>_ h. h) False"
  "tracks (lock_disc svr_act) (icall unlock_mlock) (\<lambda>_ h. \<not> h) True"
  "tracks (lock_disc svr_act) (icall (Call ''accept'' xs)) (\<lambda>_ h. h) True"
  by (intro tracks_icall; auto simp: svr_act_def lock_disc.simps)+

lemma appends_server_body: "appends (server_body s p t u)"
  unfolding server_body_def fatal_error_def by (intro emits_intros appends_handle_client TrueI)

lemma svr_body: "tracks (lock_disc svr_act) (server_body s p t u) (\<lambda>_ h. \<not> h) False"
proof -
  let ?fail = "bind (icall unlock_mlock) (\<lambda>_. fatal_error ''accept()'')"
  let ?serve = "\<lambda>c. bind (icall unlock_mlock) (\<lambda>_. handle_client p (s32 c) t)"
  have ap: "appends (if c = -1 then ?fail else ?serve c)" for c
    unfolding fatal_error_def by (intro emits_intros appends_handle_client TrueI)
  have fail: "tracks (lock_disc svr_act) ?fail (\<lambda>_ h. \<not> h) True"
    by (rule tracks_bind[OF svr_lock_calls(2)])
      (auto simp: fatal_error_def svr_act_def intro!: tracks_silent emits_intros)
  have serve: "tracks (lock_disc svr_act) (?serve c) (\<lambda>_ h. \<not> h) True" for c
    by (rule tracks_bind[OF svr_lock_calls(2)])
      (auto intro: tracks_mono[OF svr_handle_client] appends_handle_client)
  have "tracks (lock_disc svr_act)
      (bind (icall (Call ''accept'' [I s])) (\<lambda>c. if c = -1 then ?fail else ?serve c)) (\<lambda>_ h. \<not> h) True"
    by (rule tracks_bind[OF svr_lock_calls(3)]) (use fail serve ap in auto)
  then show ?thesis unfolding server_body_def
    by (intro tracks_bind[OF svr_lock_calls(1)]) (auto intro!: emits_bind emits_icall ap)
qed

lemma svr_loop: "tracks (lock_disc svr_act) (enter_server_loop s p t ()) (\<lambda>_ _. True) False"
  by (rule tracks_mono[OF svr.tracks_loop[where J = "\<lambda>_ h. \<not> h", OF _ appends_server_body]])
    (use svr_body in auto)

interpretation svr_lock: lock_users svr_act "\<lambda>t. enter_server_loop s p (int t) ()" for s p
  by unfold_locales (rule svr_loop)

text \<open>
  C13: the threads of the pool take turns in \<open>accept\<close>: in every interleaving of their runs,
  from the moment one of them has the mutex until it releases it, no other
  thread is in \<open>accept\<close>.
\<close>

theorem accept_exclusive:
  assumes "runs_of (\<lambda>t. enter_server_loop s p (int t) ()) (gs @ (t, e) # mid @ (u, d) # rest)"
    and "lock_granted svr_act (gs @ (t, e) # mid @ (u, d) # rest)"
    and "svr_act e = Acquired" "svr_act d = Uses"
    and "\<forall>d'. (t, d') \<in> set mid \<longrightarrow> svr_act d' \<noteq> Released"
  shows "u = t"
  using svr_lock.exclusive[OF assms(1-4)] assms(5) by (simp add: svr_act_not_dropped)

theorem accept_exclusive_witness:
  "{u. runs_of (\<lambda>t. enter_server_loop 3 ''svr'' (int t) ())
        [(7, Sys lock_mlock (Ret 0)), (u, Pending (Call ''accept'' [I 3]))]} = {7}"
proof -
  let ?l = "Sys lock_mlock (Ret 0)" and ?a = "Pending (Call ''accept'' [I 3])"
  let ?m = "\<lambda>t. enter_server_loop 3 ''svr'' (int t) ()"
  have tr: "trace (snd (?m 7 (boot [Ret 0]))) = [?l, ?a]"
    by (subst enter_server_loop.simps) (simp add: server_body_def run_defs)
  have run: "runs_of ?m [(7, ?l), (7, ?a)]"
    unfolding runs_of_def using tr by (auto intro!: exI[of _ "boot [Ret 0]"])
  have gr: "lock_granted svr_act [(7, ?l), (u, ?a)]" for u
    unfolding lock_granted_def
    by (auto simp: svr_act_def Cons_eq_append_conv append_eq_Cons_conv)
  have "u = 7" if "runs_of ?m [(7, ?l), (u, ?a)]" for u
    using accept_exclusive[of 3 "''svr''" "[]" 7 ?l "[]" u ?a "[]"] that gr by (simp add: svr_act_def)
  with run show ?thesis by auto
qed

section \<open>Reading a line\<close>

lemma recv1_Cons: "script w = Data [x] # rs \<Longrightarrow>
    recv1 sock peek c w = (Val (1, x), answered (Recv sock 1 peek) (Data [x]) w)"
  by (simp add: recv1_def prog_simps)

lemma get_line_loop_line:
  "set s \<inter> {CR, LF} = {} \<Longrightarrow> int (length buf + length s) < sz - 1 \<Longrightarrow> c \<noteq> LF \<Longrightarrow>
   script w = map (\<lambda>x. Data [x]) s @ [Data [CR], Data [LF], Data [LF]] @ rs \<Longrightarrow>
   \<exists>v. get_line_loop sock sz c buf w = (Val (int (length (buf @ s)), buf @ s), v) \<and> script v = rs"
proof (induction s arbitrary: buf c w)
  case Nil
  then show ?case
    by (subst get_line_loop.simps)
      (simp add: get_line_step_def recv1_Cons prog_simps get_line_loop.simps[of _ _ LF])
next
  case (Cons x s)
  let ?v = "answered (Recv sock 1 False) (Data [x]) w"
  have x: "x \<noteq> CR" using Cons.prems(1) by auto
  have "\<exists>v. get_line_loop sock sz x (buf @ [x]) ?v =
      (Val (int (length ((buf @ [x]) @ s)), (buf @ [x]) @ s), v) \<and> script v = rs"
    using Cons.prems by (intro Cons.IH) auto
  moreover have "get_line_loop sock sz c buf w = get_line_loop sock sz x (buf @ [x]) ?v"
    using Cons.prems x
    by (subst get_line_loop.simps) (simp add: get_line_step_def recv1_Cons prog_simps)
  ultimately show ?case by simp
qed

lemma get_line_step_Val:
  "get_line_step sock c buf w = (Val (g, c', buf'), v) \<Longrightarrow> buf' = buf \<or> (\<exists>x. buf' = buf @ [x])"
  by (auto simp: get_line_step_def recv1_def bind_def ret_def syscall_def
      split: prod.splits outcome.splits if_splits list.splits)

lemma get_line_loop_bound:
  "get_line_loop sock sz c buf w = (Val (n, s), v) \<Longrightarrow> int (length buf) < sz \<Longrightarrow>
   int (length s) < sz \<and> (n = 0 \<or> n = int (length s))"
proof (induction sock sz c buf w rule: get_line_loop.induct)
  case (1 sock sz c buf w)
  show ?case
  proof (cases "int (length buf) < sz - 1 \<and> c \<noteq> LF")
    case False
    with "1.prems" show ?thesis by (subst (asm) get_line_loop.simps) (auto simp: prog_simps)
  next
    case True
    with "1.prems"(1) obtain g c' buf' u where st: "get_line_step sock c buf w = (Val (g, c', buf'), u)"
      and rest: "(if g then get_line_loop sock sz c' buf' u else ret (0, buf') u) = (Val (n, s), v)"
      by (subst (asm) get_line_loop.simps) (auto simp: bind_def split: prod.splits outcome.splits)
    have len: "int (length buf') < sz" using get_line_step_Val[OF st] True by auto
    show ?thesis
    proof (cases g)
      case True
      from "1.IH"[OF \<open>int (length buf) < sz - 1 \<and> c \<noteq> LF\<close> st refl refl True] rest True len
      show ?thesis by simp
    next
      case False
      with rest len show ?thesis by (auto simp: prog_simps)
    qed
  qed
qed

text \<open>
  C16: \<open>get_line\<close> stays inside its buffer: whatever arrives, fewer than \<open>size\<close> characters are
  stored, which leaves room for the NUL, and the return value is their number
  or 0. A line that ends in CR LF and fits is read exactly: \<open>get_line\<close> stores the
  characters before the CR, returns their number and leaves the input at the
  start of the next line.
\<close>

theorem get_line_correct:
  assumes "0 < sz"
  shows "(get_line sock sz w = (Val (n, s), v) \<longrightarrow> int (length s) < sz \<and> (n = 0 \<or> n = int (length s))) \<and>
    (set l \<inter> {CR, LF} = {} \<and> int (length l) < sz - 1 \<and>
      script w = map (\<lambda>x. Data [x]) l @ [Data [CR], Data [LF], Data [LF]] @ rs \<longrightarrow>
      (\<exists>v. get_line sock sz w = (Val (int (length l), l), v) \<and> script v = rs))"
  using get_line_loop_bound[of sock sz NUL "[]" w n s v] get_line_loop_line[of l "[]" sz NUL w rs sock] assms
  by (simp add: get_line_def)

theorem get_line_correct_witness:
  "\<exists>v. get_line 4 80 (boot [Data ''G'', Data ''E'', Data ''T'', Data [CR], Data [LF], Data [LF], Data ''x'']) =
     (Val (3, ''GET''), v) \<and> script v = [Data ''x'']"
  using get_line_correct[of 80 4 "boot [Data ''G'', Data ''E'', Data ''T'', Data [CR], Data [LF], Data [LF], Data ''x'']"
      0 "[]" "boot []" "''GET''" "[Data ''x'']"] by simp

section \<open>Decoding\<close>

text \<open>The encoding of the comment in the source: a blank is \<open>+\<close>, a character that is
  neither a letter nor a digit is its code in hexadecimal.\<close>

definition plain_char :: "char \<Rightarrow> bool" where
  "plain_char c \<longleftrightarrow> isdigit c \<or> (97 \<le> code (tolower c) \<and> code (tolower c) \<le> 122)"

definition urlencode1 :: "char \<Rightarrow> string" where
  "urlencode1 c = (if c = CHR '' '' then ''+'' else if plain_char c then [c]
     else CHR ''%'' # [digit_char (code c div 16), digit_char (code c mod 16)])"

definition urlencode :: "string \<Rightarrow> string" where
  "urlencode s = concat (map urlencode1 s)"

lemma from_hex_digit: "d < 16 \<Longrightarrow> from_hex (digit_char d) = int d"
  by (auto simp: from_hex_def s8_def isdigit_def tolower_def code_digit_char)

lemma hex_pair: "b < 16 \<Longrightarrow> push_bit 4 (int a) OR int b = 16 * int a + int b"
  using concat_bit_def[of 4 "int b" "int a"] concat_bit_eq[of 4 "int b" "int a"]
  by (simp add: or.commute take_bit_int_eq_self push_bit_eq_mult)

lemma decode_urlencode1: "decode_loop (urlencode1 c @ r) = c # decode_loop r"
proof -
  have "code c div 16 < 16" "code c mod 16 < 16" using code_less[of c] by auto
  moreover have "nat ((16 * int (code c div 16) + int (code c mod 16)) mod 256) = code c"
    using code_less[of c] by (simp add: zdiv_int zmod_int)
  moreover have "c = CHR ''%'' \<or> c = CHR ''+'' \<Longrightarrow> \<not> plain_char c"
    by (auto simp: plain_char_def char_defs)
  ultimately show ?thesis
    by (auto simp: urlencode1_def from_hex_digit hex_pair)
qed

lemma decode_urlencode: "decode_loop (urlencode s) = s"
  by (induction s) (simp_all add: urlencode_def decode_urlencode1)

lemma decode_loop_cases:
  "decode_loop (CHR ''%'' # a # b # r) =
     char_of (nat ((push_bit 4 (from_hex a) OR from_hex b) mod 256)) # decode_loop r"
  "decode_loop [CHR ''%'', a] = decode_loop [a]" "decode_loop ''%'' = []"
  "decode_loop (CHR ''+'' # r) = CHR '' '' # decode_loop r"
  "c \<noteq> CHR ''%'' \<Longrightarrow> c \<noteq> CHR ''+'' \<Longrightarrow> decode_loop (c # r) = c # decode_loop r"
  by simp_all

lemma length_decode_loop: "length (decode_loop s) \<le> length s"
proof (induction s rule: length_induct)
  case (1 s)
  note decode_loop.simps(2) [simp del]
  consider "s = []" | a b r where "s = CHR ''%'' # a # b # r" | a where "s = [CHR ''%'', a]" | "s = ''%''"
    | r where "s = CHR ''+'' # r" | c r where "s = c # r" "c \<noteq> CHR ''%''" "c \<noteq> CHR ''+''"
    by (cases s; cases "tl s"; cases "tl (tl s)"; cases "hd s = CHR ''%''"; cases "hd s = CHR ''+''") auto
  then show ?case
  proof cases
    case 2
    with 1 have "length (decode_loop r) \<le> length r" by simp
    with 2 show ?thesis by (simp add: decode_loop_cases)
  next
    case 5
    with 1 have "length (decode_loop r) \<le> length r" by simp
    with 5 show ?thesis by (simp add: decode_loop_cases)
  next
    case 6
    with 1 have "length (decode_loop r) \<le> length r" by simp
    with 6 show ?thesis by (simp add: decode_loop_cases)
  next
    case 3
    with 1[rule_format, of "[a]"] have "length (decode_loop [a]) \<le> length [a]" by simp
    with 3 show ?thesis by (simp add: decode_loop_cases)
  qed (simp_all add: decode_loop_cases)
qed




section \<open>Answering a client\<close>

lemma thread_msg:
  "cformat (''%s:%s():thread# %ld: transferring file %s'' @ f) [S p, S g, I t, S h] =
   p @ '':'' @ g @ ''():thread# '' @ show_int t @ '': transferring file '' @ h @ cformat f []"
  by (simp add: cformat.simps[of "_ # _"] parse_spec_def isdigit_def code_def pad_def)


lemma thread_msg_r:
  "cformat (''%s:%s():thread# %ld: transferring file %s: unknown issue (%d)'' @ [LF]) [S p, S g, I t, S h, I r] =
   p @ '':'' @ g @ ''():thread# '' @ show_int t @ '': transferring file '' @ h @ '': unknown issue ('' @ show_int r @ '')'' @ [LF]"
  by (simp add: cformat.simps[of "_ # _"] cformat.simps[of "[]"] parse_spec_def isdigit_def code_def pad_def)

lemma transfer_msg_fits:
  assumes "length prg_name \<le> 127" "LONG_MIN \<le> thrdnum" "thrdnum \<le> LONG_MAX" "LONG_MIN \<le> r" "r \<le> LONG_MAX"
  shows "length (transfer_msg prg_name thrdnum r @ lookup_hint) < 512"
proof -
  let ?args = "[S prg_name, S ''handle_client'', I thrdnum, S FILE_TO_TRANSFER]"
  note len = length_show_int[OF assms(2,3)] length_show_int[OF assms(4,5)] assms(1)
  have plain: "cformat f [] = f" if "CHR ''%'' \<notin> set f" for f
    using that by (induction f) (auto simp: cformat.simps[of "_ # _"] cformat.simps[of "[]"])
  have failed: "length (snprintf 512 (''%s:%s():thread# %ld: transferring file %s failed; reason: '' @ f) ?args) \<le> 480"
    if f: "CHR ''%'' \<notin> set f" "length f \<le> 50" for f
  proof -
    have "cformat (''%s:%s():thread# %ld: transferring file %s'' @ '' failed; reason: '' @ f) ?args =
        prg_name @ '':'' @ ''handle_client'' @ ''():thread# '' @ show_int thrdnum @ '': transferring file '' @
        FILE_TO_TRANSFER @ '' failed; reason: '' @ f"
      using f(1) by (simp only: thread_msg) (simp add: plain)
    with len f(2) show ?thesis by (simp add: snprintf_def)
  qed
  have other: "length (snprintf 512 (''%s:%s():thread# %ld: transferring file %s: unknown issue (%d)'' @ [LF])
      (?args @ [I r])) \<le> 480"
    using len thread_msg_r[of prg_name "''handle_client''" thrdnum FILE_TO_TRANSFER r] by (simp add: snprintf_def)
  have either: "length (if b then x else y) \<le> (480::nat)" if "length x \<le> 480" "length y \<le> 480" for b and x y :: string
    using that by simp
  have "length (transfer_msg prg_name thrdnum r) \<le> 480"
    unfolding transfer_msg_def Let_def by (intro either failed other) simp_all
  then show ?thesis by (simp add: lookup_hint_def)
qed

lemma transfer_wp:
  "wp (transfer_file_contents f c)
     (\<lambda>r v. 0 \<le> r \<and> r \<le> 5 \<and> (r = 0 \<longrightarrow>
        (\<exists>fd sz n statb. suffix [Sys (Call ''stat'' [S f]) statb, Sys (Call ''open'' [S f, S ''O_RDONLY'']) fd,
            Sys (Call ''sendfile'' [I c, I (retval fd), I 0, I (out 1 statb)]) n,
            Sys (Close (retval fd)) sz] (trace v) \<and> 0 < out 1 statb \<and> 0 \<le> s32 (retval n))))
     (\<lambda>h v. h = Blocked) w"
  unfolding transfer_file_contents_def Let_def
  by (auto simp: wp_simps suffix_def split: list.splits)

text \<open>The client has been sent the file, or has been told why not.\<close>

definition answered_client :: "string \<Rightarrow> int \<Rightarrow> int \<Rightarrow> event list \<Rightarrow> bool" where
  "answered_client prg_name c t es \<longleftrightarrow>
     (\<exists>statb fd n e. suffix [Sys (Call ''stat'' [S FILE_TO_TRANSFER]) statb,
         Sys (Call ''open'' [S FILE_TO_TRANSFER, S ''O_RDONLY'']) fd,
         Sys (Call ''sendfile'' [I c, I (retval fd), I 0, I (out 1 statb)]) n, Sys (Close (retval fd)) e] es \<and>
       0 < out 1 statb \<and> 0 \<le> s32 (retval n)) \<or>
     (\<exists>(r :: int) n. 1 \<le> r \<and> r \<le> 5 \<and> suffix [Sys (Send c (transfer_msg prg_name t r @ lookup_hint)) n] es)"




end
