(* ===== verification/XferFile.thy ===== *)
theory XferFile
  imports Restart
begin

text \<open>
  \<^verbatim>\<open>src/ipc/net_sockets/zero_copy_sendfile/xfer_file.c\<close>, a file server and its client in
  one program. The server sends the file the client names, by a loop of reads
  and writes or by one \<open>sendfile\<close>; the client stores what it receives. The page
  size \<open>ps\<close> and the flag \<open>verbose\<close> are arguments. The restarted calls are those of
  \<^verbatim>\<open>restart_lib.h\<close> beside the program, the same code as \<^verbatim>\<open>restart_lib-Robbins.c\<close>.
\<close>

section \<open>Definitions\<close>

abbreviation (input) SERV_IP :: string where "SERV_IP \<equiv> ''127.0.0.1''"
abbreviation (input) SERV_PORT :: int where "SERV_PORT \<equiv> 7100"
abbreviation (input) DESTFILE :: string where "DESTFILE \<equiv> ''./destfile.dat''"
abbreviation (input) TRADITIONAL :: int where "TRADITIONAL \<equiv> 1"
abbreviation (input) MODERN :: int where "MODERN \<equiv> 2"

definition xfer_VP :: "bool \<Rightarrow> string \<Rightarrow> arg list \<Rightarrow> unit prog" where
  "xfer_VP verbose str args = whenp verbose (printf str args)"

lemma shrinks_xfer_VP: "shrinks (xfer_VP verbose str args)"
  unfolding xfer_VP_def by (intro shrink_intros)

function xfer_sig_child :: "bool \<Rightarrow> unit prog" where
  "xfer_sig_child verbose w =
     bind (icall (Call ''wait3'' [S ''WNOHANG''])) (\<lambda>pid w.
       if 0 < pid then
         seq (xfer_VP verbose (''parent server in SIGCHLD handler; pid=%d'' @ [LF]) [I pid])
           (\<lambda>w. xfer_sig_child verbose w) w
       else skip w) w"
  by pat_completeness auto
termination
proof (relation "measure (\<lambda>(b, w). length (script w))", goal_cases)
  case (2 verbose w pid v x u)
  have "length (script u) \<le> length (script v)"
    using shrinks_xfer_VP 2(3) by (rule shrinksD)
  with consumesD[OF consumes_icall 2(1)] show ?case by simp
qed simp

declare xfer_sig_child.simps [simp del]

definition err_exit :: "string \<Rightarrow> string \<Rightarrow> int \<Rightarrow> 'a prog" where
  "err_exit prg err exitcode =
     seq (perror (snprintf 511 ''%s: %s'' [S prg, S err])) (exit_prog exitcode)"

text \<open>
  The loop both sides use to copy from one descriptor to the other, with the
  messages of the two errors; \<open>tsent\<close> is an \<open>int\<close>, whose overflow is undefined.
\<close>

definition xfer_step :: "nat \<Rightarrow> int \<Rightarrow> int \<Rightarrow> string \<Rightarrow> string \<Rightarrow> string \<Rightarrow> int \<Rightarrow> (bool \<times> int) prog" where
  "xfer_step ps fromfd tofd prg rderr wrerr tsent =
     bind (r_read fromfd ps) (\<lambda>r.
       let nr = retval r in
       if nr = 0 then ret (False, tsent)
       else if nr < 0 then err_exit prg rderr 1
       else bind (r_write tofd (payload r) (nat nr)) (\<lambda>k.
         if k \<le> 0 then err_exit prg wrerr 1
         else if INT_MAX < tsent + nr then stop (Undef ''signed overflow'')
         else ret (True, tsent + nr)))"

lemma shrinks_err_exit [shrink_intros]: "shrinks (err_exit prg err n)"
  unfolding err_exit_def by (intro shrink_intros)

lemma consumes_xfer_step: "consumes (xfer_step ps a b prg e1 e2 t)"
  unfolding xfer_step_def Let_def by (intro consumes_bind1 read.f_consumes shrink_intros)

function xfer_loop :: "nat \<Rightarrow> int \<Rightarrow> int \<Rightarrow> string \<Rightarrow> string \<Rightarrow> string \<Rightarrow> int \<Rightarrow> int prog" where
  "xfer_loop ps fromfd tofd prg rderr wrerr tsent w =
     bind (xfer_step ps fromfd tofd prg rderr wrerr tsent) (\<lambda>r w. case r of (go_on, t) \<Rightarrow>
       if go_on then xfer_loop ps fromfd tofd prg rderr wrerr t w else ret t w) w"
  by pat_completeness auto
termination
  by (relation "measure (\<lambda>(ps, a, b, prg, e1, e2, t, w). length (script w))")
    (auto dest: consumesD[OF consumes_xfer_step])

declare xfer_loop.simps [simp del]

text \<open>
  The server's side for one client. The name is read into \<open>PATH_MAX\<close> bytes and
  terminated behind what was read.
\<close>

definition send_modern :: "int \<Rightarrow> int \<Rightarrow> int \<Rightarrow> string \<Rightarrow> int prog" where
  "send_modern file2send sd fd_send prg =
     bind (syscall (Call ''fstat'' [I fd_send])) (\<lambda>sb.
       if retval sb < 0 then
         seq (emit (Did ''free'' [I file2send])) (err_exit prg ''svr: fstat error'' 1)
       else bind (icall (Call ''sendfile'' [I sd, I fd_send, I 0, I (out 0 sb)])) (\<lambda>tsent.
         if s32 tsent < 0 then
           seq (emit (Did ''free'' [I file2send])) (err_exit prg ''svr: sendfile error'' 1)
         else ret (s32 tsent)))"

definition process_client :: "bool \<Rightarrow> nat \<Rightarrow> int \<Rightarrow> int \<Rightarrow> string \<Rightarrow> int prog" where
  "process_client verbose ps sd howto prg =
     bind (icall (Call ''malloc'' [I (int PATH_MAX)])) (\<lambda>file2send.
       if file2send = 0 then
         seq (printf ([LF] @ ''%s: no memory for username buffer'') [S prg]) (exit_prog 1)
       else bind (syscall (Read sd PATH_MAX)) (\<lambda>r.
         if retval r = -1 then
           seq (emit (Did ''free'' [I file2send])) (err_exit prg ''svr: socket read error'' 1)
         else if length (payload r) = PATH_MAX then stop (Undef ''file2send[PATH_MAX]'')
         else
           let name = cstr (payload r) in
           seq (xfer_VP verbose (''svr: to send file '' @ [CHR 0x22] @ ''%s'' @ [CHR 0x22] @ '' to client...'' @ [LF]) [S name])
          (bind (r_open2 name ''O_RDONLY'') (\<lambda>fd_send.
             if fd_send = -1 then
               seq (emit (Did ''free'' [I file2send])) (err_exit prg ''svr: file open error'' 1)
             else
               bind (if howto = MODERN then
                       seq (xfer_VP verbose (''svr: using MODERN sendfile(2) approach...'' @ [LF]) [])
                           (send_modern file2send sd fd_send prg)
                     else if howto = TRADITIONAL then
                       seq (xfer_VP verbose (''svr: using TRADITIONAL read/write loop approach...'' @ [LF]) [])
                           (xfer_loop ps fd_send sd prg ''svr: read error'' ''svr: write error'' 0)
                     else ret 0) (\<lambda>tsent.
               seq (xfer_VP verbose (''svr: # bytes sent    : %16d'' @ [LF]) [I tsent])
              (seq (emit (Did ''free'' [I file2send]))
              (bind (r_close fd_send) (\<lambda>_.
               bind (r_close sd) (\<lambda>_. ret 0)))))))))"

definition usage :: "string \<Rightarrow> unit prog" where
  "usage name = eprintf
     (''Usage:'' @ [LF] @
      ''%s -s -{t|m} [-v]                <--- as server'' @ [LF] @
      ''-OR-'' @ [LF] @
      ''%s file-to-send [-v]             <--- as client'' @ [LF] @ [LF] @
      '' -s : run the program as the server'' @ [LF] @
      ''  -t : use the _t_raditional '' @ [CHR 0x27] @ ''loop over read/write syscalls'' @ [CHR 0x27] @ '' approach'' @ [LF] @
      ''  -m : use the _m_odern '' @ [CHR 0x27] @ ''single sendfile(2) syscall'' @ [CHR 0x27] @ '' approach'' @ [LF] @
      '' If '' @ [CHR 0x27] @ ''-s'' @ [CHR 0x27] @ '' not present, it implies it'' @ [CHR 0x27] @
      ''s the client and you must pass a valid pathname as file to '' @ [CHR 0x27] @ ''GET'' @ [CHR 0x27] @
      '' from the server.'' @ [LF]) [S name, S name]"

text \<open>The arguments: whether this is the server, how to send, and whether to be verbose.\<close>

datatype xfer_mode = Server int bool | Client bool | Bad_usage

definition has_opt :: "string \<Rightarrow> char \<Rightarrow> bool" where
  "has_opt a c \<longleftrightarrow> 2 \<le> length a \<and> a ! 0 = CHR ''-'' \<and> a ! 1 = c"

definition xfer_args :: "string list \<Rightarrow> xfer_mode" where
  "xfer_args argv =
     (if length argv < 2 then Bad_usage
      else if has_opt (argv ! 1) (CHR ''s'') then
        if length argv < 3 then Bad_usage
        else if has_opt (argv ! 2) (CHR ''t'') then
          Server TRADITIONAL (3 < length argv \<and> strcmp (argv ! 3) ''-v'' = 0)
        else if has_opt (argv ! 2) (CHR ''m'') then
          Server MODERN (3 < length argv \<and> strcmp (argv ! 3) ''-v'' = 0)
        else Bad_usage
      else Client (2 < length argv \<and> strcmp (argv ! 2) ''-v'' = 0))"

text \<open>One turn of the server's loop; the client's address is only used to report it.\<close>

definition xfer_body :: "bool \<Rightarrow> nat \<Rightarrow> int \<Rightarrow> int \<Rightarrow> string \<Rightarrow> unit \<Rightarrow> unit prog" where
  "xfer_body verbose ps sd how prg _ =
     seq (whenp verbose (bind (icall (Call ''getpid'' [])) (\<lambda>pid.
            printf (''%s: pid %d blocking on accept()..'' @ [LF]) [S prg, I pid])))
    (bind (syscall (Call ''accept'' [I sd])) (\<lambda>r.
       let newsd = retval r in
       if newsd = -1 then err_exit prg ''svr: socket accept error'' 1
       else
         seq (xfer_VP verbose ([LF] @ ''Server %s: client connected now from IP %s port # %d'' @ [LF])
                [S prg, I (out 0 r), I (out 1 r)])
        (bind (process_client verbose ps newsd how prg) (\<lambda>_. skip))))"

lemma shrinks_xfer_loop [shrink_intros]: "shrinks (xfer_loop ps a b prg e1 e2 t)"
  unfolding shrinks_def
proof
  fix w show "length (script (snd (xfer_loop ps a b prg e1 e2 t w))) \<le> length (script w)"
  proof (induction ps a b prg e1 e2 t w rule: xfer_loop.induct)
    case (1 ps a b prg e1 e2 t w)
    obtain x v where xv: "xfer_step ps a b prg e1 e2 t w = (x, v)" by (cases "xfer_step ps a b prg e1 e2 t w")
    have "length (script v) \<le> length (script w)"
      using shrinksD xv consumes_xfer_step unfolding consumes_def by metis
    moreover have "length (script (snd (xfer_loop ps a b prg e1 e2 t' v))) \<le> length (script v)"
      if "x = Val (True, t')" for t'
      using 1[OF xv[unfolded that] refl TrueI] .
    ultimately show ?case using xv
      by (subst xfer_loop.simps) (auto simp: bind_apply ret_apply split: outcome.splits dest: order_trans)
  qed
qed

lemma shrinks_wrappers [shrink_intros]: "shrinks (r_close fd)" "shrinks (r_open2 p f)" "shrinks (r_open3 p f m)"
  using close.f_consumes open2.f_consumes open3.f_consumes by (simp_all add: consumes_def)

lemma consumes_xfer_body: "consumes (xfer_body verbose ps sd how prg u)"
  unfolding xfer_body_def process_client_def send_modern_def xfer_VP_def Let_def
  by (intro consumes_seq2 consumes_bind1 consumes_syscall shrink_intros)

function xfer_server :: "bool \<Rightarrow> nat \<Rightarrow> int \<Rightarrow> int \<Rightarrow> string \<Rightarrow> unit \<Rightarrow> unit prog" where
  "xfer_server verbose ps sd how prg u w =
     bind (xfer_body verbose ps sd how prg u) (\<lambda>u w. xfer_server verbose ps sd how prg u w) w"
  by pat_completeness auto
termination
  by (relation "measure (\<lambda>(b, ps, sd, how, prg, u, w). length (script w))")
    (auto dest: consumesD[OF consumes_xfer_body])

declare xfer_server.simps [simp del]

interpretation xfer: service "xfer_body verbose ps sd how prg" "xfer_server verbose ps sd how prg"
  for verbose ps sd how prg
  by unfold_locales (rule xfer_server.simps, rule consumes_xfer_body)

definition server_setup :: "bool \<Rightarrow> int \<Rightarrow> string \<Rightarrow> unit prog" where
  "server_setup verbose sd prg =
     bind (icall (Call ''setsockopt'' [I sd, S ''SOL_SOCKET'', S ''SO_REUSEADDR'', I 1])) (\<lambda>r.
       if r = -1 then err_exit prg ''setsockopt'' 1
       else bind (icall (Call ''bind'' [I sd, S SERV_IP, I SERV_PORT])) (\<lambda>r.
         if r = -1 then err_exit prg ''svr: socket bind error'' 1
         else seq (xfer_VP verbose (''%s: bind done at IP %s port %d'' @ [LF]) [S prg, S SERV_IP, I SERV_PORT])
        (bind (icall (Call ''listen'' [I sd, I 1])) (\<lambda>r.
         if r = -1 then err_exit prg ''svr: socket listen error'' 1
         else seq (xfer_VP verbose (''%s: listen q set up'' @ [LF]) [S prg])
        (bind (icall (Call ''sigaction'' [S ''SIGCHLD'', S ''sig_child'',
                 S ''SA_RESTART | SA_NOCLDSTOP | SA_NOCLDWAIT''])) (\<lambda>r.
         if r = -1 then err_exit prg ''svr: sigaction error'' 1
         else xfer_VP verbose (''%s: SIGCHLD handler set up'' @ [LF]) [S prg]))))))"

text \<open>The client after it has its socket: ask for the file and store it.\<close>

definition xfer_client :: "bool \<Rightarrow> nat \<Rightarrow> int \<Rightarrow> string \<Rightarrow> string \<Rightarrow> unit prog" where
  "xfer_client verbose ps sd prg name =
     bind (icall (Call ''connect'' [I sd, S SERV_IP, I SERV_PORT])) (\<lambda>r.
       if r = -1 then err_exit prg ''cli: connection error'' 1
       else bind (r_write sd name (length name)) (\<lambda>k.
         if k < 0 then err_exit prg ''cli: write error'' 1
         else bind (r_open3 DESTFILE ''O_WRONLY|O_TRUNC|O_CREAT'' ''0644'') (\<lambda>fd_dest.
           if fd_dest = -1 then err_exit prg ''cli: dest file open error'' 1
           else bind (xfer_loop ps sd fd_dest prg ''cli: read error'' ''cli: write error'' 0) (\<lambda>trecv.
             bind (r_close fd_dest) (\<lambda>_.
               xfer_VP verbose (''cli: # bytes received: %16d'' @ [LF]) [I trecv])))))"

definition xfer_main :: "nat \<Rightarrow> string list \<Rightarrow> int prog" where
  "xfer_main ps argv =
     (case xfer_args argv of
        Bad_usage \<Rightarrow> seq (usage (argv ! 0)) (exit_prog 1)
      | Server how verbose \<Rightarrow>
          bind (icall (Call ''socket'' [S ''AF_INET'', S ''SOCK_STREAM'', I 0])) (\<lambda>sd.
            if sd = -1 then err_exit (argv ! 0) ''socket creation error'' 1
            else seq (xfer_VP verbose (''%s: tcp socket created'' @ [LF]) [S (argv ! 0)])
                (seq (server_setup verbose sd (argv ! 0))
                (bind (xfer_server verbose ps sd how (argv ! 0) ()) (\<lambda>_.
                 bind (r_close sd) (\<lambda>_. ret 0)))))
      | Client verbose \<Rightarrow>
          bind (icall (Call ''socket'' [S ''AF_INET'', S ''SOCK_STREAM'', I 0])) (\<lambda>sd.
            if sd = -1 then err_exit (argv ! 0) ''socket creation error'' 1
            else seq (xfer_VP verbose (''%s: tcp socket created'' @ [LF]) [S (argv ! 0)])
                (seq (xfer_client verbose ps sd (argv ! 0) (argv ! 1))
                (bind (r_close sd) (\<lambda>_. ret 0)))))"

section \<open>The copy loop\<close>

lemma err_exit_not_Val [simp]: "err_exit prg err n w \<noteq> (Val y, v)"
  by (simp add: err_exit_def prog_simps)

lemma xfer_step_copied:
  assumes "xfer_step ps src dst prg e1 e2 t w = (Val (g, t'), v)" and "kernel_ok (trace v)" and "ps < 2 ^ 63"
  shows "\<exists>s. copied src dst s w v \<and> t' = t + int (length s) \<and> (g \<longleftrightarrow> s \<noteq> []) \<and> extends w v"
proof -
  from assms(1) obtain r u where r: "r_read src ps w = (Val r, u)"
    and rest: "(let nr = retval r in if nr = 0 then ret (False, t) else if nr < 0 then err_exit prg e1 1
       else bind (r_write dst (payload r) (nat nr)) (\<lambda>k.
         if k \<le> 0 then err_exit prg e2 1
         else if INT_MAX < t + nr then stop (Undef ''signed overflow'')
         else ret (True, t + nr))) u = (Val (g, t'), v)"
    unfolding xfer_step_def by (rule bind_ValE)
  have ru: "extends w u" using r by (rule robbins.rd_extends)
  show ?thesis
  proof (cases "retval r = 0")
    case True
    with rest have v: "v = u" "t' = t" "\<not> g" by (simp_all add: ret_apply)
    with assms(2) robbins.rd_ok[OF r] have "reply_ok (Read src ps) r" by simp
    with True have "payload r = []" by (auto elim: read_ok_cases)
    with robbins.rd_delta[OF r] v ru show ?thesis by (intro exI[of _ "[]"]) (simp add: copied_def)
  next
    case False
    with rest have nn: "\<not> retval r < 0" by (auto simp: Let_def)
    with rest False obtain k where k: "r_write dst (payload r) (nat (retval r)) u = (Val k, v)" "0 < k"
      "g" "t' = t + retval r"
      by (auto simp: Let_def ret_apply stop_apply elim!: bind_ValE split: if_splits)
    have pos: "0 \<le> retval r" "0 \<le> k" using nn k by simp_all
    from robbins.chunk_copied[OF r k(1) assms(2,3) pos] robbins.chunk_length[OF r k(1) assms(2) pos(1)]
    show ?thesis using False k by (intro exI[of _ "payload r"]) auto
  qed
qed

lemma xfer_loop_copied:
  "xfer_loop ps src dst prg e1 e2 t w = (Val t', v) \<Longrightarrow> kernel_ok (trace v) \<Longrightarrow> ps < 2 ^ 63 \<Longrightarrow>
   \<exists>s. copied src dst s w v \<and> t' = t + int (length s) \<and> extends w v"
proof (induction ps src dst prg e1 e2 t w rule: xfer_loop.induct)
  case (1 ps src dst prg e1 e2 t w)
  from "1.prems"(1) obtain g t1 u where st: "xfer_step ps src dst prg e1 e2 t w = (Val (g, t1), u)"
    and rest: "(if g then xfer_loop ps src dst prg e1 e2 t1 u else ret t1 u) = (Val t', v)"
    by (subst (asm) xfer_loop.simps) (auto elim!: bind_ValE)
  show ?case
  proof (cases g)
    case True
    with rest have "xfer_loop ps src dst prg e1 e2 t1 u = (Val t', v)" by simp
    from "1.IH"[OF st refl True this "1.prems"(2,3)]
    obtain s where s: "copied src dst s u v" "t' = t1 + int (length s)" "extends u v" by blast
    from xfer_step_copied[OF st extends_kernel_ok[OF s(3) "1.prems"(2)] "1.prems"(3)]
    obtain s0 where "copied src dst s0 w u" "t1 = t + int (length s0)" "extends w u" by blast
    with s show ?thesis by (intro exI[of _ "s0 @ s"]) (auto intro: copied_trans extends_trans)
  next
    case False
    with rest have "v = u" "t' = t1" by (simp_all add: ret_apply)
    with xfer_step_copied[OF st _ "1.prems"(3)] "1.prems"(2) False show ?thesis by auto
  qed
qed


lemma quiet_VP: "emits quiet (xfer_VP verbose str args)"
  unfolding xfer_VP_def by (intro emits_intros) simp

lemmas quiet_parts = quiet_run[OF quiet_icall] quiet_run[OF quiet_VP] quiet_run[OF quiet_wrappers(1)]
  quiet_run[OF quiet_wrappers(2)] quiet_run[OF quiet_wrappers(3)] quiet_run[OF quiet_free]

lemma process_client_traditional:
  assumes run: "process_client verbose ps sd TRADITIONAL prg w = (Val x, v)"
    and ok: "kernel_ok (trace v)" "ps < 2 ^ 63"
  shows "\<exists>req fd s. io_delta (\<lambda>f. only sd req f @ only fd s f) (only sd s) w v \<and>
    opened (trace v) (cstr req) fd"
proof -
  from run obtain p r f1 a1 fd f2 a2 t f3 a3 c1 c2 w1 w2 w3 w4 w5 w6 w7 w8 w9 where
    "icall (Call ''malloc'' [I (int PATH_MAX)]) w = (Val p, w1)"
    "syscall (Read sd PATH_MAX) w1 = (Val r, w2)"
    "xfer_VP verbose f1 a1 w2 = (Val (), w3)"
    "r_open2 (cstr (payload r)) ''O_RDONLY'' w3 = (Val fd, w4)"
    "xfer_VP verbose f2 a2 w4 = (Val (), w5)"
    "xfer_loop ps fd sd prg ''svr: read error'' ''svr: write error'' 0 w5 = (Val t, w6)"
    "xfer_VP verbose f3 a3 w6 = (Val (), w7)" "emit (Did ''free'' [I p]) w7 = (Val (), w8)"
    "r_close fd w8 = (Val c1, w9)" "r_close sd w9 = (Val c2, v)"
    unfolding process_client_def Let_def
    by (auto simp: seq_def stop_apply ret_apply elim!: bind_ValE split: if_splits)
  note st = this
  note q = quiet_parts(1,2)[OF st(1)] quiet_parts(3,4)[OF st(3)] quiet_parts(7,8)[OF st(4)]
    quiet_parts(3,4)[OF st(5)] quiet_parts(3,4)[OF st(7)] quiet_parts(11,12)[OF st(8)]
    quiet_parts(5,6)[OF st(9)] quiet_parts(5,6)[OF st(10)]
  have w6v: "extends w6 v" using q(10,12,14,16) by (blast intro: extends_trans)
  then have "kernel_ok (trace w6)" using ok(1) by (rule extends_kernel_ok)
  from xfer_loop_copied[OF st(6) this ok(2)] obtain s where s: "copied fd sd s w5 w6" "extends w5 w6" by blast
  have rd: "io_delta (only sd (payload r)) nothing w1 w2"
    using syscall_Val_script[OF st(2)] io_delta_Read by blast
  have "io_delta (\<lambda>f. only sd (payload r) f @ only fd s f) (only sd s) w v"
    using q(1,3,5,7,9,11,13,15) rd s(1) by (simp add: io_delta_def copied_def)
  moreover have "extends w4 v" using q(8) s(2) w6v by (blast intro: extends_trans)
  then have "opened (trace v) (cstr (payload r)) fd"
    using opened_extends[OF r_open2_opened[OF st(4)]] by blast
  ultimately show ?thesis by blast
qed

lemma xfer_client_stores:
  assumes run: "xfer_client verbose ps sd prg name w = (Val x, v)"
    and ok: "kernel_ok (trace v)" "ps < 2 ^ 63" "length name < 2 ^ 63"
  shows "\<exists>fd s. io_delta (only sd s) (\<lambda>f. only sd name f @ only fd s f) w v \<and>
    opened (trace v) DESTFILE fd"
proof -
  from run obtain c0 k fd fl md t c1 f1 a1 w1 w2 w3 w4 w5 where
    "icall (Call ''connect'' [I sd, S SERV_IP, I SERV_PORT]) w = (Val c0, w1)"
    "r_write sd name (length name) w1 = (Val k, w2)" "\<not> k < 0"
    "r_open3 DESTFILE fl md w2 = (Val fd, w3)"
    "xfer_loop ps sd fd prg ''cli: read error'' ''cli: write error'' 0 w3 = (Val t, w4)"
    "r_close fd w4 = (Val c1, w5)" "xfer_VP verbose f1 a1 w5 = (Val (), v)"
    unfolding xfer_client_def
    by (auto simp: seq_def stop_apply ret_apply elim!: bind_ValE split: if_splits)
  note st = this
  note q = quiet_parts(1,2)[OF st(1)] quiet_parts(9,10)[OF st(4)] quiet_parts(5,6)[OF st(6)] quiet_parts(3,4)[OF st(7)]
  have w4v: "extends w4 v" using q(6,8) by (blast intro: extends_trans)
  then have "kernel_ok (trace w4)" using ok(1) by (rule extends_kernel_ok)
  from xfer_loop_copied[OF st(5) this ok(2)] obtain s where s: "copied sd fd s w3 w4" "extends w3 w4" by blast
  have w2v: "extends w2 v" using q(4) s(2) w4v by (blast intro: extends_trans)
  have wr: "io_delta nothing (only sd name) w1 w2"
    using robbins.wr_all[OF st(2) extends_kernel_ok[OF w2v ok(1)] ok(3)] st(3) by simp
  have "io_delta (only sd s) (\<lambda>f. only sd name f @ only fd s f) w v"
    using q(1,3,5,7) wr s(1) by (simp add: io_delta_def copied_def)
  moreover have "extends w3 v" using s(2) w4v by (blast intro: extends_trans)
  then have "opened (trace v) DESTFILE fd"
    using opened_extends[OF r_open3_opened[OF st(4)]] by blast
  ultimately show ?thesis by blast
qed



end
