(* ===== verification/SysVSem.thy ===== *)
theory SysVSem
  imports Threads Restart
begin

text \<open>
  The programs that guard a file with a System V semaphore: the library
  \<^verbatim>\<open>src/ipc/SYS_V_ipc/sem/real/sem_lib.h\<close>, its clients \<^verbatim>\<open>sem1.c\<close> and \<^verbatim>\<open>sem2.c\<close>,
  the simpler \<^verbatim>\<open>src/ipc/SYS_V_ipc/sem/simple/sem1.c\<close> and \<^verbatim>\<open>semdemo.c\<close>. The
  processes are programs that run interleaved; the semaphore itself is the
  kernel's, and what it promises is \<open>sem_run\<close>.
\<close>

unbundle bit_operations_syntax

section \<open>The library\<close>

abbreviation (input) SEM_UNDO :: int where "SEM_UNDO \<equiv> 4096"
abbreviation (input) IPC_NOWAIT :: int where "IPC_NOWAIT \<equiv> 2048"

definition s16 :: "int \<Rightarrow> int" where
  "s16 x = (x + 2 ^ 15) mod 2 ^ 16 - 2 ^ 15"

record sembuf =
  sem_num :: int
  sem_op :: int
  sem_flg :: int

definition initelement :: "int \<Rightarrow> int \<Rightarrow> int \<Rightarrow> int prog" where
  "initelement semid semnum semvalue = icall (Call ''semctl'' [I semid, I semnum, S ''SETVAL'', I semvalue])"

text \<open>The member \<open>sem_num\<close> is an unsigned short; the structure is returned.\<close>

definition setsembuf :: "int \<Rightarrow> int \<Rightarrow> int \<Rightarrow> sembuf" where
  "setsembuf num op flg = \<lparr>sem_num = s16 num mod 2 ^ 16, sem_op = s16 op, sem_flg = s16 flg\<rparr>"

definition sops_args :: "sembuf list \<Rightarrow> arg list" where
  "sops_args sops = concat (map (\<lambda>s. [I (sem_num s), I (sem_op s), I (sem_flg s)]) sops)"

abbreviation semop_call :: "int \<Rightarrow> sembuf list \<Rightarrow> call" where
  "semop_call semid sops \<equiv> Call ''semop'' (I semid # sops_args sops)"

function r_semop :: "int \<Rightarrow> sembuf list \<Rightarrow> int prog" where
  "r_semop semid sops w = bind (icall (semop_call semid sops)) (\<lambda>r w.
     if r = -1 then (if errno w \<noteq> EINTR then ret (-1) w else r_semop semid sops w) else ret 0 w) w"
  by pat_completeness auto
termination
  by (relation "measure (\<lambda>(i, s, w). length (script w))") (auto dest: consumesD[OF consumes_icall])

declare r_semop.simps [simp del]

definition removesem :: "int \<Rightarrow> int prog" where
  "removesem semid = icall (Call ''semctl'' [I semid, I 0, S ''IPC_RMID''])"


section \<open>sem1.c and sem2.c\<close>

abbreviation (input) MY_KEY :: int where "MY_KEY \<equiv> 1193556"
abbreviation (input) APPNAME :: string where "APPNAME \<equiv> ''Sem1''"
abbreviation (input) SLEEP_TIME :: int where "SLEEP_TIME \<equiv> 10"
abbreviation (input) MAX_TRIES :: nat where "MAX_TRIES \<equiv> 10"

abbreviation getpid :: "int prog" where "getpid \<equiv> icall (Call ''getpid'' [])"

text \<open>The end of a process is an event: with it the kernel undoes its semaphore operations.\<close>

definition sem_exit :: "int \<Rightarrow> 'a prog" where
  "sem_exit n = seq (emit (Did ''exit'' [I n])) (exit_prog n)"

definition INFO :: "string \<Rightarrow> arg list \<Rightarrow> unit prog" where
  "INFO str args = bind getpid (\<lambda>pid. eprintf (''%s:[%ld]: '' @ str) (S APPNAME # I pid # args))"

text \<open>The message of \<open>strerror\<close> is printed by its number.\<close>

definition printerror :: "string \<Rightarrow> string \<Rightarrow> int \<Rightarrow> unit prog" where
  "printerror prg msg error =
     bind getpid (\<lambda>pid. eprintf (''%s:[%ld]:%s:%s'' @ [LF]) [S prg, I pid, S msg, I error])"

abbreviation printerrno :: "string \<Rightarrow> string \<Rightarrow> unit prog" where
  "printerrno prg msg \<equiv> bind get_errno (printerror prg msg)"

definition sigfunc :: "int \<Rightarrow> unit prog" where
  "sigfunc signum = INFO (''**Signal %d interruption!**'' @ [LF]) [I signum]"

definition sem_usage :: "string list \<Rightarrow> unit prog" where
  "sem_usage argv = whenp (length argv \<noteq> 2)
     (seq (eprintf (''Usage: %s file_to_[un]lock'' @ [LF] @ [LF] @ ''***NOTE*** The file will be written to.'' @ [LF])
         [S (argv ! 0)])
       (sem_exit 2))"

definition sem_signals :: "string \<Rightarrow> unit prog" where
  "sem_signals prg =
     bind (bind (icall (Call ''sigaction'' [S ''SIGINT'', S ''sigfunc'', S ''SA_RESTART''])) (\<lambda>a.
         if a \<noteq> 0 then ret True
         else bind (icall (Call ''sigaction'' [S ''SIGQUIT'', S ''sigfunc'', S ''SA_RESTART''])) (\<lambda>b. ret (b = -1))))
       (\<lambda>failed. whenp failed (seq (printerrno prg ''sigaction failure'') (sem_exit 1)))"

definition sem1_get :: "string \<Rightarrow> int prog" where
  "sem1_get prg = bind (icall (Call ''semget'' [I MY_KEY, I 0, S ''0''])) (\<lambda>semid.
     if semid = -1 then
       bind (icall (Call ''semget'' [I MY_KEY, I 1, S ''IPC_CREAT|IPC_EXCL|SEM_PERMS''])) (\<lambda>semid.
       bind get_errno (\<lambda>errno.
         if semid = -1 \<and> errno = EEXIST then
           bind (icall (Call ''semget'' [I MY_KEY, I 0, S ''0''])) (\<lambda>semid.
             if semid = -1 then seq (printerrno prg ''semget failure 1'') (sem_exit 1)
             else seq (printerrno prg ''semget failure 2'') (sem_exit 1))
         else ret semid))
     else ret semid)"

definition semlock :: "sembuf list" where
  "semlock = [setsembuf 0 0 0, setsembuf 0 1 SEM_UNDO]"

definition semunlock :: sembuf where
  "semunlock = setsembuf 0 (-1) (IPC_NOWAIT OR SEM_UNDO)"

definition sem_lock :: "string \<Rightarrow> string \<Rightarrow> int \<Rightarrow> unit prog" where
  "sem_lock prg file semid =
     seq (INFO (''(Attempting to) Lock resource (file %s) now...'' @ [LF]) [S file])
       (bind (r_semop semid semlock) (\<lambda>r.
         if r < 0 then seq (printerrno prg ''semaphore locking failure'') (sem_exit 1)
         else INFO (''File locked..'' @ [LF]) []))"

text \<open>What \<open>fgets\<close> has stored in \<open>dtbuf\<close> is in the reply; it is empty when \<open>fgets\<close> returns NULL.\<close>

definition sem_record :: "string \<Rightarrow> string prog" where
  "sem_record prg = bind (icall (Call ''popen'' [S ''date'', S ''r''])) (\<lambda>fp.
     seq (whenp (fp = 0) (printerrno prg ''popen failure''))
       (if fp = 0 then stop (Undef ''fgets on a null pointer'')
        else bind (syscall (Call ''fgets'' [I 80, I fp])) (\<lambda>r.
          seq (whenp (payload r = []) (printerrno prg ''fgets failure''))
            (bind (icall (Call ''pclose'' [I fp])) (\<lambda>c.
              seq (whenp (c = -1) (printerrno prg ''pclose failure''))
                (bind getpid (\<lambda>pid. bind getpid (\<lambda>pid'.
                  ret (snprintf 128 ([LF] @ ''%s:[%ld]: %s: %s.%ld'')
                    [S APPNAME, I pid, S (cstr (payload r)),
                     S ''This is the sample record written to end of file by Sem1'', I pid'])))))))))"

definition sem_unlock :: "string \<Rightarrow> int \<Rightarrow> unit prog" where
  "sem_unlock prg semid = bind (r_semop semid [semunlock]) (\<lambda>r.
     if r < 0 then seq (printerrno prg ''semaphore unlocking failure'') (sem_exit 1) else skip)"

text \<open>
  Steps 4 to 6, the same text in both programs but for the call that sleeps,
  which is the argument \<open>zzz\<close>.
\<close>

definition sem_process :: "unit prog \<Rightarrow> string \<Rightarrow> string \<Rightarrow> int \<Rightarrow> unit prog" where
  "sem_process zzz prg file semid =
     seq (INFO (''File processing is taking place now..'' @ [LF]) [])
       (bind (icall (Call ''open'' [S file, S ''O_RDWR|O_APPEND|O_CREAT'', S ''FILE_PERMS''])) (\<lambda>fd.
         if fd = -1 then seq (printerrno prg ''File open failure'') (sem_exit 1)
         else bind (sem_record prg) (\<lambda>buf.
           bind (icall (Write fd buf)) (\<lambda>n.
             if s32 n = -1 then
               seq (printerrno prg ''File write failed, aborting..'')
                 (bind (icall (Close fd)) (\<lambda>_. seq (sem_unlock prg semid) (sem_exit 1)))
             else
               seq zzz
                 (bind (icall (Close fd)) (\<lambda>_.
                   seq (INFO (''Processing done - Write of %d bytes'' @ [LF]) [I (s32 n)])
                     (seq (sem_unlock prg semid)
                       (seq (INFO (''File (semaphore) unlocked. Exiting..'' @ [LF]) []) (sem_exit 0)))))))))"

definition sem1_main :: "string list \<Rightarrow> unit prog" where
  "sem1_main argv =
     seq (sem_usage argv)
       (seq (sem_signals (argv ! 0))
         (bind (sem1_get (argv ! 0)) (\<lambda>semid.
           seq (INFO (''Fetched semaphore ID (for key 0x%x) is %d'' @ [LF]) [I MY_KEY, I semid])
             (seq (sem_lock (argv ! 0) (argv ! 1) semid)
               (sem_process (bind (icall (Call ''sleep'' [I SLEEP_TIME])) (\<lambda>_. skip)) (argv ! 0) (argv ! 1) semid)))))"

text \<open>
  The process that has found the semaphore in place waits until \<open>sem_otime\<close>,
  which a reply to \<open>IPC_STAT\<close> carries, is set.
\<close>

fun sem2_wait :: "nat \<Rightarrow> string \<Rightarrow> int \<Rightarrow> unit prog" where
  "sem2_wait 0 prg semid =
     seq (printerrno prg ''semget succeeded but sem not initialized'') (sem_exit 1)"
| "sem2_wait (Suc n) prg semid =
     bind (syscall (Call ''semctl'' [I semid, I 0, S ''IPC_STAT''])) (\<lambda>r.
       seq (whenp (retval r = -1) (printerrno prg ''in loop:semctl semaphore init failure''))
         (if out 0 r \<noteq> 0 then skip
          else bind (icall (Call ''sleep'' [I 1])) (\<lambda>_. sem2_wait n prg semid)))"

text \<open>
  The first call of \<open>semctl\<close> passes the address of the union itself, so when
  it succeeds the kernel has written a whole \<open>semid_ds\<close> over it.
\<close>

definition sem2_first :: "string \<Rightarrow> int \<Rightarrow> int prog" where
  "sem2_first prg semid =
     bind (initelement semid 0 1) (\<lambda>r.
       seq (whenp (r = -1) (printerrno prg ''initelement (semctl) semaphore init failure''))
         (bind getpid (\<lambda>pid.
           seq (INFO (''This process [%d] first to initialize sem...'' @ [LF]) [I pid]) (ret semid))))"

definition sem2_second :: "string \<Rightarrow> int prog" where
  "sem2_second prg =
     bind (icall (Call ''semget'' [I MY_KEY, I 1, S ''SEM_PERMS''])) (\<lambda>semid.
     bind (icall (Call ''semctl'' [I semid, I 0, S ''IPC_STAT''])) (\<lambda>r.
       if r = -1 then
         seq (printerrno prg ''semctl semaphore init failure'')
           (seq (INFO (''Attempting initialization loop now...'' @ [LF]) [])
             (seq (sem2_wait MAX_TRIES prg semid) (ret semid)))
       else stop (Undef ''semid_ds written over the union'')))"

definition sem2_get :: "string \<Rightarrow> int prog" where
  "sem2_get prg =
     bind (icall (Call ''semget'' [I MY_KEY, I 1, S ''IPC_CREAT|IPC_EXCL|SEM_PERMS''])) (\<lambda>semid.
     bind get_errno (\<lambda>errno.
       if 0 \<le> semid then sem2_first prg semid
       else if errno = EEXIST then sem2_second prg
       else seq (printerrno prg ''semget failed.'') (sem_exit 1)))"

text \<open>
  The global \<open>initflag\<close> is 0 in a new process. The source calls an \<open>r_sleep\<close> of
  one argument that it does not define; it is the argument \<open>r_sleep\<close> here.
\<close>

definition sem2_main :: "(int \<Rightarrow> unit prog) \<Rightarrow> string list \<Rightarrow> unit prog" where
  "sem2_main r_sleep argv =
     seq (sem_usage argv)
       (seq (sem_signals (argv ! 0))
         (bind (sem2_get (argv ! 0)) (\<lambda>semid.
           seq (INFO (''Fetched (and initialized) semaphore ID (for key 0x%x) is %d'' @ [LF]) [I MY_KEY, I semid])
             (seq (sem_lock (argv ! 0) (argv ! 1) semid)
               (sem_process (r_sleep SLEEP_TIME) (argv ! 0) (argv ! 1) semid)))))"


section \<open>The simple version\<close>

definition semop_lock :: "sembuf list" where
  "semop_lock = [\<lparr>sem_num = 0, sem_op = 0, sem_flg = 0\<rparr>, \<lparr>sem_num = 0, sem_op = 1, sem_flg = SEM_UNDO\<rparr>]"

definition semop_unlock :: "sembuf list" where
  "semop_unlock = [\<lparr>sem_num = 0, sem_op = -1, sem_flg = IPC_NOWAIT OR SEM_UNDO\<rparr>]"

definition simple_get :: "int prog" where
  "simple_get = bind (icall (Call ''semget'' [I 123654, I 1, S ''IPC_CREAT | IPC_EXCL | 0666''])) (\<lambda>semid.
     if semid = -1 then
       bind get_errno (\<lambda>errno.
       seq (perror ''Semaphore create'')
         (if errno \<noteq> EEXIST then seq (perror ''semget failure'') (sem_exit 1)
          else bind (icall (Call ''semget'' [I 123654, I 1, S ''0''])) (\<lambda>semid.
            if semid = -1 then seq (perror ''Semaphore create'') (sem_exit 1) else ret semid)))
     else ret semid)"

definition simple_unlock :: "int \<Rightarrow> unit prog" where
  "simple_unlock semid = bind (icall (semop_call semid semop_unlock)) (\<lambda>r.
     if r < 0 then seq (perror ''sem unlock error'') (sem_exit 1) else skip)"

text \<open>When \<open>fgets\<close> fails the source asks \<open>semop\<close> to perform two operations of an array of one.\<close>

definition simple_process :: "string \<Rightarrow> string \<Rightarrow> int \<Rightarrow> unit prog" where
  "simple_process prg file semid =
     seq (printf ([LF] @ ''Sem1: File processing is taking place now..'') [])
       (seq (emit (Flush 1))
         (bind (icall (Call ''open'' [S file, S ''O_RDWR|O_CREAT|O_APPEND'', S ''0644''])) (\<lambda>fd.
           if fd = -1 then seq (perror ''File open failure'') (sem_exit 1)
           else bind (icall (Call ''popen'' [S ''date'', S ''r''])) (\<lambda>fp.
             if fp = 0 then stop (Undef ''fgets on a null pointer'')
             else bind (syscall (Call ''fgets'' [I 80, I fp])) (\<lambda>r.
               if payload r = [] then
                 seq (eprintf (''%s: fgets failed!'' @ [LF]) [S prg])
                   (stop (Undef ''semop reads past the array semop_unlock''))
               else bind (icall (Call ''pclose'' [I fp])) (\<lambda>_.
                 bind getpid (\<lambda>pid.
                   let buf = cformat ([LF] @ ''---'' @ [LF] @ ''Sem1: PID %d: %s: %s'' @ [LF])
                     [I pid, S (cstr (payload r)), S ''This is the sample record written to end of file by sem1.'']
                   in if 255 \<le> length buf then stop (Undef ''buf overflow'')
                   else bind (icall (Write fd buf)) (\<lambda>n.
                     if s32 n = -1 then
                       seq (perror ''File write failed'')
                         (bind (icall (Close fd)) (\<lambda>_. seq (simple_unlock semid) (sem_exit 1)))
                     else
                       bind (icall (Call ''sleep'' [I 5])) (\<lambda>_.
                       bind (icall (Close fd)) (\<lambda>_.
                         seq (printf ([LF] @ ''Sem1: Processing done - Write of %d bytes'' @ [LF]) [I (s32 n)])
                           (seq (simple_unlock semid)
                             (seq (printf ([LF] @ ''Sem1: File (semaphore) unlocked'' @ [LF] @ ''Sem1 exiting..'') [])
                               (sem_exit 0)))))))))))))"

definition simple_sem1_main :: "string list \<Rightarrow> unit prog" where
  "simple_sem1_main argv =
     seq (whenp (length argv \<noteq> 2)
         (seq (eprintf (''Usage: %s filename'' @ [LF]) [S (argv ! 0)]) (sem_exit 2)))
       (bind simple_get (\<lambda>semid.
         seq (printf ([LF] @ ''Sem1: Fetched semaphore..id = %d'' @ [LF]) [I semid])
           (seq (printf ([LF] @ ''Sem1: Locking resource (file %s)...'') [S (argv ! 1)])
             (bind (icall (semop_call semid semop_lock)) (\<lambda>r.
               seq (if r < 0 then seq (perror ''sem lock error'') (sem_exit 1)
                    else printf ([LF] @ ''Sem1: File locked..'') [])
                 (simple_process (argv ! 0) (argv ! 1) semid))))))"


section \<open>semdemo.c\<close>

text \<open>
  Frees the semaphores of a new set; the loop variable is an unsigned short,
  so \<open>nsems\<close> is at most 65535. The result says whether every call succeeded.
\<close>

fun free_sems :: "int \<Rightarrow> int list \<Rightarrow> bool prog" where
  "free_sems semid [] = ret True"
| "free_sems semid (num # nums) =
     bind (icall (semop_call semid [\<lparr>sem_num = num, sem_op = 1, sem_flg = 0\<rparr>])) (\<lambda>r.
       if r = -1 then
         bind get_errno (\<lambda>e.
         bind (icall (Call ''semctl'' [I semid, I 0, S ''IPC_RMID''])) (\<lambda>_.
         seq (set_errno e) (ret False)))
       else free_sems semid nums)"

fun wait_ready :: "nat \<Rightarrow> int \<Rightarrow> int \<Rightarrow> bool prog" where
  "wait_ready 0 semid nsems = ret False"
| "wait_ready (Suc n) semid nsems =
     bind (syscall (Call ''semctl'' [I semid, I (nsems - 1), S ''IPC_STAT''])) (\<lambda>r.
       if out 0 r \<noteq> 0 then ret True
       else bind (icall (Call ''sleep'' [I 1])) (\<lambda>_. wait_ready n semid nsems))"

definition initsem :: "int \<Rightarrow> int \<Rightarrow> int prog" where
  "initsem key nsems =
     bind (icall (Call ''semget'' [I key, I nsems, S ''IPC_CREAT | IPC_EXCL | 0666''])) (\<lambda>semid.
     bind get_errno (\<lambda>errno.
       if 0 \<le> semid then
         bind getpid (\<lambda>pid.
         seq (printf (''initsem: process %d (us) here first'' @ [LF]) [I pid])
           (bind (free_sems semid [0..nsems - 1]) (\<lambda>ok. ret (if ok then semid else -1))))
       else if errno = EEXIST then
         seq (printf (''Semaphore already existing; fetch & wait for creator to init sem (in loop)'' @ [LF]) [])
           (bind (icall (Call ''semget'' [I key, I nsems, S ''0''])) (\<lambda>semid.
             if semid < 0 then ret semid
             else bind (wait_ready 10 semid nsems) (\<lambda>ready.
               if \<not> ready then seq (set_errno ETIME) (ret (-1)) else ret semid)))
       else ret semid))"

definition semdemo_main :: "int prog" where
  "semdemo_main =
     bind (icall (Call ''ftok'' [S ''semdemo.c'', Ch CHR ''J''])) (\<lambda>key.
       if key = -1 then seq (perror ''ftok'') (sem_exit 1)
       else bind (initsem key 1) (\<lambda>semid.
         if semid = -1 then seq (perror ''initsem'') (sem_exit 1)
         else
           seq (printf ''Press return to lock: '' [])
             (bind (icall (Call ''getchar'' [])) (\<lambda>_.
             seq (printf (''Trying to lock...'' @ [LF]) [])
               (bind (icall (semop_call semid [\<lparr>sem_num = 0, sem_op = -1, sem_flg = SEM_UNDO\<rparr>])) (\<lambda>r.
                 if r = -1 then seq (perror ''semop'') (sem_exit 1)
                 else
                   seq (printf (''Locked.'' @ [LF]) [])
                     (seq (printf ''Press return to unlock: '' [])
                       (bind (icall (Call ''getchar'' [])) (\<lambda>_.
                       bind (icall (semop_call semid [\<lparr>sem_num = 0, sem_op = 1, sem_flg = SEM_UNDO\<rparr>])) (\<lambda>r.
                         if r = -1 then seq (perror ''semop'') (sem_exit 1)
                         else seq (printf (''Unlocked'' @ [LF]) []) (ret 0)))))))))))"

section \<open>The semaphore\<close>

text \<open>
  The state of a set of one semaphore: its value, whether \<open>semop\<close> has been
  performed (\<open>sem_otime\<close> is not 0), and for each process the amount its end adds
  to the value. \<open>sem_apply\<close> performs a list of operations atomically; it is None
  when the caller has to wait.
\<close>

record semset =
  semval :: int
  otime_set :: bool
  semadj :: "nat \<Rightarrow> int"

definition sem_new :: semset where
  "sem_new = \<lparr>semval = 0, otime_set = False, semadj = (\<lambda>_. 0)\<rparr>"

fun sem_apply :: "arg list \<Rightarrow> int \<times> int \<Rightarrow> (int \<times> int) option" where
  "sem_apply (I n # I op # I flg # ops) (v, a) =
     (if n \<noteq> 0 then None
      else if op = 0 then (if v = 0 then sem_apply ops (v, a) else None)
      else if v + op < 0 then None
      else sem_apply ops (v + op, if flg AND SEM_UNDO = 0 then a else a - op))"
| "sem_apply [] va = Some va"
| "sem_apply _ va = None"

text \<open>
  What the kernel does with the set \<open>semid\<close>, by the events of the processes;
  None is something it never does. \<open>semget\<close> returns \<open>semid\<close> or fails; \<open>semop\<close>
  returns 0 only when its operations could be performed; setting the value and
  reading the state do not fail.
\<close>

fun sem_event :: "int \<Rightarrow> gevent \<Rightarrow> semset \<Rightarrow> semset option" where
  "sem_event semid (t, Sys (Call f args) r) st =
     (if f = ''semget'' then (if retval r = semid \<or> retval r = -1 then Some st else None)
      else if f = ''semop'' then
        (if retval r = -1 then Some st
         else if retval r = 0 \<and> args \<noteq> [] \<and> hd args = I semid then
           (case sem_apply (tl args) (semval st, semadj st t) of None \<Rightarrow> None
            | Some (v, a) \<Rightarrow> Some \<lparr>semval = v, otime_set = True, semadj = (semadj st)(t := a)\<rparr>)
         else None)
      else if f = ''semctl'' then
        (case args of [I i, I n, S cmd, I v] \<Rightarrow>
             if i = semid \<and> n = 0 \<and> cmd = ''SETVAL'' \<and> retval r \<noteq> -1
             then Some (st\<lparr>semval := v, semadj := (\<lambda>_. 0)\<rparr>) else None
         | [I i, I n, S cmd] \<Rightarrow>
             if i = semid \<and> cmd = ''IPC_STAT'' \<and> retval r \<noteq> -1 \<and> (out 0 r \<noteq> 0) = otime_set st
             then Some st else None
         | _ \<Rightarrow> None)
      else Some st)"
| "sem_event semid (t, Did f args) st =
     (if f = ''exit'' then Some (st\<lparr>semval := max 0 (semval st + semadj st t), semadj := (semadj st)(t := 0)\<rparr>)
      else Some st)"
| "sem_event semid (t, e) st = Some st"

fun sem_run :: "int \<Rightarrow> gevent list \<Rightarrow> semset \<Rightarrow> semset option" where
  "sem_run semid [] st = Some st"
| "sem_run semid (g # gs) st = (case sem_event semid g st of None \<Rightarrow> None | Some st' \<Rightarrow> sem_run semid gs st')"

lemma sem_run_append:
  "sem_run semid (gs @ hs) st = (case sem_run semid gs st of None \<Rightarrow> None | Some st' \<Rightarrow> sem_run semid hs st')"
  by (induction gs arbitrary: st) (auto split: option.splits)


section \<open>The semaphore as a lock\<close>

text \<open>
  What an event means for the lock: the two lock operations acquire it, the
  unlock operation releases it, and the calls on the file use it.
\<close>

definition sem_act :: "int \<Rightarrow> event \<Rightarrow> lock_act" where
  "sem_act semid e = (case e of
      Sys (Call f args) r \<Rightarrow>
        if f = ''semop'' then
          (if retval r = -1 then Neutral
           else if retval r = 0 \<and> args = I semid # sops_args semlock then Acquired
           else if retval r = 0 \<and> args = I semid # sops_args [semunlock] then Released
           else Misuse)
        else if f = ''semget'' then (if retval r = semid \<or> retval r = -1 then Neutral else Misuse)
        else if f = ''semctl'' then Misuse
        else if f = ''open'' then Uses else Neutral
    | Pending (Call f args) \<Rightarrow> if f = ''open'' then Uses else Neutral
    | Sys (Write fd s) r \<Rightarrow> Uses
    | Pending (Write fd s) \<Rightarrow> Uses
    | Sys (Close fd) r \<Rightarrow> Uses
    | Pending (Close fd) \<Rightarrow> Uses
    | Did f args \<Rightarrow> if f = ''exit'' then Dropped else Neutral
    | _ \<Rightarrow> Neutral)"

lemma sops_args_eval:
  "sops_args semlock = [I 0, I 0, I 0, I 0, I 1, I 4096]"
  "sops_args [semunlock] = [I 0, I (-1), I 6144]"
  "sops_args semop_lock = [I 0, I 0, I 0, I 0, I 1, I 4096]"
  "sops_args semop_unlock = [I 0, I (-1), I 6144]"
  by (simp_all add: sops_args_def semlock_def semunlock_def semop_lock_def semop_unlock_def setsembuf_def s16_def)

text \<open>The state of the semaphore that goes with a holder of the lock.\<close>

definition sem_agrees :: "semset \<Rightarrow> nat option \<Rightarrow> bool" where
  "sem_agrees st h \<longleftrightarrow> semval st = (if h = None then 0 else 1) \<and>
     (\<forall>t. semadj st t = (if h = Some t then -1 else 0))"

lemma sem_event_agrees:
  assumes "sem_event semid (t, e) st = Some st'" and "sem_agrees st h" and "sem_act semid e = Released \<Longrightarrow> h = Some t"
    and "sem_act semid e \<noteq> Misuse"
  shows "(sem_act semid e = Acquired \<longrightarrow> h = None) \<and> sem_agrees st' (holder_step (sem_act semid) (t, e) h)"
proof (cases e)
  case (Sys c r)
  show ?thesis
  proof (cases c)
    case (Call f args)
    show ?thesis
      using assms unfolding Sys Call
      by (cases "f = ''semop''"; cases "f = ''semget''"; cases "f = ''semctl''"; cases "f = ''open''")
        (auto simp: sem_act_def sem_agrees_def sops_args_eval split: if_splits option.splits)
  qed (use assms Sys in \<open>auto simp: sem_act_def\<close>)
next
  case (Pending c)
  with assms show ?thesis by (cases c) (auto simp: sem_act_def)
next
  case (Did f args)
  with assms show ?thesis by (cases h) (auto simp: sem_act_def sem_agrees_def split: if_splits)
qed (use assms in \<open>auto simp: sem_act_def\<close>)


text \<open>
  The processes that guard the file with the semaphore: each keeps to the
  discipline of the lock, and makes no call on the set other than the lock and
  the unlock operations. Whatever the kernel does with the semaphore, it then
  gives it to one process at a time.
\<close>

definition sem_calls :: "int \<Rightarrow> event \<Rightarrow> bool" where
  "sem_calls semid e \<longleftrightarrow> (sem_act semid e = Misuse \<longrightarrow> (\<forall>t st. sem_event semid (t, e) st = None))"

locale sem_users = lock_users "sem_act semid" thread for semid :: int and thread :: "nat \<Rightarrow> 'a prog" +
  assumes calls: "emits (sem_calls semid) (thread t)"
begin

lemma run_calls: "runs_of thread gs \<Longrightarrow> (t, e) \<in> set gs \<Longrightarrow> sem_calls semid e"
proof -
  assume "runs_of thread gs" and e: "(t, e) \<in> set gs"
  then obtain w where w: "trace w = []" "prefix (events_of t gs) (trace (snd (thread t w)))"
    unfolding runs_of_def by blast
  obtain x v where "thread t w = (x, v)" by (cases "thread t w")
  with calls[of t] w have "list_all (sem_calls semid) (events_of t gs)"
    by (auto elim!: emitsD simp: prefix_def)
  moreover have "e \<in> set (events_of t gs)" using e by (force simp: events_of_def)
  ultimately show "sem_calls semid e" by (simp add: list_all_iff)
qed

lemma granted:
  "runs_of thread gs \<Longrightarrow> sem_run semid gs sem_new = Some st \<Longrightarrow>
   lock_granted (sem_act semid) gs \<and> sem_agrees st (holder (sem_act semid) gs None)"
proof (induction gs arbitrary: st rule: rev_induct)
  case Nil
  then show ?case by (auto simp: lock_granted_def sem_agrees_def sem_new_def)
next
  case (snoc g gs)
  obtain t e where g: "g = (t, e)" by (cases g)
  from snoc.prems(2) obtain st0 where st0: "sem_run semid gs sem_new = Some st0" "sem_event semid (t, e) st0 = Some st"
    by (auto simp: sem_run_append g split: option.splits)
  have ih: "lock_granted (sem_act semid) gs" "sem_agrees st0 (holder (sem_act semid) gs None)"
    using snoc.IH[OF runs_of_append[OF snoc.prems(1)] st0(1)] by auto
  have "sem_calls semid e" using run_calls[OF snoc.prems(1)] g by auto
  with st0(2) have nm: "sem_act semid e \<noteq> Misuse" by (auto simp: sem_calls_def)
  have rel: "sem_act semid e = Released \<Longrightarrow> holder (sem_act semid) gs None = Some t"
  proof -
    assume "sem_act semid e = Released"
    moreover have "mrun (lock_disc (sem_act semid)) (events_of t (gs @ [g])) False \<noteq> Wrong"
      using snoc.prems(1) by (rule thread_ok)
    moreover have "mrun (lock_disc (sem_act semid)) (events_of t gs) False =
        At (holder (sem_act semid) gs None = Some t)"
      using holder_agrees[OF runs_of_append[OF snoc.prems(1)] ih(1)] by blast
    ultimately show "holder (sem_act semid) gs None = Some t" by (auto simp: mrun_append g split: if_splits)
  qed
  from sem_event_agrees[OF st0(2) ih(2) rel nm]
  have now: "sem_act semid e = Acquired \<Longrightarrow> holder (sem_act semid) gs None = None"
    "sem_agrees st (holder (sem_act semid) (gs @ [g]) None)" by (simp_all add: g holder_append)
  have "lock_granted (sem_act semid) (gs @ [g])"
    unfolding lock_granted_def
  proof (intro allI impI)
    fix hs u d rest
    assume eq: "gs @ [g] = hs @ (u, d) # rest"
    have "sem_act semid d \<noteq> Refused" by (simp add: sem_act_def split: event.splits call.splits)
    moreover have "(sem_act semid d = Acquired \<longrightarrow> holder (sem_act semid) hs None = None) \<and> sem_act semid d \<noteq> Misuse"
    proof (cases rest rule: rev_cases)
      case Nil
      with eq g now(1) nm show ?thesis by auto
    next
      case (snoc rest' z)
      with eq have "gs = hs @ (u, d) # rest'" by simp
      with ih(1) show ?thesis unfolding lock_granted_def by blast
    qed
    ultimately show "(sem_act semid d = Acquired \<longrightarrow> holder (sem_act semid) hs None = None) \<and>
        (sem_act semid d = Refused \<longrightarrow> holder (sem_act semid) hs None = Some u) \<and> sem_act semid d \<noteq> Misuse"
      by simp
  qed
  with now show ?case by blast
qed

lemma sem_exclusive:
  assumes "runs_of thread (gs @ (t, e) # mid @ (u, d) # rest)"
    and "sem_run semid (gs @ (t, e) # mid @ (u, d) # rest) sem_new \<noteq> None"
    and "sem_act semid e = Acquired" "sem_act semid d = Uses"
    and "\<forall>d'. (t, d') \<in> set mid \<longrightarrow> sem_act semid d' \<noteq> Released \<and> sem_act semid d' \<noteq> Dropped"
  shows "u = t"
  using exclusive[OF assms(1) _ assms(3-5)] granted[OF assms(1)] assms(2) by blast

end


section \<open>The processes keep to the discipline\<close>

lemma sem_retry_simps:
  "script w = [] \<Longrightarrow> r_semop semid sops w = (Halt Blocked, w\<lparr>trace := trace w @ [Pending (semop_call semid sops)]\<rparr>)"
  "script w = r # rs \<Longrightarrow> interrupted r (errno w) \<Longrightarrow>
     r_semop semid sops w = r_semop semid sops (answered (semop_call semid sops) r w)"
  "script w = r # rs \<Longrightarrow> \<not> interrupted r (errno w) \<Longrightarrow>
     r_semop semid sops w = (Val (if retval r = -1 then -1 else 0), answered (semop_call semid sops) r w)"
  by (subst r_semop.simps; simp add: prog_simps interrupted_def icall_def)+

interpretation semop: restartable "r_semop semid sops" "semop_call semid sops" "\<lambda>r. if retval r = -1 then -1 else 0"
  for semid sops
  by unfold_locales (fact sem_retry_simps)+

context restartable
begin

lemma tracks_restarted:
  assumes int: "\<And>r. retval r = -1 \<Longrightarrow> mon (Sys c r) s = At s" and pend: "mon (Pending c) s = At s"
    and ans: "\<And>r. holds (Q (res r)) (mon (Sys c r) s)"
  shows "tracks mon f Q s"
proof (rule tracksI)
  fix w
  obtain x v where fw: "f w = (x, v)" by (cases "f w")
  have stay: "mrun mon (map (Sys c) rs) s = At s" if "\<forall>i\<in>set rs. retval i = -1" for rs
    using that by (induction rs) (simp_all add: int)
  show "\<exists>es. trace (snd (f w)) = trace w @ es \<and>
     (case fst (f w) of Val x \<Rightarrow> holds (Q x) (mrun mon es s) | Halt h \<Rightarrow> holds (\<lambda>_. True) (mrun mon es s))"
  proof (cases x)
    case (Val y)
    from returns[OF fw[unfolded Val]] obtain ints r where "trace v = trace w @ map (Sys c) (ints @ [r])" "y = res r"
      "\<forall>i\<in>set ints. retval i = -1" by blast
    with fw Val ans[of r] show ?thesis
      by (auto simp: mrun_append stay intro!: exI[of _ "map (Sys c) (ints @ [r])"] split: verdict.splits)
  next
    case (Halt h)
    with halts[OF fw[unfolded Halt]] fw show ?thesis by (auto simp: mrun_append stay pend)
  qed
qed

end


lemma semop_tracks:
  "tracks (lock_disc (sem_act semid)) (r_semop i semlock) (\<lambda>r h. h = (0 \<le> r)) False"
  "tracks (lock_disc (sem_act semid)) (r_semop i [semunlock]) (\<lambda>r h. h = (r = -1)) True"
  by (intro semop.tracks_restarted; auto simp: sem_act_def lock_disc.simps sops_args_eval)+

lemma semop_appends: "appends (r_semop i sops)"
  by (intro semop.f_emits) simp_all

lemma sem_small_appends:
  "appends (INFO f xs)" "appends (printerror p m e)" "appends (sem_exit n)"
  unfolding INFO_def printerror_def sem_exit_def by (intro emits_intros TrueI)+

lemma sem_small_quiet:
  "emits (\<lambda>e. lock_disc (sem_act semid) e h = At h) (INFO f xs)"
  "emits (\<lambda>e. lock_disc (sem_act semid) e h = At h) (printerror p m n)"
  unfolding INFO_def printerror_def by (intro emits_intros; simp add: sem_act_def)+

lemma sem_exit_tracks: "tracks (lock_disc (sem_act semid)) (sem_exit n) Q h"
  unfolding sem_exit_def
  by (intro tracks_seq tracks_emit; auto simp: sem_act_def intro: tracks_stop emits_intros)

lemmas sem_appends = emits_intros TrueI semop_appends sem_small_appends
lemmas sem_quiet = tracks_quiet emits_intros sem_small_quiet sem_appends sem_exit_tracks

lemma sem_record_appends: "appends (sem_record prg)"
  unfolding sem_record_def by (intro sem_appends)

lemma sem_record_quiet: "emits (\<lambda>e. lock_disc (sem_act semid) e h = At h) (sem_record prg)"
  unfolding sem_record_def by (intro emits_intros sem_small_quiet; simp add: sem_act_def)

lemma sem_unlock_appends: "appends (sem_unlock prg i)"
  unfolding sem_unlock_def by (intro sem_appends)

lemma sem_unlock_tracks: "tracks (lock_disc (sem_act semid)) (sem_unlock prg i) (\<lambda>_ h. \<not> h) True"
  unfolding sem_unlock_def
  by (rule tracks_bind[OF semop_tracks(2)]) (auto intro!: sem_quiet tracks_skip)


lemma sem_process_appends: "appends zzz \<Longrightarrow> appends (sem_process zzz prg file i)"
  unfolding sem_process_def by (intro sem_appends sem_record_appends sem_unlock_appends)

lemma sem_unlock_then:
  assumes "tracks (lock_disc (sem_act semid)) n Q False" and "appends n"
  shows "tracks (lock_disc (sem_act semid)) (seq (sem_unlock prg i) n) Q True"
  by (rule tracks_seq[OF tracks_mono[OF sem_unlock_tracks] assms(2)]) (use assms in simp)

lemma sem_process_tracks:
  assumes zzz: "emits (\<lambda>e. lock_disc (sem_act semid) e True = At True) zzz" "appends zzz"
  shows "tracks (lock_disc (sem_act semid)) (sem_process zzz prg file i) (\<lambda>_ _. True) True"
  unfolding sem_process_def
  by (rule sem_unlock_then | rule tracks_quiet zzz sem_record_quiet sem_small_quiet sem_exit_tracks emits_intros
      TrueI sem_small_appends sem_record_appends sem_unlock_appends | (simp add: sem_act_def; fail))+

lemma sem1_before_lock:
  "tracks (lock_disc (sem_act semid)) (sem_usage argv) (\<lambda>_ h. \<not> h) False"
  "tracks (lock_disc (sem_act semid)) (sem_signals prg) (\<lambda>_ h. \<not> h) False"
  unfolding sem_usage_def sem_signals_def
  by (rule tracks_quiet tracks_whenp tracks_skip sem_exit_tracks sem_small_quiet emits_intros TrueI
      sem_small_appends | (simp add: sem_act_def; fail))+

lemma semget_tracks:
  "tracks (lock_disc (sem_act semid)) (icall (Call ''semget'' xs)) (\<lambda>_ h. \<not> h) False"
  by (rule tracks_icall) (auto simp: sem_act_def lock_disc.simps)

lemma semget_then:
  assumes "\<And>i. tracks (lock_disc (sem_act semid)) (k i) Q False" and "\<And>i. appends (k i)"
  shows "tracks (lock_disc (sem_act semid)) (bind (icall (Call ''semget'' xs)) k) Q False"
  by (rule tracks_bind[OF semget_tracks]) (use assms in auto)

lemma sem1_get_tracks: "tracks (lock_disc (sem_act semid)) (sem1_get prg) (\<lambda>_ h. \<not> h) False"
  unfolding sem1_get_def
  by (rule semget_then tracks_ret | rule tracks_quiet sem_exit_tracks sem_small_quiet emits_intros TrueI
      sem_small_appends | (simp add: sem_act_def; fail))+

lemma sem_lock_tracks: "tracks (lock_disc (sem_act semid)) (sem_lock prg file i) (\<lambda>_ h. h) False"
proof -
  let ?k = "\<lambda>r::int. if r < 0 then seq (printerrno prg ''semaphore locking failure'') (sem_exit 1)
      else INFO (''File locked..'' @ [LF]) []"
  have "tracks (lock_disc (sem_act semid)) (?k r) (\<lambda>_ h. h) (0 \<le> r)" for r
    by (rule tracks_if, intro tracks_quiet sem_exit_tracks sem_small_quiet sem_small_appends emits_intros)
      (simp add: tracks_silent[OF sem_small_quiet(1)])
  moreover have "appends (?k r)" for r by (intro sem_appends)
  ultimately have "tracks (lock_disc (sem_act semid)) (bind (r_semop i semlock) ?k) (\<lambda>_ h. h) False"
    by (intro tracks_bind[OF semop_tracks(1)]) auto
  then show ?thesis unfolding sem_lock_def
    by (rule tracks_quiet_seq[rotated]) (intro sem_small_quiet sem_appends)+
qed

lemma sem_start:
  assumes m: "tracks (lock_disc (sem_act semid)) m Q False" "appends m"
  shows "tracks (lock_disc (sem_act semid)) (seq (sem_usage argv) (seq (sem_signals prg) m)) Q False"
proof -
  have "tracks (lock_disc (sem_act semid)) (seq (sem_signals prg) m) Q False"
    by (rule tracks_seq[OF tracks_mono[OF sem1_before_lock(2)] m(2)]) (use m in simp)
  moreover have "appends (sem_signals prg)" unfolding sem_signals_def by (intro sem_appends)
  ultimately show ?thesis
    by (intro tracks_seq[OF tracks_mono[OF sem1_before_lock(1)]] emits_seq m(2)) auto
qed

lemma sem1_tracks: "tracks (lock_disc (sem_act semid)) (sem1_main argv) (\<lambda>_ _. True) False"
proof -
  let ?t = "tracks (lock_disc (sem_act semid))"
  let ?zzz = "bind (icall (Call ''sleep'' [I SLEEP_TIME])) (\<lambda>_. skip)"
  have zzz: "emits (\<lambda>e. lock_disc (sem_act semid) e True = At True) ?zzz" "appends ?zzz"
    by (intro emits_intros; simp add: sem_act_def)+
  let ?crit = "\<lambda>i. seq (sem_lock (argv ! 0) (argv ! 1) i) (sem_process ?zzz (argv ! 0) (argv ! 1) i)"
  have a: "appends (sem_lock p f i)" for p f i
    unfolding sem_lock_def by (intro sem_appends)
  have crit: "?t (?crit i) (\<lambda>_ _. True) False" for i
    by (rule tracks_seq[OF tracks_mono[OF sem_lock_tracks]])
      (use sem_process_tracks[OF zzz] sem_process_appends[OF zzz(2)] in auto)
  have ac: "appends (?crit i)" for i by (intro emits_intros a sem_process_appends zzz)
  let ?rest = "bind (sem1_get (argv ! 0)) (\<lambda>i.
      seq (INFO (''Fetched semaphore ID (for key 0x%x) is %d'' @ [LF]) [I MY_KEY, I i]) (?crit i))"
  have ar: "appends ?rest"
    unfolding sem1_get_def by (intro ac sem_appends)
  have "?t (seq (INFO (''Fetched semaphore ID (for key 0x%x) is %d'' @ [LF]) [I MY_KEY, I i]) (?crit i))
      (\<lambda>_ _. True) False" for i
    by (rule tracks_quiet_seq[OF sem_small_quiet(1) crit ac])
  then have "?t ?rest (\<lambda>_ _. True) False"
    by (intro tracks_bind[OF sem1_get_tracks] ac sem_appends) simp
  then show ?thesis unfolding sem1_main_def using ar by (rule sem_start)
qed

lemma sem1_calls: "emits (sem_calls semid) (sem1_main argv)"
  unfolding sem1_main_def sem_usage_def sem_signals_def sem1_get_def sem_lock_def sem_process_def sem_record_def
    sem_unlock_def sem_exit_def INFO_def printerror_def
  by (intro emits_intros semop.f_emits; auto simp: sem_calls_def sem_act_def sops_args_eval)

interpretation sem1: sem_users semid "\<lambda>t. sem1_main (argv t)" for semid argv
  by unfold_locales (rule sem1_tracks sem1_calls)+

section \<open>The simple version\<close>

lemma simple_calls: "emits (sem_calls semid) (simple_sem1_main argv)"
  unfolding simple_sem1_main_def simple_process_def simple_unlock_def simple_get_def sem_exit_def Let_def
  by (intro emits_intros; auto simp: sem_calls_def sem_act_def sops_args_eval)

lemma simple_semop_tracks:
  "tracks (lock_disc (sem_act semid)) (icall (semop_call i semop_lock)) (\<lambda>r h. h = (0 \<le> r)) False"
  "tracks (lock_disc (sem_act semid)) (icall (semop_call i semop_unlock)) (\<lambda>r h. h = (r < 0)) True"
  by (rule tracks_icall; auto simp: sem_act_def lock_disc.simps sops_args_eval)+

lemma simple_unlock_tracks: "tracks (lock_disc (sem_act semid)) (simple_unlock i) (\<lambda>_ h. \<not> h) True"
  unfolding simple_unlock_def
  by (rule tracks_bind[OF simple_semop_tracks(2)])
    (auto intro!: tracks_quiet_seq sem_exit_tracks sem_small_appends emits_intros tracks_skip simp: sem_act_def)

lemma simple_appends: "appends (simple_unlock i)" "appends (simple_process prg file i)" "appends simple_get"
  unfolding simple_unlock_def simple_process_def simple_get_def Let_def by (intro sem_appends)+

lemma simple_unlock_then:
  assumes "tracks (lock_disc (sem_act semid)) n Q False" and "appends n"
  shows "tracks (lock_disc (sem_act semid)) (seq (simple_unlock i) n) Q True"
  by (rule tracks_seq[OF tracks_mono[OF simple_unlock_tracks] assms(2)]) (use assms in simp)

lemma simple_process_tracks: "tracks (lock_disc (sem_act semid)) (simple_process prg file i) (\<lambda>_ _. True) True"
  unfolding simple_process_def Let_def
  by (rule simple_unlock_then | rule tracks_quiet sem_exit_tracks emits_intros TrueI sem_small_appends simple_appends
      | (simp add: sem_act_def; fail))+

lemma simple_get_tracks: "tracks (lock_disc (sem_act semid)) simple_get (\<lambda>_ h. \<not> h) False"
  unfolding simple_get_def
  by (rule semget_then tracks_ret | rule tracks_quiet sem_exit_tracks emits_intros TrueI sem_small_appends
      | (simp add: sem_act_def; fail))+

lemma simple_lock_tracks:
  "tracks (lock_disc (sem_act semid)) (bind (icall (semop_call i semop_lock)) (\<lambda>r.
      seq (if r < 0 then seq (perror m) (sem_exit 1) else printf f []) (simple_process prg file i)))
    (\<lambda>_ _. True) False"
proof (rule tracks_bind[OF simple_semop_tracks(1)])
  fix r :: int and h assume h: "h = (0 \<le> r)"
  show "tracks (lock_disc (sem_act semid)) (seq (if r < 0 then seq (perror m) (sem_exit 1) else printf f [])
      (simple_process prg file i)) (\<lambda>_ _. True) h"
  proof (cases "r < 0")
    case True
    with h show ?thesis
      by (auto intro!: tracks_seq[where m = "seq _ _"] tracks_quiet_seq sem_exit_tracks sem_small_appends simple_appends
          emits_intros simp: sem_act_def)
  next
    case False
    with h show ?thesis
      by (auto intro!: tracks_quiet_seq simple_process_tracks simple_appends emits_intros simp: sem_act_def)
  qed
qed (intro emits_intros sem_small_appends simple_appends TrueI)

lemma simple_tracks: "tracks (lock_disc (sem_act semid)) (simple_sem1_main argv) (\<lambda>_ _. True) False"
proof -
  let ?t = "tracks (lock_disc (sem_act semid))"
  let ?lock = "\<lambda>i. bind (icall (semop_call i semop_lock)) (\<lambda>r.
      seq (if r < 0 then seq (perror ''sem lock error'') (sem_exit 1) else printf ([LF] @ ''Sem1: File locked..'') [])
        (simple_process (argv ! 0) (argv ! 1) i))"
  have ap: "appends (?lock i)" for i by (intro emits_intros sem_small_appends simple_appends TrueI)
  have "?t (bind simple_get (\<lambda>i. seq (printf f [I i]) (seq (printf g [S (argv ! 1)]) (?lock i)))) (\<lambda>_ _. True) False" for f g
    by (rule tracks_bind[OF simple_get_tracks])
      (rule tracks_quiet_seq simple_lock_tracks emits_intros ap TrueI | (simp add: sem_act_def simple_lock_tracks; fail))+
  then show ?thesis unfolding simple_sem1_main_def
    by (intro tracks_seq[OF tracks_whenp] tracks_quiet_seq sem_exit_tracks emits_intros sem_small_appends ap
        simple_appends TrueI) (simp_all add: sem_act_def)
qed

interpretation simple: sem_users semid "\<lambda>t. simple_sem1_main (argv t)" for semid argv
  by unfold_locales (rule simple_tracks simple_calls)+

text \<open>
  C18: both versions of \<^verbatim>\<open>sem1.c\<close> give each process the file for itself: in every interleaving of
  processes that the semaphore allows, from the moment a process has performed
  the lock operations until it unlocks or ends, no other process opens, writes
  or closes the file. The semaphore starts at 0, and the kernel undoes the
  operations of a process that ends without unlocking.
\<close>

theorem sem1_exclusive:
  assumes main: "main = sem1_main \<or> main = simple_sem1_main"
    and "runs_of (\<lambda>t. main (argv t)) (gs @ (t, e) # mid @ (u, d) # rest)"
    and "sem_run semid (gs @ (t, e) # mid @ (u, d) # rest) sem_new \<noteq> None"
    and "sem_act semid e = Acquired" "sem_act semid d = Uses"
    and "\<forall>d'. (t, d') \<in> set mid \<longrightarrow> sem_act semid d' \<noteq> Released \<and> sem_act semid d' \<noteq> Dropped"
  shows "u = t"
  using main sem1.sem_exclusive[of argv] simple.sem_exclusive[of argv] assms(2-6) by blast

theorem sem1_exclusive_witness:
  "{u. runs_of (\<lambda>t. sem1_main [''sem1'', ''f''])
        ([(7, Sys (Call ''sigaction'' [S ''SIGINT'', S ''sigfunc'', S ''SA_RESTART'']) (Ret 0)),
          (7, Sys (Call ''sigaction'' [S ''SIGQUIT'', S ''sigfunc'', S ''SA_RESTART'']) (Ret 0)),
          (7, Sys (Call ''semget'' [I MY_KEY, I 0, S ''0'']) (Ret 5)), (7, Sys (Call ''getpid'' []) (Ret 70)),
          (7, Out 2 (''%s:[%ld]: Fetched semaphore ID (for key 0x%x) is %d'' @ [LF]) [S APPNAME, I 70, I MY_KEY, I 5]),
          (7, Sys (Call ''getpid'' []) (Ret 70)),
          (7, Out 2 (''%s:[%ld]: (Attempting to) Lock resource (file %s) now...'' @ [LF]) [S APPNAME, I 70, S ''f'']),
          (7, Sys (semop_call 5 semlock) (Ret 0)), (7, Sys (Call ''getpid'' []) (Ret 70)),
          (7, Out 2 (''%s:[%ld]: File locked..'' @ [LF]) [S APPNAME, I 70]),
          (7, Sys (Call ''getpid'' []) (Ret 70)),
          (7, Out 2 (''%s:[%ld]: File processing is taking place now..'' @ [LF]) [S APPNAME, I 70]),
          (u, Pending (Call ''open'' [S ''f'', S ''O_RDWR|O_APPEND|O_CREAT'', S ''FILE_PERMS'']))])} = {7}"
proof -
  let ?m = "\<lambda>t. sem1_main [''sem1'', ''f'']" and ?l = "Sys (semop_call 5 semlock) (Ret 0)"
  let ?w = "boot [Ret 0, Ret 0, Ret 5, Ret 70, Ret 70, Ret 0, Ret 70, Ret 70]"
  define pre where "pre = [Sys (Call ''sigaction'' [S ''SIGINT'', S ''sigfunc'', S ''SA_RESTART'']) (Ret 0),
      Sys (Call ''sigaction'' [S ''SIGQUIT'', S ''sigfunc'', S ''SA_RESTART'']) (Ret 0),
      Sys (Call ''semget'' [I MY_KEY, I 0, S ''0'']) (Ret 5), Sys (Call ''getpid'' []) (Ret 70),
      Out 2 (''%s:[%ld]: Fetched semaphore ID (for key 0x%x) is %d'' @ [LF]) [S APPNAME, I 70, I MY_KEY, I 5],
      Sys (Call ''getpid'' []) (Ret 70),
      Out 2 (''%s:[%ld]: (Attempting to) Lock resource (file %s) now...'' @ [LF]) [S APPNAME, I 70, S ''f'']]"
  define mid where "mid = [Sys (Call ''getpid'' []) (Ret 70),
      Out 2 (''%s:[%ld]: File locked..'' @ [LF]) [S APPNAME, I 70], Sys (Call ''getpid'' []) (Ret 70),
      Out 2 (''%s:[%ld]: File processing is taking place now..'' @ [LF]) [S APPNAME, I 70]]"
  let ?o = "Pending (Call ''open'' [S ''f'', S ''O_RDWR|O_APPEND|O_CREAT'', S ''FILE_PERMS''])"
  let ?gs = "\<lambda>u::nat. map (Pair 7) pre @ (7, ?l) # map (Pair 7) mid @ (u, ?o) # []"
  have "trace (snd (?m 7 ?w)) = pre @ ?l # mid @ [?o]"
    by (simp add: sem1_main_def sem_usage_def sem_signals_def sem1_get_def sem_lock_def sem_process_def INFO_def
        r_semop.simps run_defs pre_def mid_def)
  moreover have "events_of t (?gs 7) = (if t = 7 then pre @ ?l # mid @ [?o] else [])" for t
    by (simp add: events_of_def pre_def mid_def)
  ultimately have run: "runs_of ?m (?gs 7)"
    unfolding runs_of_def by (auto intro!: exI[of _ ?w])
  have kernel: "sem_run 5 (?gs u) sem_new \<noteq> None" for u
    by (simp add: pre_def mid_def sops_args_eval sem_new_def)
  have quiet: "\<forall>d'. (7::nat, d') \<in> set (map (Pair 7) mid) \<longrightarrow> sem_act 5 d' \<noteq> Released \<and> sem_act 5 d' \<noteq> Dropped"
    by (auto simp: mid_def sem_act_def)
  have "u = 7" if "runs_of ?m (?gs u)" for u
    using sem1_exclusive[of sem1_main "\<lambda>_. [''sem1'', ''f'']", OF _ that kernel _ _ quiet] by (simp add: sem_act_def)
  with run show ?thesis by (auto simp: pre_def mid_def)
qed

section \<open>sem2.c never obtains its lock\<close>

text \<open>
  What a process of \<^verbatim>\<open>sem2.c\<close> does with the semaphore: it performs an
  operation only after it has set the value to 1, and the first is the lock
  operation, which the kernel cannot perform then. The state says whether the
  process has set the value.
\<close>

definition sem2_mon :: "int \<Rightarrow> bool monitor" where
  "sem2_mon semid e b = (case e of
      Sys (Call f args) r \<Rightarrow>
        if f = ''semget'' then (if retval r = semid \<or> retval r = -1 then At b else Broken)
        else if f = ''semctl'' then
          (if retval r = -1 \<or> args = [] \<or> hd args \<noteq> I semid then Broken
           else if args = [I semid, I 0, S ''SETVAL'', I 1] then At True
           else if args = [I semid, I 0, S ''IPC_STAT''] then At b else Wrong)
        else if f = ''semop'' then
          (if retval r = -1 then At b
           else if args = [] \<or> hd args \<noteq> I semid then Broken
           else if b \<and> args = I semid # sops_args semlock then Broken else Wrong)
        else if f = ''open'' then Wrong else At b
    | Pending (Call f args) \<Rightarrow> if f = ''open'' then Wrong else At b
    | Sys (Write fd s) r \<Rightarrow> Wrong
    | Pending (Write fd s) \<Rightarrow> Wrong
    | Sys (Close fd) r \<Rightarrow> Wrong
    | Pending (Close fd) \<Rightarrow> Wrong
    | _ \<Rightarrow> At b)"

definition sem2_inv :: "bool \<Rightarrow> semset \<Rightarrow> bool" where
  "sem2_inv b st \<longleftrightarrow> (semval st = 0 \<or> semval st = 1) \<and> (b \<longrightarrow> semval st = 1) \<and> (\<forall>t. semadj st t = 0)"

lemma sem2_event:
  assumes "sem_event semid (t, e) st = Some st'" and "sem2_inv b st" and "sem2_mon semid e c \<noteq> Wrong" and "c \<longrightarrow> b"
  shows "\<exists>c'. sem2_mon semid e c = At c' \<and> (c \<longrightarrow> c') \<and> sem2_inv (b \<or> c') st' \<and> sem_act semid e \<noteq> Uses"
proof (cases e)
  case (Sys k r)
  show ?thesis
  proof (cases k)
    case (Call f args)
    show ?thesis
      using assms unfolding Sys Call
      by (cases "f = ''semop''"; cases "f = ''semget''"; cases "f = ''semctl''"; cases "f = ''open''")
        (auto simp: sem2_mon_def sem2_inv_def sem_act_def sops_args_eval split: if_splits option.splits list.splits arg.splits)
  qed (use assms Sys in \<open>auto simp: sem2_mon_def sem_act_def\<close>)
next
  case (Pending k)
  with assms show ?thesis by (cases k) (auto simp: sem2_mon_def sem_act_def)
next
  case (Did f args)
  with assms show ?thesis by (auto simp: sem_act_def sem2_mon_def sem2_inv_def split: if_splits)
qed (use assms in \<open>auto simp: sem_act_def sem2_mon_def\<close>)


lemma sem2_system:
  assumes disc: "\<And>t. tracks (sem2_mon semid) (thread t) (\<lambda>_ _. True) False"
  shows "runs_of thread gs \<Longrightarrow> sem_run semid gs sem_new = Some st \<Longrightarrow>
   \<exists>c. (\<forall>t. mrun (sem2_mon semid) (events_of t gs) False = At (c t)) \<and> sem2_inv (\<exists>t. c t) st \<and>
     (\<forall>(t, e) \<in> set gs. sem_act semid e \<noteq> Uses)"
proof (induction gs arbitrary: st rule: rev_induct)
  case Nil
  then show ?case by (intro exI[of _ "\<lambda>_. False"]) (auto simp: sem2_inv_def sem_new_def)
next
  case (snoc g gs)
  obtain t e where g: "g = (t, e)" by (cases g)
  from snoc.prems(2) obtain st0 where st0: "sem_run semid gs sem_new = Some st0" "sem_event semid (t, e) st0 = Some st"
    by (auto simp: sem_run_append g split: option.splits)
  have "runs_of thread gs" using snoc.prems(1) unfolding runs_of_def by (fastforce dest: append_prefixD)
  from snoc.IH[OF this st0(1)] obtain c where c: "\<forall>t. mrun (sem2_mon semid) (events_of t gs) False = At (c t)"
    "sem2_inv (\<exists>t. c t) st0" "\<forall>(t, e) \<in> set gs. sem_act semid e \<noteq> Uses" by blast
  have "mrun (sem2_mon semid) (events_of t (gs @ [g])) False \<noteq> Wrong"
    using snoc.prems(1) tracks_not_wrong[OF disc] mrun_prefix unfolding runs_of_def by (metis append_Nil)
  then have "sem2_mon semid e (c t) \<noteq> Wrong" using c(1) by (auto simp: mrun_append g split: verdict.splits)
  from sem2_event[OF st0(2) c(2) this] obtain c' where "sem2_mon semid e (c t) = At c'" "c t \<longrightarrow> c'"
    "sem2_inv ((\<exists>t. c t) \<or> c') st" "sem_act semid e \<noteq> Uses" by blast
  moreover from this(2) have "(\<exists>u. (c(t := c')) u) = ((\<exists>t. c t) \<or> c')" by auto
  ultimately show ?case
    using c by (intro exI[of _ "c(t := c')"]) (auto simp: g mrun_append)
qed

lemma sem2_small:
  "emits (\<lambda>e. sem2_mon semid e b = At b) (INFO f xs)" "emits (\<lambda>e. sem2_mon semid e b = At b) (printerror p m n)"
  "emits (\<lambda>e. sem2_mon semid e b = At b) (sem_exit n)"
  unfolding INFO_def printerror_def sem_exit_def by (intro emits_intros; simp add: sem2_mon_def)+

lemma sem2_exit: "tracks (sem2_mon semid) (sem_exit n) Q b"
  unfolding sem_exit_def
  by (intro tracks_seq tracks_emit; auto simp: sem2_mon_def intro: tracks_stop emits_intros)

lemma sem2_wait_appends: "appends (sem2_wait n prg i)"
  by (induction n) (auto intro!: sem_appends)

lemma sem2_get_appends: "appends (sem2_first prg i)" "appends (sem2_second prg)" "appends (sem2_get prg)"
  unfolding sem2_get_def sem2_first_def sem2_second_def initelement_def by (intro sem_appends sem2_wait_appends)+

lemma sem2_first_tracks: "tracks (sem2_mon semid) (sem2_first prg semid) (\<lambda>_ b. b) False"
  unfolding initelement_def sem2_first_def
  by (rule tracks_bind[OF tracks_icall, where P = "\<lambda>_ b. b"])
    (rule tracks_quiet tracks_ret emits_intros sem2_small sem_appends | (simp add: sem2_mon_def; fail))+

lemma sem2_semget:
  "tracks (sem2_mon semid) (icall (Call ''semget'' xs)) (\<lambda>i b. \<not> b \<and> (i = semid \<or> i = -1)) False"
  by (rule tracks_icall) (auto simp: sem2_mon_def)

lemma sem2_stat:
  "appends m \<Longrightarrow> tracks (sem2_mon semid) (bind (icall (Call ''semctl'' [I i, I 0, S ''IPC_STAT''])) (\<lambda>r.
      if r = -1 then m else stop (Undef s))) Q False"
  by (rule tracks_bind[OF tracks_icall, where P = "\<lambda>r b. r \<noteq> -1"])
    (auto simp: sem2_mon_def intro: tracks_stop emits_intros)

lemma sem2_second_tracks: "tracks (sem2_mon semid) (sem2_second prg) Q False"
  unfolding sem2_second_def
proof (rule tracks_bind[OF sem2_semget])
  fix i :: int and b assume "\<not> b \<and> (i = semid \<or> i = -1)"
  then have "\<not> b" by blast
  then show "tracks (sem2_mon semid) (bind (icall (Call ''semctl'' [I i, I 0, S ''IPC_STAT''])) (\<lambda>r.
      if r = -1 then seq (printerrno prg ''semctl semaphore init failure'')
           (seq (INFO (''Attempting initialization loop now...'' @ [LF]) []) (seq (sem2_wait MAX_TRIES prg i) (ret i)))
       else stop (Undef ''semid_ds written over the union''))) Q b"
    by (simp only: not_False_eq_True simp_thms) (intro sem2_stat sem_appends sem2_wait_appends)
qed (intro sem_appends sem2_wait_appends)

lemma sem2_get_tracks:
  assumes "0 \<le> semid"
  shows "tracks (sem2_mon semid) (sem2_get prg) (\<lambda>_ b. b) False"
  unfolding sem2_get_def
proof (rule tracks_bind[OF sem2_semget])
  fix i :: int and b assume i: "\<not> b \<and> (i = semid \<or> i = -1)"
  have "tracks (sem2_mon semid) (bind get_errno (\<lambda>errno. if 0 \<le> i then sem2_first prg i
      else if errno = EEXIST then sem2_second prg
      else seq (printerrno prg ''semget failed.'') (sem_exit 1))) (\<lambda>_ b. b) False"
    using i assms sem2_first_tracks sem2_second_tracks
    by (intro tracks_quiet_bind emits_get_errno tracks_if tracks_quiet_seq sem2_exit sem2_small sem_appends sem2_get_appends)
      auto
  with i show "tracks (sem2_mon semid) (bind get_errno (\<lambda>errno. if 0 \<le> i then sem2_first prg i
      else if errno = EEXIST then sem2_second prg
      else seq (printerrno prg ''semget failed.'') (sem_exit 1))) (\<lambda>_ b. b) b" by simp
qed (intro sem_appends sem2_get_appends)

lemma sem2_semop: "tracks (sem2_mon semid) (r_semop i semlock) (\<lambda>r b. b \<and> r = -1) True"
  by (rule semop.tracks_restarted) (auto simp: sem2_mon_def)

lemma sem2_lock_tracks: "tracks (sem2_mon semid) (sem_lock prg file i) (\<lambda>_ _. False) True"
proof -
  let ?k = "\<lambda>r::int. if r < 0 then seq (printerrno prg ''semaphore locking failure'') (sem_exit 1)
      else INFO (''File locked..'' @ [LF]) []"
  have "tracks (sem2_mon semid) (seq (printerrno prg m) (sem_exit 1)) (\<lambda>_ _. False) True" for m
    by (intro tracks_quiet_seq tracks_quiet_bind sem2_exit sem2_small sem_appends)
  moreover have "appends (?k r)" for r by (intro sem_appends)
  ultimately have "tracks (sem2_mon semid) (bind (r_semop i semlock) ?k) (\<lambda>_ _. False) True"
    by (intro tracks_bind[OF sem2_semop]) auto
  then show ?thesis unfolding sem_lock_def
    by (rule tracks_quiet_seq[rotated]) (intro sem2_small sem_appends)+
qed

lemma sem2_tracks:
  assumes "0 \<le> semid" and zzz: "appends (zzz SLEEP_TIME)"
  shows "tracks (sem2_mon semid) (sem2_main zzz argv) (\<lambda>_ _. True) False"
proof -
  let ?t = "tracks (sem2_mon semid)"
  let ?crit = "\<lambda>i. seq (sem_lock (argv ! 0) (argv ! 1) i) (sem_process (zzz SLEEP_TIME) (argv ! 0) (argv ! 1) i)"
  have a: "appends (sem_lock p f i)" "appends (sem_signals p)" for p f i
    unfolding sem_lock_def sem_signals_def by (intro sem_appends)+
  have ac: "appends (?crit i)" for i by (intro emits_seq a sem_process_appends zzz)
  have crit: "?t (?crit i) (\<lambda>_ _. True) True" for i
    by (rule tracks_seq[OF tracks_mono[OF sem2_lock_tracks]]) (auto intro: sem_process_appends zzz)
  have "?t (seq (INFO f (xs i)) (?crit i)) (\<lambda>_ _. True) True" for f xs i
    by (rule tracks_quiet_seq[OF sem2_small(1) crit ac])
  then have "?t (bind (sem2_get (argv ! 0)) (\<lambda>i. seq (INFO f (xs i)) (?crit i))) (\<lambda>_ _. True) False" for f xs
    by (intro tracks_bind[OF sem2_get_tracks[OF assms(1)]] sem_appends ac) simp
  moreover have "emits (\<lambda>e. sem2_mon semid e False = At False) (sem_usage argv)"
    "emits (\<lambda>e. sem2_mon semid e False = At False) (sem_signals (argv ! 0))"
    unfolding sem_usage_def sem_signals_def by (intro emits_intros sem2_small; simp add: sem2_mon_def)+
  ultimately show ?thesis unfolding sem2_main_def
    by (intro tracks_quiet_seq emits_seq emits_bind a ac sem_small_appends sem2_get_appends)
qed

text \<open>
  C19: \<^verbatim>\<open>sem2.c\<close> sets the semaphore to 1 and then waits for 0 to lock it: however its processes are
  interleaved, none of them ever opens or writes the file.
\<close>

theorem sem2_never_locks:
  assumes "runs_of (\<lambda>t. sem2_main zzz (argv t)) gs" and "sem_run semid gs sem_new \<noteq> None" and "0 \<le> semid"
    and "\<forall>n. appends (zzz n)"
  shows "\<forall>(t, e) \<in> set gs. sem_act semid e \<noteq> Uses"
  using sem2_system[OF sem2_tracks[OF assms(3) assms(4)[rule_format]] assms(1)] assms(2) by blast


theorem sem2_never_locks_witness:
  "let gs = map (Pair 7) (trace (snd (sem2_main (\<lambda>n. skip) [''sem2'', ''f'']
       (boot [Ret 0, Ret 0, Ret 5, Ret 0, Ret 70, Ret 70, Ret 70, Ret 70]))))
   in (7, Pending (semop_call 5 semlock)) \<in> set gs \<and> list_all (\<lambda>(t, e). sem_act 5 e \<noteq> Uses) gs"
proof -
  let ?m = "\<lambda>t. sem2_main (\<lambda>n. skip) [''sem2'', ''f'']"
  let ?w = "boot [Ret 0, Ret 0, Ret 5, Ret 0, Ret 70, Ret 70, Ret 70, Ret 70]"
  let ?gs = "map (Pair 7) (trace (snd (?m 7 ?w)))"
  have "events_of t ?gs = (if t = 7 then trace (snd (?m 7 ?w)) else [])" for t
    by (simp add: events_of_def filter_map o_def)
  then have run: "runs_of ?m ?gs" unfolding runs_of_def by (auto intro!: exI[of _ ?w])
  note defs = sem2_main_def sem_usage_def sem_signals_def sem2_get_def sem2_first_def initelement_def sem_lock_def
    sem_process_def INFO_def r_semop.simps run_defs
  have kernel: "sem_run 5 ?gs sem_new \<noteq> None"
    by (simp add: defs sem_new_def)
  have "(7, Pending (semop_call 5 semlock)) \<in> set ?gs" by (simp add: defs)
  with sem2_never_locks[of "\<lambda>n. skip" "\<lambda>_. [''sem2'', ''f'']", OF run kernel] show ?thesis
    by (simp add: list_all_iff Let_def emits_skip)
qed

section \<open>semdemo.c\<close>

lemma free_sems_done:
  "wp (free_sems semid nums) (\<lambda>b v. set (trace w) \<subseteq> set (trace v) \<and> (b \<longrightarrow> (\<forall>n \<in> set nums. \<exists>r. retval r \<noteq> -1 \<and>
     Sys (semop_call semid [\<lparr>sem_num = n, sem_op = 1, sem_flg = 0\<rparr>]) r \<in> set (trace v)))) (\<lambda>_ _. True) w"
proof (induction nums arbitrary: w)
  case Nil
  then show ?case by (simp add: wp_simps)
next
  case (Cons n nums)
  show ?case
    by (auto simp: wp_simps split: list.splits intro!: wp_mono[OF Cons.IH]; fastforce)
qed

lemma wait_ready_done:
  "wp (wait_ready n semid nsems) (\<lambda>b v. b \<longrightarrow> (\<exists>r. out 0 r \<noteq> 0 \<and>
     Sys (Call ''semctl'' [I semid, I (nsems - 1), S ''IPC_STAT'']) r \<in> set (trace v))) (\<lambda>_ _. True) w"
  by (induction n arbitrary: w) (auto simp: wp_simps split: list.splits)



end
