(* ===== verification/ForkServers.thy ===== *)
theory ForkServers
  imports Monitor
begin

text \<open>
  Two servers that fork a child for every client: the finger server and client
  of \<^verbatim>\<open>src/ipc/net_sockets/inet_domain/fingr_cs\<close>, and \<^verbatim>\<open>cpudtl_tstsvr.c\<close> beside
  it, which sends the description of the processor. They are modelled as built
  without \<^verbatim>\<open>DEBUG\<close>; \<open>verbose\<close> is an argument. The loops of the two servers are
  the same text and share the definition \<open>fork_turn\<close>.
\<close>

section \<open>Definitions\<close>

text \<open>\<open>err_exit\<close> of \<^verbatim>\<open>sfingr.c\<close> and \<open>ErrExit\<close> of \<^verbatim>\<open>cpudtl_tstsvr.c\<close>, the same text.\<close>

definition fingr_err_exit :: "string \<Rightarrow> string \<Rightarrow> int \<Rightarrow> 'a prog" where
  "fingr_err_exit prg err exitcode =
     bind (icall (Call ''malloc'' [I 300])) (\<lambda>err_str.
       if err_str = 0 then
         seq (printf ([LF] @ ''%s: malloc failed for err_str..'' @ [LF]) [S prg])
           (seq (printf (''%s exiting with error code %d, perror shows:'' @ [LF]) [S prg, I exitcode])
             (seq (perror prg)
               (seq (printf (''Original error message: %s'' @ [LF]) [S err]) (exit_prog exitcode))))
       else
         seq (perror (snprintf 300 ''%s: %s'' [S prg, S err]))
           (seq (emit (Did ''free'' [I err_str])) (exit_prog exitcode)))"

definition ErrExit :: "string \<Rightarrow> string \<Rightarrow> int \<Rightarrow> 'a prog" where
  "ErrExit prg err exitcode = fingr_err_exit prg err exitcode"

text \<open>The child's part of a turn, with the function that serves the client.\<close>

definition fork_child :: "bool \<Rightarrow> int \<Rightarrow> string \<Rightarrow> int prog \<Rightarrow> unit prog" where
  "fork_child verbose sd prg process =
     bind (icall (Close sd)) (\<lambda>_.
       seq (whenp verbose (bind (icall (Call ''getpid'' [])) (\<lambda>pid.
              seq (printf (''%s: child server created; pid %d'' @ [LF]) [S prg, I pid]) (emit (Flush 1)))))
         (bind process (\<lambda>_.
           seq (whenp verbose (bind (icall (Call ''getpid'' [])) (\<lambda>pid.
                  seq (printf (''%s: child server %d exiting..'' @ [LF]) [S prg, I pid]) (emit (Flush 1)))))
             (exit_prog 0))))"

definition fork_turn :: "bool \<Rightarrow> int \<Rightarrow> string \<Rightarrow> (int \<Rightarrow> int prog) \<Rightarrow> unit \<Rightarrow> unit prog" where
  "fork_turn verbose sd prg process _ =
     seq (whenp verbose (bind (icall (Call ''getpid'' [])) (\<lambda>pid.
            printf (''%s: pid %d blocking on accept()..'' @ [LF]) [S prg, I pid])))
       (seq (emit (Flush 1))
         (bind (syscall (Call ''accept'' [I sd])) (\<lambda>r.
           let newsd = retval r in
           if newsd = -1 then fingr_err_exit prg ''socket accept error'' 5
           else
             seq (printf ([LF] @ ''Server %s: client connected now from IP %s port # %d'' @ [LF])
                   [S prg, I (out 0 r), I (out 1 r)])
               (seq (emit (Flush 1))
                 (bind (icall (Call ''fork'' [])) (\<lambda>pid.
                   if pid = -1 then seq (perror ''fork error'') (emit (Flush 1))
                   else if pid = 0 then fork_child verbose sd prg (process newsd)
                   else bind (icall (Close newsd)) (\<lambda>_. skip)))))))"


subsection \<open>The finger server and client\<close>

abbreviation (input) REPLY_MAXLEN :: nat where "REPLY_MAXLEN \<equiv> 100+256+48+8+8+1024+4096+128"
abbreviation (input) FINGR_PORT :: int where "FINGR_PORT \<equiv> 61005"

record passwd =
  pw_name :: string
  pw_passwd :: string
  pw_uid :: int
  pw_gid :: int
  pw_gecos :: string
  pw_dir :: string
  pw_shell :: string

definition fingr_sig_child :: "int \<Rightarrow> unit prog" where
  "fingr_sig_child signum = printf (''%s()'' @ [LF]) [S ''sig_child'']"

definition fingr_reply :: "string \<Rightarrow> string \<Rightarrow> passwd option \<Rightarrow> string" where
  "fingr_reply prg username p = (case p of
     None \<Rightarrow> snprintf (256 + 256) ([LF] @ ''%s is unable to get info for username \"%s\"'' @ [LF]) [S prg, S username]
   | Some p \<Rightarrow> snprintf REPLY_MAXLEN ([TAB] @ ''Username: %s'' @ [LF, TAB] @ ''(encrypted) password: %s'' @ [LF, TAB] @
         ''UID: %d'' @ [LF, TAB] @ ''GID: %d'' @ [LF, TAB] @ ''Comment/FullName: %s'' @ [LF, TAB] @
         ''Home dir: %s'' @ [LF, TAB] @ ''Shell: %s'' @ [LF])
       [S (pw_name p), S (pw_passwd p), I (pw_uid p), I (pw_gid p), S (pw_gecos p), S (pw_dir p), S (pw_shell p)])"

text \<open>
  The user database is the argument \<open>getpwnam\<close>. A request of 32 bytes leaves no
  room for the terminator \<open>username[n]\<close>.
\<close>

definition fingr_process :: "(string \<Rightarrow> passwd option) \<Rightarrow> string \<Rightarrow> int \<Rightarrow> int prog" where
  "fingr_process getpwnam prg sd =
     bind (icall (Call ''malloc'' [I 32])) (\<lambda>username.
       if username = 0 then seq (printf ([LF] @ ''%s: no memory for username buffer'') [S prg]) (exit_prog 1)
       else bind (syscall (Read sd 32)) (\<lambda>r.
         if retval r = -1 then fingr_err_exit prg ''socket read error'' 6
         else if 32 \<le> retval r then stop (Undef ''write past username'')
         else bind (icall (Call ''malloc'' [I (int REPLY_MAXLEN)])) (\<lambda>reply.
           if reply = 0 then
             seq (printf ([LF] @ ''%s: no memory for reply buffer'') [S prg])
               (seq (emit (Did ''free'' [I username])) (exit_prog 1))
           else
             let user = cstr (payload r); p = getpwnam user; msg = fingr_reply prg user p in
             if p = None then
               bind (icall (Write sd (cstr msg))) (\<lambda>n.
                 if n = -1 then fingr_err_exit prg ''socket write error'' 6
                 else bind (icall (Close sd)) (\<lambda>_.
                   seq (emit (Did ''free'' [I reply])) (seq (emit (Did ''free'' [I username])) (exit_prog 1))))
             else
               bind (icall (Write sd (cstr msg))) (\<lambda>n.
                 if n = -1 then
                   seq (emit (Did ''free'' [I username]))
                     (seq (emit (Did ''free'' [I reply])) (fingr_err_exit prg ''socket write error'' 6))
                 else
                   seq (emit (Did ''free'' [I username]))
                     (seq (emit (Did ''free'' [I reply])) (bind (icall (Close sd)) (\<lambda>_. ret 0)))))))"

lemma shrinks_fingr_err_exit [shrink_intros]: "shrinks (fingr_err_exit prg err n)" "shrinks (ErrExit prg err n)"
  unfolding ErrExit_def fingr_err_exit_def by (intro shrink_intros)+

lemma shrinks_fork_child [shrink_intros]: "shrinks process \<Longrightarrow> shrinks (fork_child verbose sd prg process)"
  unfolding fork_child_def by (intro shrink_intros)

lemma consumes_fork_turn: "(\<And>s. shrinks (process s)) \<Longrightarrow> consumes (fork_turn verbose sd prg process u)"
  unfolding fork_turn_def Let_def
  by (intro consumes_seq2 consumes_bind1 consumes_syscall shrink_intros)

lemma shrinks_fingr_process [shrink_intros]: "shrinks (fingr_process getpwnam prg sd)"
  unfolding fingr_process_def Let_def by (intro shrink_intros)

function fingr_loop :: "(string \<Rightarrow> passwd option) \<Rightarrow> bool \<Rightarrow> int \<Rightarrow> string \<Rightarrow> unit \<Rightarrow> unit prog" where
  "fingr_loop getpwnam verbose sd prg u w =
     bind (fork_turn verbose sd prg (fingr_process getpwnam prg) u)
       (\<lambda>u w. fingr_loop getpwnam verbose sd prg u w) w"
  by pat_completeness auto
termination
  by (relation "measure (\<lambda>(g, b, sd, prg, u, w). length (script w))")
    (auto dest: consumesD[OF consumes_fork_turn[OF shrinks_fingr_process]])

declare fingr_loop.simps [simp del]

definition sfingr_main :: "(string \<Rightarrow> passwd option) \<Rightarrow> string list \<Rightarrow> unit prog" where
  "sfingr_main getpwnam argv =
     (let prg = argv ! 0; verbose = (length argv = 2 \<and> strcmp (argv ! 1) ''-v'' = 0) in
      bind (icall (Call ''socket'' [S ''AF_INET'', S ''SOCK_STREAM'', I 0])) (\<lambda>sd.
        if sd = -1 then fingr_err_exit prg ''socket creation error'' 1
        else seq (whenp verbose (printf (''%s: tcp socket created'' @ [LF]) [S prg]))
       (bind (icall (Call ''bind'' [I sd, S ''INADDR_ANY'', I FINGR_PORT])) (\<lambda>r.
        if r = -1 then fingr_err_exit prg ''socket bind error'' 2
        else seq (whenp verbose (printf (''%s: bind done at IP %s port %d'' @ [LF]) [S prg, S (argv ! 1), I FINGR_PORT]))
       (bind (icall (Call ''listen'' [I sd, I 5])) (\<lambda>r.
        if r = -1 then fingr_err_exit prg ''socket listen error'' 3
        else seq (whenp verbose (printf (''%s: listen q set up'' @ [LF]) [S prg]))
       (bind (icall (Call ''sigaction'' [S ''SIGCHLD'', S ''sig_child'', S ''SA_RESTART | SA_NOCLDSTOP | SA_NOCLDWAIT''])) (\<lambda>r.
        if r = -1 then fingr_err_exit prg ''sigaction error'' 4
        else seq (whenp verbose (printf (''%s: SIGCHLD handler set up'' @ [LF]) [S prg]))
          (fingr_loop getpwnam verbose sd prg ())))))))))"

definition cfingr_err_exit :: "string \<Rightarrow> string \<Rightarrow> int \<Rightarrow> 'a prog" where
  "cfingr_err_exit prg err exitcode =
     bind (icall (Call ''malloc'' [I (int (length prg + length err + 2))])) (\<lambda>err_str.
       if err_str = 0 then
         seq (printf ([LF] @ ''%s: malloc failed for err_str..'') [S prg])
           (seq (printf (''%s exiting with error code %d, perror shows:'' @ [LF]) [S prg, I exitcode])
             (seq (perror prg) (exit_prog exitcode)))
       else
         let msg = cformat ''%s: %s'' [S prg, S err] in
         if length prg + length err + 2 < length msg + 1 then stop (Undef ''write past err_str'')
         else seq (perror msg) (seq (emit (Did ''free'' [I err_str])) (exit_prog exitcode)))"

text \<open>
  The reply is printed as a string although nothing terminates it: what follows
  the bytes received is \<open>junk\<close>, what the memory held when it was allocated.
\<close>

definition cfingr_main :: "string \<Rightarrow> string list \<Rightarrow> unit prog" where
  "cfingr_main junk argv =
     (let prg = argv ! 0 in
      seq (whenp (length argv \<noteq> 3)
            (seq (eprintf (''Usage: %s server-ip-address username'' @ [LF]) [S prg]) (exit_prog 1)))
     (bind (icall (Call ''socket'' [S ''AF_INET'', S ''SOCK_STREAM'', I 0])) (\<lambda>sd.
      if sd = -1 then cfingr_err_exit prg ''socket creation error'' 1
      else bind (icall (Call ''connect'' [I sd, S (argv ! 1), I FINGR_PORT])) (\<lambda>r.
        if r = -1 then cfingr_err_exit prg ''connection error'' 2
        else bind (icall (Call ''malloc'' [I 512])) (\<lambda>reply.
          if reply = 0 then
            seq (printf ([LF] @ ''%s: malloc failed for reply..'') [S prg])
              (bind (icall (Close sd)) (\<lambda>_. exit_prog 7))
          else
            seq (printf (''%s: sending request \"%s\" to server'' @ [LF]) [S prg, S (argv ! 2)])
              (bind (icall (Write sd (argv ! 2))) (\<lambda>n.
                if n = -1 then cfingr_err_exit prg ''socket write error'' 3
                else bind (syscall (Read sd 512)) (\<lambda>r.
                  if retval r = -1 then cfingr_err_exit prg ''socket read error'' 4
                  else
                    let buf = payload r @ drop (length (payload r)) (take 512 junk) in
                    if NUL \<notin> set buf then stop (Undef ''read past reply'')
                    else
                      seq (printf ([LF] @ ''%s: Received %d bytes from server;'' @ [LF] @ ''%s'')
                            [S prg, I (retval r), S (cstr buf)])
                        (seq (emit (Did ''free'' [I reply]))
                          (bind (icall (Close sd)) (\<lambda>_. exit_prog 0)))))))))))"


subsection \<open>The processor server\<close>

abbreviation (input) CPU_MAXBUF :: nat where "CPU_MAXBUF \<equiv> 5120"
abbreviation (input) LINESZ :: nat where "LINESZ \<equiv> 128"

definition cpu_sig_child :: "int \<Rightarrow> unit prog" where
  "cpu_sig_child signum = bind (icall (Write 1 ''--signal recvd--'')) (\<lambda>_. skip)"

text \<open>
  The two loops pass the same buffer address to every call. \<open>fd_read\<close> returns
  the count and the contents of the buffer.
\<close>

function fd_read_loop :: "int \<Rightarrow> string \<Rightarrow> nat \<Rightarrow> int \<Rightarrow> (int \<times> string) prog" where
  "fd_read_loop fd dbuf n tr w =
     bind (syscall (Read fd n)) (\<lambda>r w.
       let rd = retval r; dbuf' = payload r @ drop (length (payload r)) dbuf in
       if rd < 0 then ret (-1, dbuf) w
       else if rd = 0 then ret (tr, dbuf) w
       else if nat (tr + rd) < n then fd_read_loop fd dbuf' n (tr + rd) w
       else ret (tr + rd, dbuf') w) w"
  by pat_completeness auto
termination
  by (relation "measure (\<lambda>(fd, d, n, tr, w). length (script w))") (auto dest: consumesD[OF consumes_syscall])

declare fd_read_loop.simps [simp del]

definition fd_read :: "int \<Rightarrow> string \<Rightarrow> nat \<Rightarrow> (int \<times> string) prog" where
  "fd_read fd dbuf n = fd_read_loop fd dbuf n 0"

function fd_write_loop :: "int \<Rightarrow> string \<Rightarrow> nat \<Rightarrow> int \<Rightarrow> int prog" where
  "fd_write_loop fd sbuf n tw w =
     bind (icall (Write fd (take n sbuf))) (\<lambda>wr w.
       if wr < 0 then ret (-1) w
       else if nat (tw + wr) < n then fd_write_loop fd sbuf n (tw + wr) w
       else ret (tw + wr) w) w"
  by pat_completeness auto
termination
  by (relation "measure (\<lambda>(fd, s, n, tw, w). length (script w))") (auto dest: consumesD[OF consumes_icall])

declare fd_write_loop.simps [simp del]

definition fd_write :: "int \<Rightarrow> string \<Rightarrow> nat \<Rightarrow> int prog" where
  "fd_write fd sbuf n = fd_write_loop fd sbuf n 0"

text \<open>
  The lines of the command's output are collected in \<open>reply\<close>, an array of
  \<open>CPU_MAXBUF\<close> characters that starts out all NUL; \<open>fgets\<close> answers with an empty
  line at the end of the output.
\<close>

function cpu_lines :: "string \<Rightarrow> int \<Rightarrow> int \<Rightarrow> string \<Rightarrow> nat \<Rightarrow> string prog" where
  "cpu_lines prg fp p reply total_len w =
     bind (syscall (Call ''fgets'' [I (int LINESZ), I fp])) (\<lambda>r w.
       let tmpbuf = cstr (payload r) in
       if payload r = [] then ret reply w
       else if CPU_MAXBUF < total_len + length tmpbuf then
         (seq (printf (''%s: buffer limit exceeded, aborting...'' @ [LF]) [S prg])
           (seq (emit (Did ''free'' [I p])) (bind (icall (Call ''pclose'' [I fp])) (\<lambda>_. exit_prog 1)))) w
       else if CPU_MAXBUF < length reply + length (take LINESZ tmpbuf) + 1 then stop (Undef ''write past reply'') w
       else cpu_lines prg fp p (reply @ take LINESZ tmpbuf) (total_len + length tmpbuf) w) w"
  by pat_completeness auto
termination
  by (relation "measure (\<lambda>(prg, fp, p, r, t, w). length (script w))") (auto dest: consumesD[OF consumes_syscall])

declare cpu_lines.simps [simp del]

definition cpu_popen :: "string \<Rightarrow> int \<Rightarrow> int \<Rightarrow> int prog" where
  "cpu_popen prg p fp =
     (if fp = 0 then
        seq (printf (''%s: popen on 'lscpu' failed, trying via procfs'' @ [LF]) [S prg])
          (bind (icall (Call ''popen'' [S ''cat /proc/cpuinfo'', S ''r''])) (\<lambda>fp.
            if fp = 0 then seq (emit (Did ''free'' [I p])) (exit_prog 1) else ret fp))
      else ret fp)"

definition cpu_process :: "string \<Rightarrow> int \<Rightarrow> int prog" where
  "cpu_process prg sd =
     bind (icall (Call ''malloc'' [I (int CPU_MAXBUF)])) (\<lambda>p.
       if p = 0 then seq (printf (''%s: no memory for reply buffer'' @ [LF]) [S prg]) (exit_prog 1)
       else bind (icall (Call ''popen'' [S ''lscpu'', S ''r''])) (\<lambda>fp.
         bind (cpu_popen prg p fp) (\<lambda>fp.
           bind (cpu_lines prg fp p [] 0) (\<lambda>reply.
             bind (fd_write sd reply (length reply)) (\<lambda>n.
               if n = -1 then
                 seq (emit (Did ''free'' [I p]))
                   (bind (icall (Call ''pclose'' [I fp])) (\<lambda>_. ErrExit prg ''socket write error'' 6))
               else
                 seq (emit (Did ''free'' [I p]))
                   (bind (icall (Call ''pclose'' [I fp])) (\<lambda>_. bind (icall (Close sd)) (\<lambda>_. ret 0))))))))"

lemma shrinks_fd_write [shrink_intros]: "shrinks (fd_write fd sbuf n)"
proof -
  have "length (script (snd (fd_write_loop fd sbuf n tw w))) \<le> length (script w)" for tw w
  proof (induction fd sbuf n tw w rule: fd_write_loop.induct)
    case (1 fd sbuf n tw w)
    show ?case
      by (rule loop_shrinks[OF fd_write_loop.simps[of fd sbuf n tw w] consumes_icall]) (use 1 in \<open>auto simp: ret_apply\<close>)
  qed
  then show ?thesis by (simp add: shrinks_def fd_write_def)
qed

lemma shrinks_cpu_lines [shrink_intros]: "shrinks (cpu_lines prg fp p reply t)"
proof -
  have "length (script (snd (cpu_lines prg fp p reply t w))) \<le> length (script w)" for w
  proof (induction prg fp p reply t w rule: cpu_lines.induct)
    case (1 prg fp p reply t w)
    have ab: "shrinks (seq (printf f [S prg]) (seq (emit (Did ''free'' [I p]))
        (bind (icall (Call ''pclose'' [I fp])) (\<lambda>_. exit_prog 1))))" for f
      by (intro shrink_intros)
    show ?case
      by (rule loop_shrinks[OF cpu_lines.simps[of prg fp p reply t w] consumes_syscall])
        (use 1 ab in \<open>auto simp: ret_apply stop_apply Let_def shrinks_def\<close>)
  qed
  then show ?thesis by (simp add: shrinks_def)
qed

lemma shrinks_cpu_process [shrink_intros]: "shrinks (cpu_process prg sd)"
  unfolding cpu_process_def cpu_popen_def by (intro shrink_intros)

function cpu_loop :: "bool \<Rightarrow> int \<Rightarrow> string \<Rightarrow> unit \<Rightarrow> unit prog" where
  "cpu_loop verbose sd prg u w =
     bind (fork_turn verbose sd prg (cpu_process prg) u) (\<lambda>u w. cpu_loop verbose sd prg u w) w"
  by pat_completeness auto
termination
  by (relation "measure (\<lambda>(b, sd, prg, u, w). length (script w))")
    (auto dest: consumesD[OF consumes_fork_turn[OF shrinks_cpu_process]])

declare cpu_loop.simps [simp del]

definition cpudtl_main :: "string list \<Rightarrow> unit prog" where
  "cpudtl_main argv =
     (let prg = argv ! 0; port = atoi (argv ! 1); verbose = (length argv = 3 \<and> strcmp (argv ! 2) ''-v'' = 0) in
      if length argv < 2 then
        seq (eprintf (''Usage: %s port-num [-v]'' @ [LF]) [S prg]) (exit_prog 1)
      else if port < 32768 then
        seq (eprintf (''%s: port-num should be in the range specified here: /proc/sys/net/ipv4/ip_local_port_range'' @ [LF])
              [S prg]) (exit_prog 1)
      else bind (icall (Call ''signal'' [S ''SIGPIPE'', S ''SIG_IGN''])) (\<lambda>r.
        if r = -1 then ErrExit prg ''signal'' 1
        else bind (icall (Call ''socket'' [S ''AF_INET'', S ''SOCK_STREAM'', I 0])) (\<lambda>sd.
        if sd = -1 then ErrExit prg ''socket creation error'' 1
        else seq (whenp verbose (printf (''%s: tcp socket created'' @ [LF]) [S prg]))
       (bind (icall (Call ''bind'' [I sd, S ''INADDR_ANY'', I (port mod 2 ^ 16)])) (\<lambda>r.
        if r = -1 then ErrExit prg ''socket bind error'' 2
        else bind (icall (Call ''setsockopt'' [I sd, S ''SOL_SOCKET'', S ''SO_REUSEADDR'', I 1])) (\<lambda>r.
        seq (whenp (r < 0) (perror ''Warning: setsockopt SO_REUSEADDR failed''))
       (seq (whenp verbose (printf (''%s: bind done at IP %s port %d; SO_REUSEADDR setup as well'' @ [LF])
              [S prg, S ''0.0.0.0'', I port]))
       (bind (icall (Call ''listen'' [I sd, I 5])) (\<lambda>r.
        if r = -1 then ErrExit prg ''socket listen error'' 3
        else seq (whenp verbose (printf (''%s: listen q set up'' @ [LF]) [S prg]))
       (bind (icall (Call ''sigaction'' [S ''SIGCHLD'', S ''sig_child'', S ''SA_RESTART | SA_NOCLDSTOP | SA_NOCLDWAIT''])) (\<lambda>r.
        if r = -1 then ErrExit prg ''sigaction error'' 4
        else seq (whenp verbose (printf (''%s: SIGCHLD handler set up'' @ [LF]) [S prg]))
          (cpu_loop verbose sd prg ()))))))))))))"

interpretation fingr: service "fork_turn verbose sd prg (fingr_process getpwnam prg)" "fingr_loop getpwnam verbose sd prg"
  for getpwnam verbose sd prg
  by unfold_locales (rule fingr_loop.simps, rule consumes_fork_turn[OF shrinks_fingr_process])

interpretation cpu: service "fork_turn verbose sd prg (cpu_process prg)" "cpu_loop verbose sd prg"
  for verbose sd prg
  by unfold_locales (rule cpu_loop.simps, rule consumes_fork_turn[OF shrinks_cpu_process])

section \<open>Connections are closed\<close>

lemma fork_err_appends: "appends (fingr_err_exit prg err n)" "appends (ErrExit prg err n)"
  unfolding ErrExit_def fingr_err_exit_def by (intro emits_intros TrueI)+

lemma fingr_process_appends: "appends (fingr_process g prg sd)"
  unfolding fingr_process_def Let_def by (intro emits_intros fork_err_appends TrueI)

lemma fd_write_loop_emits:
  "(\<And>b r. P (Sys (Write fd b) r)) \<Longrightarrow> (\<And>b. P (Pending (Write fd b))) \<Longrightarrow>
   \<exists>es. trace (snd (fd_write_loop fd s n tw w)) = trace w @ es \<and> list_all P es"
proof (induction fd s n tw w rule: fd_write_loop.induct)
  case (1 fd s n tw w)
  show ?case
    by (rule loop_emits[OF fd_write_loop.simps[of fd s n tw w]])
      (use 1 in \<open>auto simp: ret_apply intro: emits_intros\<close>)
qed

lemma fd_write_emits:
  "(\<And>b r. P (Sys (Write fd b) r)) \<Longrightarrow> (\<And>b. P (Pending (Write fd b))) \<Longrightarrow> emits P (fd_write fd s n)"
  by (simp add: emits_def fd_write_def fd_write_loop_emits)

lemma fd_write_loop_extends: "extends w (snd (fd_write_loop fd s n tw w))"
  using fd_write_loop_emits[of "\<lambda>_. True"] unfolding extends_def by blast

lemma cpu_lines_appends: "appends (cpu_lines prg fp p reply t)"
proof -
  have "\<exists>es. trace (snd (cpu_lines prg fp p reply t w)) = trace w @ es \<and> list_all (\<lambda>_. True) es" for w
  proof (induction prg fp p reply t w rule: cpu_lines.induct)
    case (1 prg fp p reply t w)
    have "appends (seq (printf f [S prg]) (seq (emit (Did ''free'' [I p]))
        (bind (icall (Call ''pclose'' [I fp])) (\<lambda>_. exit_prog 1))))" for f
      by (intro emits_intros TrueI)
    note ab = this[unfolded emits_def, rule_format]
    show ?case
      by (rule loop_emits[OF cpu_lines.simps[of prg fp p reply t w] emits_syscall])
        (use 1 in \<open>auto simp: ret_apply stop_apply Let_def intro: ab\<close>)
  qed
  then show ?thesis by (simp add: emits_def)
qed

lemma cpu_process_appends: "appends (cpu_process prg sd)"
  unfolding cpu_process_def cpu_popen_def
  by (intro emits_intros fork_err_appends fd_write_emits cpu_lines_appends TrueI)

text \<open>
  The connection the parent has open. It accepts a new one only when there is
  none; when a \<open>fork\<close> fails, and in the child, nothing is asked.
\<close>

fun conn_mon :: "int option monitor" where
  "conn_mon (Sys (Call f xs) r) s =
     (if f = ''accept'' then
        (if s \<noteq> None then Wrong else if retval r = -1 then At None else At (Some (retval r)))
      else if f = ''fork'' then (if retval r \<le> 0 then Broken else At s) else At s)"
| "conn_mon (Pending (Call f xs)) s = (if f = ''accept'' \<and> s \<noteq> None then Wrong else At s)"
| "conn_mon (Sys (Close fd) r) s = (if s = Some fd then At None else Wrong)"
| "conn_mon e s = At s"

lemma fork_child_appends: "appends process \<Longrightarrow> appends (fork_child verbose sd prg process)"
  unfolding fork_child_def by (intro emits_intros TrueI)

lemma fork_turn_appends: "(\<And>s. appends (process s)) \<Longrightarrow> appends (fork_turn verbose sd prg process u)"
  unfolding fork_turn_def Let_def by (intro emits_intros fork_err_appends fork_child_appends TrueI)

lemma conn_close: "tracks conn_mon (bind (icall (Close fd)) (\<lambda>_. skip)) (\<lambda>_ s. s = None) (Some fd)"
  by (rule tracks_bind[OF tracks_icall, where P = "\<lambda>_ s. s = None"]) (auto intro: tracks_skip emits_intros)

lemma conn_fork:
  assumes "appends m" "appends k" "appends n" and n: "tracks conn_mon n Q s"
  shows "tracks conn_mon (bind (icall (Call ''fork'' [])) (\<lambda>pid. if pid = -1 then m else if pid = 0 then k else n)) Q s"
  by (rule tracks_bind[OF tracks_icall, where P = "\<lambda>pid t. 0 < pid \<and> t = s"]) (use assms in auto)

lemma conn_err: "tracks conn_mon (fingr_err_exit prg m n) Q s"
  unfolding fingr_err_exit_def by (intro tracks_quiet emits_intros TrueI; simp)

lemma conn_turn:
  assumes "\<And>s. appends (process s)"
  shows "tracks conn_mon (fork_turn verbose sd prg process u) (\<lambda>_ s. s = None) None"
proof -
  let ?t = "tracks conn_mon"
  let ?fork = "\<lambda>newsd. bind (icall (Call ''fork'' [])) (\<lambda>pid.
      if pid = -1 then seq (perror ''fork error'') (emit (Flush 1))
      else if pid = 0 then fork_child verbose sd prg (process newsd) else bind (icall (Close newsd)) (\<lambda>_. skip))"
  have fa: "appends (?fork newsd)" for newsd by (intro emits_intros fork_child_appends assms TrueI)
  have fork: "?t (?fork newsd) (\<lambda>_ s. s = None) (Some newsd)" for newsd
    by (rule conn_fork[OF _ _ _ conn_close]) (intro emits_intros fork_child_appends assms TrueI)+
  have told: "?t (seq (printf f xs) (seq (emit (Flush 1)) (?fork newsd))) (\<lambda>_ s. s = None) (Some newsd)" for f xs newsd
    by (intro tracks_quiet_seq fork fa emits_intros) simp_all
  let ?served = "\<lambda>r. if retval r = -1 then fingr_err_exit prg ''socket accept error'' 5
      else seq (printf ([LF] @ ''Server %s: client connected now from IP %s port # %d'' @ [LF])
          [S prg, I (out 0 r), I (out 1 r)]) (seq (emit (Flush 1)) (?fork (retval r)))"
  have sa: "appends (?served r)" for r by (intro emits_intros fork_err_appends fa TrueI)
  have "?t (syscall (Call ''accept'' [I sd])) (\<lambda>r s. retval r \<noteq> -1 \<longrightarrow> s = Some (retval r)) None"
    by (rule tracks_syscall) auto
  then have "?t (bind (syscall (Call ''accept'' [I sd])) ?served) (\<lambda>_ s. s = None) None"
    by (rule tracks_bind) (use told sa in \<open>auto intro: conn_err\<close>)
  then show ?thesis
    unfolding fork_turn_def Let_def by (intro tracks_quiet_seq emits_intros sa TrueI) simp_all
qed

lemma conn_loop:
  "tracks conn_mon (fingr_loop g verbose sd prg ()) (\<lambda>_ _. False) None"
  "tracks conn_mon (cpu_loop verbose sd prg ()) (\<lambda>_ _. False) None"
  by (rule fingr.tracks_loop[where J = "\<lambda>_ s. s = None"] cpu.tracks_loop[where J = "\<lambda>_ s. s = None"];
      simp add: conn_turn fork_turn_appends fingr_process_appends cpu_process_appends)+

section \<open>What the processor server sends\<close>

lemma fd_write_loop_delivers:
  "fd_write_loop fd s n tw w = (Val r, v) \<Longrightarrow> r \<noteq> -1 \<Longrightarrow>
   \<exists>k ks. io_delta nothing (only fd (concat (map (\<lambda>k. take k (take n s)) (k # ks)))) w v \<and>
     r = tw + int (sum_list (k # ks)) \<and> n \<le> nat r \<and> (int n \<le> tw + int k \<longrightarrow> ks = [])"
proof (induction fd s n tw w rule: fd_write_loop.induct)
  case (1 fd s n tw w)
  from "1.prems"(1) obtain wr u where c: "icall (Write fd (take n s)) w = (Val wr, u)"
    and rest: "(if wr < 0 then ret (-1) u else if nat (tw + wr) < n then fd_write_loop fd s n (tw + wr) u
      else ret (tw + wr) u) = (Val r, v)"
    by (subst (asm) fd_write_loop.simps) (auto elim: bind_ValE)
  have nn: "\<not> wr < 0" using rest "1.prems"(2) by (auto simp: ret_apply split: if_splits)
  from icall_Val[OF c] have d: "io_delta nothing (only fd (take (nat wr) (take n s))) w u"
    using io_delta_Write by blast
  show ?case
  proof (cases "nat (tw + wr) < n")
    case True
    with rest nn have lp: "fd_write_loop fd s n (tw + wr) u = (Val r, v)" by simp
    from "1.IH"[OF c nn True lp "1.prems"(2)] obtain k ks where
      ih: "io_delta nothing (only fd (concat (map (\<lambda>k. take k (take n s)) (k # ks)))) u v"
      "r = tw + wr + int (sum_list (k # ks))" "n \<le> nat r" by blast
    from io_delta_wr_trans[OF d ih(1)] ih(2,3) nn True show ?thesis
      by (intro exI[of _ "nat wr"] exI[of _ "k # ks"]) auto
  next
    case False
    with rest nn have "v = u" "r = tw + wr" by (simp_all add: ret_apply)
    with d nn False show ?thesis
      by (intro exI[of _ "nat wr"] exI[of _ "[]"]) auto
  qed
qed

text \<open>
  \<open>fd_write\<close> starts every write at the beginning of the buffer: what it delivers is one prefix of
  the buffer for each write, until their lengths add up to the length of the
  buffer. It is the buffer itself when the first write takes all of it.
\<close>

lemma fd_write_delivers:
  assumes "fd_write fd s (length s) w = (Val r, v)" and "r \<noteq> -1"
  shows "\<exists>k ks. io_delta nothing (only fd (concat (map (\<lambda>k. take k s) (k # ks)))) w v \<and>
     r = int (sum_list (k # ks)) \<and> int (length s) \<le> r \<and> (length s \<le> k \<longrightarrow> ks = [])"
proof -
  from fd_write_loop_delivers[of fd s "length s" 0 w r v] assms obtain k ks where
    "io_delta nothing (only fd (concat (map (\<lambda>k. take k s) (k # ks)))) w v"
    "r = int (sum_list (k # ks))" "length s \<le> nat r" "int (length s) \<le> int k \<longrightarrow> ks = []"
    unfolding fd_write_def by auto
  then show ?thesis by (intro exI[of _ k] exI[of _ ks]) auto
qed

text \<open>The lines \<open>fgets\<close> has returned.\<close>

fun fgot :: "event list \<Rightarrow> string" where
  "fgot (Sys (Call f xs) r # es) = (if f = ''fgets'' then payload r else []) @ fgot es"
| "fgot (e # es) = fgot es"
| "fgot [] = []"

lemma fgot_append [simp]: "fgot (xs @ ys) = fgot xs @ fgot ys"
  by (induction xs rule: fgot.induct) auto

text \<open>What \<open>fgets\<close> promises: a line is shorter than the buffer; the command prints no NUL.\<close>

fun line_ok :: "event \<Rightarrow> bool" where
  "line_ok (Sys (Call f xs) r) = (f = ''fgets'' \<longrightarrow> NUL \<notin> set (payload r) \<and> length (payload r) < LINESZ)"
| "line_ok e = True"

lemma cpu_lines_reply:
  "cpu_lines prg fp p reply t w = (Val s, v) \<Longrightarrow> list_all line_ok (trace v) \<Longrightarrow>
   \<exists>es. trace v = trace w @ es \<and> list_all quiet es \<and> s = reply @ fgot es"
proof (induction prg fp p reply t w rule: cpu_lines.induct)
  case (1 prg fp p reply t w)
  let ?c = "Call ''fgets'' [I (int LINESZ), I fp]"
  from "1.prems"(1) obtain r where r: "syscall ?c w = (Val r, answered ?c r w)"
    and rest: "payload r = [] \<and> s = reply \<and> v = answered ?c r w \<or>
      payload r \<noteq> [] \<and> \<not> CPU_MAXBUF < t + length (cstr (payload r)) \<and>
      \<not> CPU_MAXBUF < length reply + length (take LINESZ (cstr (payload r))) + 1 \<and>
      cpu_lines prg fp p (reply @ take LINESZ (cstr (payload r))) (t + length (cstr (payload r))) (answered ?c r w) = (Val s, v)"
  proof -
    from "1.prems"(1) obtain r u where u: "syscall ?c w = (Val r, u)"
      and k: "(let tmpbuf = cstr (payload r) in
       if payload r = [] then ret reply u
       else if CPU_MAXBUF < t + length tmpbuf then
         (seq (printf (''%s: buffer limit exceeded, aborting...'' @ [LF]) [S prg])
           (seq (emit (Did ''free'' [I p])) (bind (icall (Call ''pclose'' [I fp])) (\<lambda>_. exit_prog 1)))) u
       else if CPU_MAXBUF < length reply + length (take LINESZ tmpbuf) + 1 then stop (Undef ''write past reply'') u
       else cpu_lines prg fp p (reply @ take LINESZ tmpbuf) (t + length tmpbuf) u) = (Val s, v)"
      by (subst (asm) cpu_lines.simps) (erule bind_ValE, blast)
    from u have "u = answered ?c r w" by (auto dest: syscall_Val_script)
    with u k show thesis
      by (intro that[of r]) (auto simp: Let_def seq_def ret_apply stop_apply elim!: bind_ValE split: if_splits)
  qed
  show ?case
  proof (cases "payload r = []")
    case True
    with rest show ?thesis by (intro exI[of _ "[Sys ?c r]"]) auto
  next
    case False
    with rest have lp: "cpu_lines prg fp p (reply @ take LINESZ (cstr (payload r))) (t + length (cstr (payload r)))
        (answered ?c r w) = (Val s, v)" by simp
    from "1.IH"[OF r refl False _ _ lp "1.prems"(2)] rest False
    obtain es where es: "trace v = trace (answered ?c r w) @ es" "list_all quiet es"
      "s = (reply @ take LINESZ (cstr (payload r))) @ fgot es" by auto
    with "1.prems"(2) have "take LINESZ (cstr (payload r)) = payload r" by (simp add: cstr_id)
    with es show ?thesis by (intro exI[of _ "Sys ?c r # es"]) auto
  qed
qed


text \<open>Calls that move no bytes and read no line.\<close>

definition dull :: "event \<Rightarrow> bool" where
  "dull e \<longleftrightarrow> quiet e \<and> fgot [e] = []"

lemma fgot_dull: "list_all (\<lambda>e. fgot [e] = []) es \<Longrightarrow> fgot es = []"
proof (induction es)
  case (Cons e es)
  then show ?case using fgot_append[of "[e]" es] by simp
qed simp

lemma dull_run:
  assumes "emits dull m" and "m w = (x, v)"
  shows "extends w v \<and> fgot (trace v) = fgot (trace w) \<and> delivered f (trace v) = delivered f (trace w)"
proof -
  from assms obtain es where es: "trace v = trace w @ es" "list_all dull es" by (rule emitsD)
  have "list_all quiet es" "list_all (\<lambda>e. fgot [e] = []) es" using es(2) unfolding dull_def list_all_iff by blast+
  then have "fgot es = []" "delivered f es = []" using fgot_dull quiet_list by blast+
  with es(1) show ?thesis by (auto simp: extends_def)
qed

lemma dull_calls:
  "f \<noteq> ''fgets'' \<Longrightarrow> emits dull (icall (Call f xs))" "emits dull (icall (Close fd))" "emits dull (emit (Did f xs))"
  "emits dull (cpu_popen prg p fp)"
  unfolding cpu_popen_def by (intro emits_intros; simp add: dull_def)+

lemma fd_write_complete:
  assumes "fd_write fd s (length s) w = (Val n, v)"
    and "\<forall>b r. Sys (Write fd b) r \<in> set (trace v) \<longrightarrow> retval r = int (length b)"
  shows "io_delta nothing (only fd s) w v"
proof -
  from assms(1) obtain wr u where c: "icall (Write fd s) w = (Val wr, u)"
    and rest: "(if wr < 0 then ret (-1) u else if nat wr < length s then fd_write_loop fd s (length s) wr u
      else ret wr u) = (Val n, v)"
    unfolding fd_write_def fd_write_loop.simps[of fd s "length s" 0 w] add_0_left take_all[OF order.refl]
    by (rule bind_ValE) blast
  from icall_Val[OF c] obtain r where r: "wr = retval r" "u = answered (Write fd s) r w" by blast
  have "extends u v"
  proof (cases "\<not> wr < 0 \<and> nat wr < length s")
    case True
    with rest have lp: "fd_write_loop fd s (length s) wr u = (Val n, v)" by simp
    show ?thesis using fd_write_loop_extends[of u fd s "length s" wr] lp by simp
  next
    case False
    with rest show ?thesis by (auto simp: ret_apply split: if_splits)
  qed
  then have "Sys (Write fd s) r \<in> set (trace v)" using r(2) by (auto simp: extends_def)
  with assms(2) r have "wr = int (length s)" by simp
  with rest have "v = u" by (simp add: ret_apply)
  with \<open>wr = int (length s)\<close> r io_delta_Write[of fd r s w] show ?thesis by simp
qed



section \<open>What the finger server sends\<close>

text \<open>The text of a user's entry, and the room the server has for each field.\<close>

definition fingr_text :: "passwd \<Rightarrow> string" where
  "fingr_text p = [TAB] @ ''Username: '' @ pw_name p @ [LF, TAB] @ ''(encrypted) password: '' @ pw_passwd p @ [LF, TAB] @
     ''UID: '' @ show_int (pw_uid p) @ [LF, TAB] @ ''GID: '' @ show_int (pw_gid p) @ [LF, TAB] @
     ''Comment/FullName: '' @ pw_gecos p @ [LF, TAB] @ ''Home dir: '' @ pw_dir p @ [LF, TAB] @
     ''Shell: '' @ pw_shell p @ [LF]"

definition fits :: "passwd \<Rightarrow> bool" where
  "fits p \<longleftrightarrow> length (pw_name p) \<le> 256 \<and> length (pw_passwd p) \<le> 48 \<and> length (show_int (pw_uid p)) \<le> 8 \<and>
     length (show_int (pw_gid p)) \<le> 8 \<and> length (pw_gecos p) \<le> 1024 \<and> length (pw_dir p) \<le> 4096 \<and>
     length (pw_shell p) \<le> 128"

lemma fingr_reply_text:
  assumes "fits p"
  shows "fingr_reply prg user (Some p) = fingr_text p"
proof -
  have "length (fingr_text p) \<le> 5667" using assms by (auto simp: fits_def fingr_text_def)
  then show ?thesis
    by (simp add: fingr_reply_def fingr_text_def snprintf_def cformat.simps[of "_ # _"] cformat.simps[of "[]"]
        parse_spec_def isdigit_def code_def pad_def)
qed



end
