(* ===== verification/Tsig.thy ===== *)
theory Tsig
  imports PreMT
begin

text \<open>
  \<^verbatim>\<open>src/pthreads/signalling_mt/tsig.c\<close>: signals in a program with threads. The main
  thread blocks every signal but the synchronous ones, for which it installs
  a handler, before it creates the thread that waits for signals and the
  worker threads. A set of signals is the list of its members.
\<close>

section \<open>Definitions\<close>

abbreviation (input) SIGILL :: int where "SIGILL \<equiv> 4"
abbreviation (input) SIGABRT :: int where "SIGABRT \<equiv> 6"
abbreviation (input) SIGBUS :: int where "SIGBUS \<equiv> 7"
abbreviation (input) SIGFPE :: int where "SIGFPE \<equiv> 8"
abbreviation (input) SIGSEGV :: int where "SIGSEGV \<equiv> 11"

definition beep :: "char \<Rightarrow> unit prog" where
  "beep what = bind (icall (Write 1 [what])) (\<lambda>r. whenp (r < 0) (perror ''write fail''))"

text \<open>The inner loop of the macro computes nothing that is used.\<close>

definition DELAY_LOOP :: "char \<Rightarrow> nat \<Rightarrow> unit prog" where
  "DELAY_LOOP val loop_count = for_each (replicate loop_count val) beep"

text \<open>\<open>strerror\<close> is printed by its number; \<open>what\<close> is the name of the call.\<close>

definition MTX_op :: "string \<Rightarrow> string \<Rightarrow> bool \<Rightarrow> unit prog" where
  "MTX_op what mutex fatal = bind (icall (Call what [S mutex])) (\<lambda>err.
     whenp (err \<noteq> 0)
       (seq (eprintf (what @ '' failed! : %s'' @ [LF]) [I err])
         (if fatal then seq (eprintf (''Aborting now...'' @ [LF]) []) (exit_prog 1)
          else eprintf (''*WARNING* '' @ what @ '' failed!'' @ [LF]) [])))"

definition MTX_LOCK :: "string \<Rightarrow> bool \<Rightarrow> unit prog" where
  "MTX_LOCK = MTX_op ''pthread_mutex_lock''"

definition MTX_UNLOCK :: "string \<Rightarrow> bool \<Rightarrow> unit prog" where
  "MTX_UNLOCK = MTX_op ''pthread_mutex_unlock''"

text \<open>The lines the switch on \<open>si_code\<close> prints; two of its cases fall through.\<close>

definition si_code_lines :: "int \<Rightarrow> string list" where
  "si_code_lines si_code =
     (if si_code = 0 then [''user'']
      else if si_code = 128 then [''kernel'']
      else if si_code = -1 then [''queue'']
      else if si_code = -2 then [''timer'']
      else if si_code = -3 then [''mesgq'']
      else if si_code = -4 then [''async io'']
      else if si_code = -5 then [''sigio'']
      else if si_code = -6 then [''t[g]kill'']
      else if si_code = 1 then [''SEGV_MAPERR: address not mapped to object'']
      else if si_code = 2 then [''SEGV_ACCERR: invalid permissions for mapped object'']
      else (if si_code = 3 then [''SEGV_BNDERR: failed address bound checks''] else []) @
           (if si_code = 3 \<or> si_code = 4 then [''SEGV_PKUERR: access denied by memory-protection keys''] else []) @
           [''-none-''])"

text \<open>The static counter is passed in; the members of \<open>siginfo_t\<close> are arguments.\<close>

definition fatal_sigs_handler :: "int \<Rightarrow> int \<Rightarrow> int \<Rightarrow> int \<Rightarrow> int \<Rightarrow> unit prog" where
  "fatal_sigs_handler c signum si_errno si_code si_addr =
     bind (icall (Call ''getpid'' [])) (\<lambda>pid.
     seq (printf ([LF] @ ''*** %s(): [%d] PID %d'') [S ''fatal_sigs_handler'', I (c + 1), I pid])
    (bind (icall (Call ''gettid'' [])) (\<lambda>tid.
     seq (printf '' (TID %d)'' [I tid])
    (seq (printf ([TAB] @ ''received signal %d. errno=%d'' @ [LF] @ '' Cause/Origin: (si_code=%d): '')
            [I signum, I si_errno, I si_code])
    (seq (for_each (si_code_lines si_code) (\<lambda>l. printf (l @ [LF]) []))
    (seq (printf ('' Faulting addr=%p'' @ [LF]) [I si_addr])
    (seq (emit (Did ''psiginfo'' [S ''siginfo_t details follow'']))
    (bind (icall (Call ''signal'' [I SIGSEGV, S ''SIG_DFL''])) (\<lambda>r.
     seq (whenp (r = -1) (eprintf ''signal -reverting SIGSEGV to default- failed'' []))
    (bind (icall (Call ''raise'' [I SIGSEGV])) (\<lambda>r.
     seq (whenp (r \<noteq> 0) (eprintf ''raise SIGSEGV failed'' []))
       (exit_prog 1))))))))))))"

text \<open>
  One turn of the dedicated thread; the state is \<open>signal_handled\<close>, and the reply
  to \<open>sigwait\<close> carries the signal.
\<close>

definition signal_handler_body :: "int \<Rightarrow> int prog" where
  "signal_handler_body signal_handled =
     bind (icall (Call ''sigfillset'' [])) (\<lambda>r.
       if r = -1 then seq (perror ''signal_handler: sigfillset failed'') (exit_prog 1)
       else bind (syscall (Call ''sigwait'' [])) (\<lambda>r.
         if retval r < 0 then seq (perror ''signal_handler: sigwait failed'') (exit_prog 1)
         else
           let sig = out 0 r in
           seq (printf (''!!! %s(): caught signal #%d !!!'' @ [LF]) [S ''signal_handler'', I sig]) (ret sig)))"

lemma consumes_signal_handler_body: "consumes (signal_handler_body s)"
  unfolding signal_handler_body_def Let_def by (intro consumes_bind1 consumes_icall shrink_intros)

function signal_handler_loop :: "int \<Rightarrow> unit prog" where
  "signal_handler_loop s w = bind (signal_handler_body s) (\<lambda>s w. signal_handler_loop s w) w"
  by pat_completeness auto
termination
  by (relation "measure (\<lambda>(s, w). length (script w))") (auto dest: consumesD[OF consumes_signal_handler_body])

declare signal_handler_loop.simps [simp del]

definition signal_handler :: "unit prog" where
  "signal_handler = seq (printf (''Dedicated signal_handler() thread alive..'' @ [LF]) []) (signal_handler_loop (-1))"

interpretation sigthread: service signal_handler_body signal_handler_loop
  by unfold_locales (rule signal_handler_loop.simps, rule consumes_signal_handler_body)

definition work :: "int \<Rightarrow> int \<Rightarrow> unit prog" where
  "work g_opt this =
     bind (icall (Call ''getpid'' [])) (\<lambda>pid.
     seq (printf (''+++++++++++++++++++++++++++++++++++++++++'' @ [LF] @ ''Worker thread #%ld (pid %d)...'' @ [LF])
            [I this, I pid])
    (seq (if this = 1 then
            seq (DELAY_LOOP (CHR ''1'') 2000) (whenp (g_opt = 1) (stop (Undef ''null pointer dereference'')))
          else if this = 2 then DELAY_LOOP (CHR ''2'') 2000 else skip)
    (seq (printf ([LF] @ ''---------------------------------------'' @ [LF]) [])
      (emit (Did ''pthread_exit'' [])))))"

definition setup_altsigstack :: "nat \<Rightarrow> int prog" where
  "setup_altsigstack stack_sz =
     seq (printf (''Alt signal stack size = %zu bytes'' @ [LF]) [I (int stack_sz)])
    (bind (icall (Call ''malloc'' [I (int stack_sz)])) (\<lambda>ss_sp.
       if ss_sp = 0 then
         seq (printf (''malloc(%zu) for alt sig stack failed'' @ [LF]) [I (int stack_sz)]) (ret (- ENOMEM))
       else bind (icall (Call ''sigaltstack'' [I ss_sp, I (int stack_sz), I 0])) (\<lambda>r.
         if r = -1 then
           seq (printf (''sigaltstack for size %zu failed!'' @ [LF]) [I (int stack_sz)])
             (bind get_errno (\<lambda>errno. ret (- errno)))
         else
           seq (printf (''Alt signal stack uva (user virt addr) = %p'' @ [LF]) [I ss_sp]) (ret 0))))"

text \<open>Every one of these calls ends the program when it fails.\<close>

definition or_exit :: "call \<Rightarrow> (int \<Rightarrow> bool) \<Rightarrow> string \<Rightarrow> unit prog" where
  "or_exit c failed msg = bind (icall c) (\<lambda>r. if failed r then seq (perror msg) (exit_prog 1) else skip)"

fun sigdelsets :: "int list \<Rightarrow> int list \<Rightarrow> int list prog" where
  "sigdelsets sigset [] = ret sigset"
| "sigdelsets sigset (sig # sigs) =
     seq (or_exit (Call ''sigdelset'' [I sig]) (\<lambda>r. r < 0) ''sigdelset'') (sigdelsets (removeAll sig sigset) sigs)"

definition block_signals :: "unit prog" where
  "block_signals =
     seq (or_exit (Call ''sigfillset'' []) (\<lambda>r. r < 0) ''sigfillset'')
       (bind (sigdelsets [1..64] [SIGSEGV, SIGBUS, SIGABRT, SIGFPE, SIGILL]) (\<lambda>sigset.
         or_exit (Call ''pthread_sigmask'' (S ''SIG_BLOCK'' # map I sigset)) (\<lambda>r. r \<noteq> 0) ''main: pthread_sigmask failed''))"

definition create_tsig_thread :: "string \<Rightarrow> string \<Rightarrow> int \<Rightarrow> unit prog" where
  "create_tsig_thread prg start t =
     bind (icall (Call ''pthread_create'' [S ''PTHREAD_CREATE_DETACHED'', S start, I t])) (\<lambda>r.
       if r \<noteq> 0 then
         seq (eprintf (''%s: thread %ld creation failure..'' @ [LF]) [S prg, I t])
           (seq (perror ''main: pthread_create'') (exit_prog 1))
       else skip)"

definition tsig_threads :: "string \<Rightarrow> unit prog" where
  "tsig_threads prg =
     seq (create_tsig_thread prg ''signal_handler'' 0)
       (seq (for_each [1, 2] (create_tsig_thread prg ''work'')) pause_loop)"

definition tsig_handlers :: "string \<Rightarrow> unit prog" where
  "tsig_handlers prg =
     seq (for_each [SIGSEGV, SIGBUS, SIGABRT, SIGFPE, SIGILL]
            (\<lambda>sig. or_exit (Call ''sigaction'' [I sig, S ''fatal_sigs_handler'', S ''SA_RESTART | SA_SIGINFO | SA_ONSTACK''])
               (\<lambda>r. r = -1) ''sigaction''))
       (seq (or_exit (Call ''pthread_attr_init'' []) (\<lambda>r. r \<noteq> 0) ''main: pthread_attr_init failed'')
         (seq (or_exit (Call ''pthread_attr_setdetachstate'' [S ''PTHREAD_CREATE_DETACHED'']) (\<lambda>r. r \<noteq> 0)
                ''main: pthread_attr_setdetachstate failed'')
           (tsig_threads prg)))"

definition tsig_main :: "string list \<Rightarrow> unit prog" where
  "tsig_main argv =
     (let prg = argv ! 0; g_opt = atoi (argv ! 1) in
      seq (whenp (length argv \<noteq> 2)
            (seq (eprintf (''Usage: %s <option>'' @ [LF, TAB] @ ''0 = do NOT cause a segfault'' @ [LF, TAB] @
                    ''1 = do cause a segfault'' @ [LF]) [S prg]) (exit_prog 1)))
     (seq (whenp (g_opt \<noteq> 0 \<and> g_opt \<noteq> 1)
            (seq (eprintf (''<option>: bad value passed'' @ [LF]) []) (exit_prog 1)))
     (seq block_signals
     (bind (setup_altsigstack (10 * 1024 * 1024)) (\<lambda>r.
      seq (whenp (r < 0) (seq (eprintf (''%s: setting up alt sig stack failed'' @ [LF]) [S prg]) (exit_prog 1)))
        (tsig_handlers prg))))))"

section \<open>The signals are blocked before there are threads\<close>

abbreviation (input) sync_sigs :: "int list" where "sync_sigs \<equiv> [SIGSEGV, SIGBUS, SIGABRT, SIGFPE, SIGILL]"

text \<open>
  The state is the set of signals the main thread blocks, which a new thread
  inherits, and the signals that have a handler. A thread may be created only
  when all signals but the synchronous ones are blocked and the synchronous
  ones have the handler.
\<close>

definition sigs_ready :: "arg list \<times> int list \<Rightarrow> bool" where
  "sigs_ready s \<longleftrightarrow> (\<forall>sig \<in> set [1..64]. I sig \<in> set (fst s) \<longleftrightarrow> sig \<notin> set sync_sigs) \<and> set sync_sigs \<subseteq> set (snd s)"

fun tsig_mon :: "(arg list \<times> int list) monitor" where
  "tsig_mon (Sys (Call f xs) r) (bl, hs) =
     (if f = ''pthread_sigmask'' then (if retval r = 0 then At (tl xs, hs) else At (bl, hs))
      else if f = ''sigaction'' then
        (case xs of I sig # rest \<Rightarrow> if retval r = -1 then At (bl, hs) else At (bl, sig # hs) | _ \<Rightarrow> At (bl, hs))
      else if f = ''pthread_create'' then (if sigs_ready (bl, hs) then At (bl, hs) else Wrong)
      else At (bl, hs))"
| "tsig_mon (Pending (Call f xs)) (bl, hs) =
     (if f = ''pthread_create'' \<and> \<not> sigs_ready (bl, hs) then Wrong else At (bl, hs))"
| "tsig_mon e s = At s"

definition async_sigs :: "int list" where
  "async_sigs = filter (\<lambda>s. s \<notin> set sync_sigs) [1..64]"

lemma or_exit_appends: "appends (or_exit c p m)"
  unfolding or_exit_def by (intro emits_intros TrueI)

lemma or_exit_tracks:
  assumes "holds (\<lambda>_. True) (f (Pending c) s)" "\<And>r. holds (\<lambda>t. p (retval r) \<or> Q () t) (f (Sys c r) s)"
    and "\<And>t. f (Perror m) t = At t"
  shows "tracks f (or_exit c p m) Q s"
  unfolding or_exit_def
proof (rule tracks_bind[OF tracks_icall, where P = "\<lambda>r t. p r \<or> Q () t"])
  fix x t assume "p x \<or> Q () t"
  then show "tracks f (if p x then seq (perror m) (exit_prog 1) else skip) Q t"
    by (intro tracks_if tracks_quiet_seq tracks_stop tracks_skip emits_intros) (simp_all add: assms(3))
qed (use assms in \<open>auto intro: emits_intros\<close>)

lemma or_exit_then:
  assumes "holds (\<lambda>_. True) (f (Pending c) s)" "\<And>r. holds (\<lambda>t. p (retval r) \<or> t = s') (f (Sys c r) s)"
    and "\<And>t. f (Perror m) t = At t" and "tracks f n Q s'" "appends n"
  shows "tracks f (seq (or_exit c p m) n) Q s"
  by (rule tracks_seq[OF or_exit_tracks[where Q = "\<lambda>_ t. tracks f n Q t"]])
    (use assms in \<open>auto intro: holds_mono[OF assms(2)]\<close>)

lemma create_tracks: "sigs_ready s \<Longrightarrow> tracks tsig_mon (create_tsig_thread prg st t) (\<lambda>_ s'. s' = s) s"
  unfolding create_tsig_thread_def
  by (cases s) (rule tracks_bind[OF tracks_icall, where P = "\<lambda>r t. t = s"];
      auto intro!: tracks_quiet_seq tracks_stop tracks_skip emits_intros)


lemma sigdelsets_tracks:
  "tracks tsig_mon (sigdelsets ss sigs) (\<lambda>r t. r = fold removeAll sigs ss \<and> t = s) s"
proof (induction sigs arbitrary: ss)
  case Nil
  then show ?case by (simp add: tracks_ret)
next
  case (Cons sig sigs)
  have "appends (sigdelsets ss sigs)" for ss
    by (induction sigs arbitrary: ss) (auto intro!: emits_intros or_exit_appends)
  with Cons show ?case
    by (cases s) (auto intro!: or_exit_then)
qed

lemma sigdelsets_async: "fold removeAll sync_sigs [1..64] = async_sigs"
  by (simp add: async_sigs_def removeAll_filter_not_eq conj_ac cong: conj_cong)

lemma block_signals_appends: "appends block_signals"
  unfolding block_signals_def by (simp, intro emits_intros or_exit_appends)

lemma block_signals_tracks: "tracks tsig_mon block_signals (\<lambda>_ s. s = (map I async_sigs, [])) ([], [])"
proof -
  let ?k = "\<lambda>ss. or_exit (Call ''pthread_sigmask'' (S ''SIG_BLOCK'' # map I ss)) (\<lambda>r. r \<noteq> 0) ''main: pthread_sigmask failed''"
  have "tracks tsig_mon (?k async_sigs) (\<lambda>_ s. s = (map I async_sigs, [])) ([], [])"
    by (rule or_exit_tracks) auto
  then have "tracks tsig_mon (bind (sigdelsets [1..64] sync_sigs) ?k) (\<lambda>_ s. s = (map I async_sigs, [])) ([], [])"
    by (intro tracks_bind[OF sigdelsets_tracks] or_exit_appends) (auto simp only: sigdelsets_async)
  then show ?thesis
    unfolding block_signals_def
    by (rule or_exit_then[rotated 3]) (auto intro!: emits_intros or_exit_appends)
qed

lemma sigactions_tracks:
  "tracks tsig_mon (for_each sigs (\<lambda>sig. or_exit (Call ''sigaction'' [I sig, h, fl]) (\<lambda>r. r = -1) m))
     (\<lambda>_ s. s = (bl, rev sigs @ hs)) (bl, hs)"
proof (induction sigs arbitrary: hs)
  case Nil
  then show ?case by (simp add: tracks_skip)
next
  case (Cons sig sigs)
  from Cons[of "sig # hs"] show ?case
    by (auto intro!: or_exit_then[where s' = "(bl, sig # hs)"] emits_intros or_exit_appends)
qed


lemma pause_appends: "appends pause_loop"
proof -
  have "\<exists>es. trace (snd (pause_loop w)) = trace w @ es \<and> list_all (\<lambda>_. True) es" for w
  proof (induction w rule: pause_loop.induct)
    case (1 w)
    show ?case by (rule loop_emits[OF pause_loop.simps[of w] emits_icall]) (use 1 in auto)
  qed
  then show ?thesis by (simp add: emits_def)
qed

lemma pause_tracks: "tracks tsig_mon pause_loop Q s"
proof -
  let ?P = "\<lambda>e. \<forall>t. tsig_mon e t = At t"
  have P: "?P (Sys (Call ''pause'' []) r)" "?P (Pending (Call ''pause'' []))" for r by simp_all
  have "(\<exists>h. fst (pause_loop w) = Halt h) \<and> (\<exists>es. trace (snd (pause_loop w)) = trace w @ es \<and> list_all ?P es)" for w
  proof (induction w rule: pause_loop.induct)
    case (1 w)
    then show ?case using P
      by (subst (1 2) pause_loop.simps) (cases "script w"; auto simp: icall_def bind_def syscall_def ret_def; fastforce)
  qed
  moreover have "mrun tsig_mon es s = At s" if "list_all ?P es" for es
    using that by (induction es) (cases s; auto)+
  ultimately show ?thesis by (intro tracksI) (fastforce split: outcome.splits)
qed

lemma create_then:
  assumes "sigs_ready s" "tracks tsig_mon n Q s" "appends n"
  shows "tracks tsig_mon (seq (create_tsig_thread prg st t) n) Q s"
  by (rule tracks_seq[OF tracks_mono[OF create_tracks]]) (use assms in auto)

lemma tsig_appends: "appends (create_tsig_thread prg st t)" "appends (setup_altsigstack n)"
  unfolding create_tsig_thread_def setup_altsigstack_def by (intro emits_intros TrueI)+

lemma altsigstack_quiet: "emits (\<lambda>e. tsig_mon e s = At s) (setup_altsigstack n)"
  unfolding setup_altsigstack_def by (cases s) (intro emits_intros; simp)

lemma tsig_threads_appends: "appends (tsig_threads prg)"
  unfolding tsig_threads_def by (intro emits_intros tsig_appends pause_appends)

lemma tsig_threads_tracks:
  assumes "sigs_ready s"
  shows "tracks tsig_mon (tsig_threads prg) (\<lambda>_ _. True) s"
proof -
  have "tracks tsig_mon (for_each [1, 2] (create_tsig_thread prg ''work'')) (\<lambda>_ t. t = s) s"
    by (rule tracks_for_each[where J = "\<lambda>_ t. t = s"]) (auto intro: create_tracks[OF assms] tsig_appends)
  then show ?thesis
    unfolding tsig_threads_def
    by (intro create_then[OF assms] emits_intros tsig_appends pause_appends
        tracks_seq[OF tracks_mono[where Q = "\<lambda>_ t. t = s"]]) (auto intro: pause_tracks)
qed

lemma tsig_handlers_appends: "appends (tsig_handlers prg)"
  unfolding tsig_handlers_def by (intro emits_intros or_exit_appends tsig_threads_appends)

lemma tsig_handlers_tracks: "tracks tsig_mon (tsig_handlers prg) (\<lambda>_ _. True) (map I async_sigs, [])"
proof -
  let ?s = "(map I async_sigs, rev sync_sigs @ [])"
  have "sigs_ready ?s" by (auto simp: sigs_ready_def async_sigs_def)
  note threads = tsig_threads_tracks[OF this]
  have "tracks tsig_mon (seq (or_exit (Call ''pthread_attr_init'' []) (\<lambda>r. r \<noteq> 0) m)
      (seq (or_exit (Call ''pthread_attr_setdetachstate'' xs) (\<lambda>r. r \<noteq> 0) m') (tsig_threads prg))) (\<lambda>_ _. True) ?s" for m m' xs
    unfolding or_exit_def by (intro tracks_quiet_seq threads emits_intros tsig_threads_appends TrueI; simp)
  then show ?thesis
    unfolding tsig_handlers_def
    by (intro tracks_seq[OF tracks_mono[OF sigactions_tracks]] emits_intros or_exit_appends tsig_threads_appends) simp
qed


end
