(* ===== verification/SharedVar.thy ===== *)
theory SharedVar
  imports Threads
begin

text \<open>
  A variable that several threads share. Reading it is the event \<open>load\<close>, whose
  reply is the value the memory returns, writing it the event \<open>store\<close>. When
  every thread holds the lock from the load to the store of each of its
  updates, no update is lost: the value at the end is the sum of what the
  threads have added, each of them by its own trace.
\<close>

section \<open>Memory\<close>

abbreviation load :: "string \<Rightarrow> int prog" where "load x \<equiv> icall (Call ''load'' [S x])"
abbreviation store :: "string \<Rightarrow> int \<Rightarrow> unit prog" where "store x v \<equiv> emit (Did ''store'' [S x, I v])"

text \<open>The variable \<open>x\<close> along a sequence of events; None when a load returns another value.\<close>

fun mem_event :: "string \<Rightarrow> event \<Rightarrow> int \<Rightarrow> int option" where
  "mem_event x (Sys (Call f args) r) v =
     (if f = ''load'' \<and> args = [S x] \<and> retval r \<noteq> v then None else Some v)"
| "mem_event x (Did f args) v =
     (case args of [S y, I u] \<Rightarrow> if f = ''store'' \<and> y = x then Some u else Some v | _ \<Rightarrow> Some v)"
| "mem_event x e v = Some v"

fun mem_run :: "string \<Rightarrow> gevent list \<Rightarrow> int \<Rightarrow> int option" where
  "mem_run x [] v = Some v"
| "mem_run x (g # gs) v = (case mem_event x (snd g) v of None \<Rightarrow> None | Some u \<Rightarrow> mem_run x gs u)"

lemma mem_run_append:
  "mem_run x (gs @ hs) v = (case mem_run x gs v of None \<Rightarrow> None | Some u \<Rightarrow> mem_run x hs u)"
  by (induction gs arbitrary: v) (auto split: option.splits)


section \<open>Updates under a lock\<close>

text \<open>
  The discipline of a thread that updates \<open>x\<close> under the lock: it reads and
  writes \<open>x\<close> only while it has the lock, and writes only after it has read. The
  state is whether it has the lock, the value read last, and the sum of the
  differences between the values written and the values read before.
\<close>

definition is_load :: "string \<Rightarrow> event \<Rightarrow> bool" where
  "is_load x e \<longleftrightarrow> (\<exists>r. e = Sys (Call ''load'' [S x]) r)"

definition is_store :: "string \<Rightarrow> event \<Rightarrow> bool" where
  "is_store x e \<longleftrightarrow> (\<exists>v. e = Did ''store'' [S x, I v])"

fun ev_value :: "event \<Rightarrow> int" where
  "ev_value (Sys c r) = retval r"
| "ev_value (Did f [y, I v]) = v"
| "ev_value e = 0"

type_synonym upd_state = "bool \<times> int option \<times> int"

definition upd_mon :: "(event \<Rightarrow> lock_act) \<Rightarrow> string \<Rightarrow> upd_state monitor" where
  "upd_mon act x e s = (case s of (held, ld, gain) \<Rightarrow>
     (case act e of
        Acquired \<Rightarrow> if held then Broken else At (True, None, gain)
      | Released \<Rightarrow> if held then At (False, None, gain) else Wrong
      | Dropped \<Rightarrow> At (False, None, gain)
      | Refused \<Rightarrow> if held then At s else Broken
      | Misuse \<Rightarrow> Broken
      | Uses \<Rightarrow> if \<not> held then Wrong
          else if is_load x e then At (True, Some (ev_value e), gain)
          else if is_store x e then
            (case ld of None \<Rightarrow> Wrong | Some v \<Rightarrow> At (True, None, gain + (ev_value e - v)))
          else At s
      | Neutral \<Rightarrow> At s))"

lemma upd_lock_disc:
  "mrun (upd_mon act x) es (h, l, g) \<noteq> Wrong \<Longrightarrow>
   mrun (lock_disc act) es h \<noteq> Wrong \<and>
   (\<forall>h' l' g'. mrun (upd_mon act x) es (h, l, g) = At (h', l', g') \<longrightarrow> mrun (lock_disc act) es h = At h')"
proof (induction es arbitrary: h l g)
  case (Cons e es)
  show ?case
  proof (cases "upd_mon act x e (h, l, g)")
    case Wrong
    with Cons.prems show ?thesis by simp
  next
    case Broken
    then have "lock_disc act e h = Broken" by (auto simp: upd_mon_def lock_disc.simps split: lock_act.splits if_splits option.splits)
    with Broken show ?thesis by simp
  next
    case (At s)
    obtain h' l' g' where s: "s = (h', l', g')" by (cases s)
    have "lock_disc act e h = At h'"
      using At s by (auto simp: upd_mon_def lock_disc.simps split: lock_act.splits if_splits option.splits)
    with Cons At s show ?thesis by simp
  qed
qed simp

text \<open>The threads below \<open>N\<close> have run to their end, and nothing else has happened.\<close>

definition completed :: "(nat \<Rightarrow> 'a prog) \<Rightarrow> nat \<Rightarrow> gevent list \<Rightarrow> bool" where
  "completed m N gs \<longleftrightarrow> (\<forall>g \<in> set gs. fst g < N) \<and>
     (\<forall>t<N. \<exists>w y. trace w = [] \<and> events_of t gs = trace (snd (m t w)) \<and> fst (m t w) = Val y)"

lemma completed_runs: "completed m N gs \<Longrightarrow> runs_of m gs"
  unfolding runs_of_def
proof
  fix t assume c: "completed m N gs"
  show "\<exists>w. trace w = [] \<and> prefix (events_of t gs) (trace (snd (m t w)))"
  proof (cases "t < N")
    case True
    with c show ?thesis unfolding completed_def by (metis prefix_order.refl)
  next
    case False
    with c have "events_of t gs = []" by (auto simp: completed_def events_of_def filter_empty_conv)
    then show ?thesis by (intro exI[of _ "boot []"]) simp
  qed
qed

text \<open>The threads of a program in which \<open>x\<close> is updated under a lock.\<close>

locale upd_users =
  fixes act :: "event \<Rightarrow> lock_act" and x :: string and thread :: "nat \<Rightarrow> 'a prog" and gain :: "nat \<Rightarrow> int"
  assumes uses: "is_load x e \<or> is_store x e \<Longrightarrow> act e = Uses"
    and atomic: "tracks (upd_mon act x) (thread t) (\<lambda>_ (h, l, g). g = gain t) (False, None, 0)"
begin

sublocale lock_users act thread
proof
  fix t
  show "tracks (lock_disc act) (thread t) (\<lambda>_ _. True) False"
  proof (rule tracksI)
    fix w
    from tracks_not_wrong[OF atomic] obtain es where
      es: "trace (snd (thread t w)) = trace w @ es" "mrun (upd_mon act x) es (False, None, 0) \<noteq> Wrong" by blast
    from upd_lock_disc[OF es(2)] have "holds (\<lambda>_. True) (mrun (lock_disc act) es False)"
      by (auto simp: holds_def split: verdict.splits)
    with es(1) show "\<exists>es. trace (snd (thread t w)) = trace w @ es \<and> (case fst (thread t w) of
        Val x \<Rightarrow> holds (\<lambda>_. True) (mrun (lock_disc act) es False) | Halt h \<Rightarrow> holds (\<lambda>_. True) (mrun (lock_disc act) es False))"
      by (auto split: outcome.splits)
  qed
qed

lemma upd_ok: "runs_of thread gs \<Longrightarrow> mrun (upd_mon act x) (events_of t gs) (False, None, 0) \<noteq> Wrong"
  using tracks_not_wrong[OF atomic] mrun_prefix unfolding runs_of_def by (metis append_Nil)

lemma mem_event_other: "\<not> is_load x e \<Longrightarrow> \<not> is_store x e \<Longrightarrow> mem_event x e v = Some v"
proof (cases e)
  case (Sys c r)
  assume "\<not> is_load x e"
  with Sys show ?thesis by (cases c) (auto simp: is_load_def)
next
  case (Did f args)
  assume "\<not> is_store x e"
  with Did show ?thesis by (auto simp: is_store_def split: list.splits arg.splits)
qed simp_all

text \<open>One event of thread \<open>u\<close>, seen by the memory and by the thread's own state.\<close>

lemma upd_event:
  assumes "mem_event x e m = Some m'" and "upd_mon act x e (h, l, g) \<noteq> Wrong" and "l \<noteq> None \<Longrightarrow> h \<and> l = Some m"
    and "act e = Acquired \<Longrightarrow> \<not> h" and "act e = Refused \<Longrightarrow> h" and "act e \<noteq> Misuse"
  shows "\<exists>l' g'. upd_mon act x e (h, l, g) = At ((case act e of Acquired \<Rightarrow> True | Released \<Rightarrow> False | Dropped \<Rightarrow> False | _ \<Rightarrow> h), l', g')
    \<and> m' = m + (g' - g) \<and> (l' \<noteq> None \<longrightarrow> h \<and> l' = Some m' \<and> act e \<in> {Uses, Neutral, Refused}) \<and> (m' \<noteq> m \<longrightarrow> h)"
proof (cases "is_load x e \<or> is_store x e")
  case True
  then have "act e = Uses" by (rule uses)
  with True assms show ?thesis
    by (auto simp: upd_mon_def is_load_def is_store_def split: if_splits option.splits)
next
  case False
  with assms mem_event_other show ?thesis
    by (cases "act e") (auto simp: upd_mon_def split: if_splits)
qed

lemma no_lost_update:
  "runs_of thread gs \<Longrightarrow> lock_granted act gs \<Longrightarrow> mem_run x gs v0 = Some m \<Longrightarrow> \<forall>(t, e) \<in> set gs. t < N \<Longrightarrow>
   \<exists>ld gn. (\<forall>t. mrun (upd_mon act x) (events_of t gs) (False, None, 0) = At (holder act gs None = Some t, ld t, gn t)) \<and>
     (\<forall>t. ld t \<noteq> None \<longrightarrow> holder act gs None = Some t \<and> ld t = Some m) \<and> m = v0 + (\<Sum>t<N. gn t)"
proof (induction gs arbitrary: m rule: rev_induct)
  case Nil
  then show ?case by (intro exI[of _ "\<lambda>_. None"] exI[of _ "\<lambda>_. 0"]) simp
next
  case (snoc a gs)
  obtain u e where a: "a = (u, e)" by (cases a)
  let ?h = "holder act gs None" and ?init = "(False, None, 0)"
  from snoc.prems(3) obtain m0 where m0: "mem_run x gs v0 = Some m0" "mem_event x e m0 = Some m"
    by (auto simp: mem_run_append a split: option.splits)
  from snoc.IH[OF runs_of_append[OF snoc.prems(1)] lock_granted_append[OF snoc.prems(2)] m0(1)] snoc.prems(4)
  obtain ld gn where ih: "\<forall>t. mrun (upd_mon act x) (events_of t gs) ?init = At (?h = Some t, ld t, gn t)"
    "\<forall>t. ld t \<noteq> None \<longrightarrow> ?h = Some t \<and> ld t = Some m0" "m0 = v0 + (\<Sum>t<N. gn t)" by auto
  have granted: "act e = Acquired \<Longrightarrow> ?h = None" "act e = Refused \<Longrightarrow> ?h = Some u" "act e \<noteq> Misuse"
    using snoc.prems(2) unfolding lock_granted_def a by auto
  have "mrun (upd_mon act x) (events_of u (gs @ [a])) ?init \<noteq> Wrong" using snoc.prems(1) by (rule upd_ok)
  then have "upd_mon act x e (?h = Some u, ld u, gn u) \<noteq> Wrong"
    using ih(1) by (auto simp: mrun_append a split: verdict.splits)
  moreover have "ld u \<noteq> None \<Longrightarrow> ?h = Some u \<and> ld u = Some m0" "act e = Acquired \<Longrightarrow> \<not> ?h = Some u"
    using ih(2) granted(1) by auto
  ultimately obtain l' g' where
    st: "upd_mon act x e (?h = Some u, ld u, gn u) =
      At ((case act e of Acquired \<Rightarrow> True | Released \<Rightarrow> False | Dropped \<Rightarrow> False | _ \<Rightarrow> ?h = Some u), l', g')"
    "m = m0 + (g' - gn u)" "l' \<noteq> None \<longrightarrow> ?h = Some u \<and> l' = Some m \<and> act e \<in> {Uses, Neutral, Refused}"
    "m \<noteq> m0 \<longrightarrow> ?h = Some u" using upd_event[OF m0(2) _ _ _ granted(2,3)] by blast
  have rel: "act e = Released \<Longrightarrow> ?h = Some u"
    using snoc.prems use_by_holder[of gs u e "[]"] a by auto
  let ?ld = "ld(u := l')" and ?gn = "gn(u := g')"
  have h': "(holder act (gs @ [a]) None = Some t) = (if t = u
      then (case act e of Acquired \<Rightarrow> True | Released \<Rightarrow> False | Dropped \<Rightarrow> False | _ \<Rightarrow> ?h = Some u)
      else ?h = Some t)" for t
    using granted rel by (cases "act e") (auto simp: a holder_append)
  have "u < N" using snoc.prems(4) a by auto
  then have "(\<Sum>t<N. ?gn t) = (\<Sum>t<N. gn t) + (g' - gn u)"
    by (simp add: sum.remove[of "{..<N}" u] add.commute)
  then have sum: "m = v0 + (\<Sum>t<N. ?gn t)" using st(2) ih(3) by simp
  have "mrun (upd_mon act x) (events_of t (gs @ [a])) ?init =
      At (holder act (gs @ [a]) None = Some t, ?ld t, ?gn t)" for t
    using ih(1) st(1) h'[of t] by (cases "t = u") (simp_all add: a mrun_append)
  moreover have "holder act (gs @ [a]) None = Some t \<and> ?ld t = Some m" if "?ld t \<noteq> None" for t
  proof (cases "t = u")
    case True
    with that st(3) h'[of u] show ?thesis by auto
  next
    case False
    with that ih(2) have "?h = Some t" "ld t = Some m0" by auto
    with False st(4) h' show ?thesis by auto
  qed
  ultimately show ?case using sum by blast
qed


text \<open>When every thread has run to its end, the variable has what each of them adds.\<close>

lemma final_value:
  assumes "completed thread N gs" and "lock_granted act gs" and "mem_run x gs v0 = Some m"
  shows "m = v0 + (\<Sum>t<N. gain t)"
proof -
  have run: "runs_of thread gs" using assms(1) by (rule completed_runs)
  have "\<forall>(t, e) \<in> set gs. t < N" using assms(1) by (auto simp: completed_def)
  from no_lost_update[OF run assms(2,3) this] obtain ld gn where
    g: "\<forall>t. mrun (upd_mon act x) (events_of t gs) (False, None, 0) = At (holder act gs None = Some t, ld t, gn t)"
    "m = v0 + (\<Sum>t<N. gn t)" by blast
  have "gn t = gain t" if "t < N" for t
  proof -
    from assms(1) that obtain w y where w: "trace w = []" "events_of t gs = trace (snd (thread t w))" "fst (thread t w) = Val y"
      unfolding completed_def by blast
    from tracksE[OF atomic, of t w "Val y" "snd (thread t w)"] w(3) obtain es where
      "trace (snd (thread t w)) = trace w @ es" "holds (\<lambda>(h, l, g). g = gain t) (mrun (upd_mon act x) es (False, None, 0))"
      by (metis prod.collapse)
    with w g(1) show ?thesis by (auto dest: spec[of _ t])
  qed
  with g(2) show ?thesis by simp
qed

end

end
