(* ===== verification/MutexDemos.thy ===== *)
theory MutexDemos
  imports SharedVar
begin

text \<open>
  Programs whose threads update a shared variable: \<^verbatim>\<open>matrixmul-dbg.c\<close> and
  \<^verbatim>\<open>pt4-condvar.c\<close> of \<^verbatim>\<open>src/pthreads/llnl-tut-prgs\<close>,
  \<^verbatim>\<open>src/pthreads/misc/mutex_debugcheck/mutex_debugcheck.c\<close>, which checks its mutex
  for errors, and \<^verbatim>\<open>src/pthreads/bankacc_datarace/bankacc_datarace.c\<close>, with and without
  its mutex. Globals that are written only before the threads start are
  arguments; the doubles of the dot product hold whole numbers.
\<close>

section \<open>The dot product\<close>

abbreviation (input) GSUM :: string where "GSUM \<equiv> ''gDotstr.sum''"
abbreviation mutex_lock :: "string \<Rightarrow> int prog" where "mutex_lock m \<equiv> icall (Call ''pthread_mutex_lock'' [S m])"
abbreviation mutex_unlock :: "string \<Rightarrow> int prog" where "mutex_unlock m \<equiv> icall (Call ''pthread_mutex_unlock'' [S m])"
abbreviation pthread_exit :: "unit prog" where "pthread_exit \<equiv> emit (Did ''pthread_exit'' [])"

record DOTDATA =
  dd_a :: "int list"
  dd_b :: "int list"
  veclen :: nat

text \<open>The loop from \<open>start\<close> to \<open>end\<close>; None when it reads outside the arrays.\<close>

function dot_loop :: "int list \<Rightarrow> int list \<Rightarrow> nat \<Rightarrow> nat \<Rightarrow> int \<Rightarrow> int option" where
  "dot_loop x y i e mysum =
     (if i < e then
        (if i < length x \<and> i < length y then dot_loop x y (Suc i) e (mysum + x ! i * y ! i) else None)
      else Some mysum)"
  by pat_completeness auto
termination
  by (relation "measure (\<lambda>(x, y, i, e, s). e - i)") auto

declare dot_loop.simps [simp del]

definition dotprod :: "DOTDATA \<Rightarrow> nat \<Rightarrow> unit prog" where
  "dotprod g offset =
     bind (mutex_lock ''mutexsum'') (\<lambda>_.
     bind (mutex_unlock ''mutexsum'') (\<lambda>_.
       let len = veclen g; start = offset * len in
       case dot_loop (dd_a g) (dd_b g) start (start + len) 0 of
         None \<Rightarrow> stop (Undef ''index outside the array'')
       | Some mysum \<Rightarrow>
           bind (mutex_lock ''mutexsum'') (\<lambda>_.
           bind (load GSUM) (\<lambda>s.
           seq (store GSUM (s + mysum))
             (bind (mutex_unlock ''mutexsum'') (\<lambda>_. pthread_exit))))))"

text \<open>The arrays are filled with 1; a failed \<open>malloc\<close> is not noticed.\<close>

definition dot_init :: "(int \<times> int \<times> DOTDATA) prog" where
  "dot_init =
     bind (icall (Call ''malloc'' [I 3200])) (\<lambda>a.
     bind (icall (Call ''malloc'' [I 3200])) (\<lambda>b.
       if a = 0 \<or> b = 0 then stop (Undef ''null pointer dereference'')
       else seq (store GSUM 0)
         (ret (a, b, \<lparr>dd_a = replicate 400 1, dd_b = replicate 400 1, veclen = 100\<rparr>))))"

definition dot_threads :: "string \<Rightarrow> unit prog" where
  "dot_threads prg =
     seq (for_each [0..<4] (\<lambda>i. bind (icall (Call ''pthread_create'' [S ''dotprod'', I (int i)])) (\<lambda>r.
            whenp (r \<noteq> 0) (eprintf (''%s: thread %lu creation failed, aborting..'' @ [LF]) [S prg, I (int i)]))))
       (seq (emit (Did ''pthread_attr_destroy'' []))
         (for_each [0..<4] (\<lambda>i. bind (icall (Call ''pthread_join'' [I (int i)])) (\<lambda>_. skip))))"

definition dot_finish :: "int \<Rightarrow> int \<Rightarrow> unit prog" where
  "dot_finish a b =
     bind (load GSUM) (\<lambda>s.
     seq (printf ([LF] @ ''Sum =  %f '' @ [LF]) [I s])
       (seq (emit (Did ''free'' [I a]))
         (seq (emit (Did ''free'' [I b]))
           (bind (icall (Call ''pthread_mutex_destroy'' [S ''mutexsum''])) (\<lambda>_. pthread_exit)))))"

definition matrixmul_main :: "string list \<Rightarrow> unit prog" where
  "matrixmul_main argv =
     seq (printf (''%s: mutex process-shared is true.'' @ [LF]) [S (argv ! 0)])
       (bind dot_init (\<lambda>(a, b, g).
         bind (icall (Call ''pthread_mutex_init'' [S ''mutexsum'', S ''NULL''])) (\<lambda>_.
         bind (icall (Call ''pthread_attr_init'' [])) (\<lambda>_.
         bind (icall (Call ''pthread_attr_setdetachstate'' [S ''PTHREAD_CREATE_JOINABLE''])) (\<lambda>_.
           seq (dot_threads (argv ! 0)) (dot_finish a b))))))"


subsection \<open>With a mutex that is checked\<close>

definition pthread_mutex_lock_wrapped :: "string \<Rightarrow> int prog" where
  "pthread_mutex_lock_wrapped mutex =
     bind (mutex_lock mutex) (\<lambda>r.
       seq (whenp (r \<noteq> 0)
             (seq (eprintf (''Warning! pthread_mutex_lock() failed, err=%d'' @ [LF]) [I r])
               (bind get_errno (\<lambda>errno. whenp (errno \<noteq> 0) (perror '' '')))))
         (seq (whenp (r = EOWNERDEAD) (printf (''owner died without unlocking'' @ [LF]) [])) (ret r)))"

definition make_consistent :: "unit prog" where
  "make_consistent =
     seq (printf (''pthread_mutex_lock() returned EOWNERDEAD'' @ [LF]) [])
       (seq (printf (''Lets now make the mutex consistent'' @ [LF]) [])
         (bind (icall (Call ''pthread_mutex_consistent'' [S ''mutexsum''])) (\<lambda>r.
           if r \<noteq> 0 then
             seq (eprintf (''Warning! pthread_mutex_consistent() failed'' @ [LF]) [])
               (bind (mutex_unlock ''mutexsum'') (\<lambda>_. skip))
           else printf (''mutex now consistent!'' @ [LF]) [])))"

definition dotprod_dbg :: "DOTDATA \<Rightarrow> nat \<Rightarrow> unit prog" where
  "dotprod_dbg g offset =
     seq (printf (''Thread T%lu'' @ [LF]) [I (int offset)])
       (bind (pthread_mutex_lock_wrapped ''mutexsum'') (\<lambda>r.
       seq (whenp (r = EOWNERDEAD) make_consistent)
         (seq (whenp (offset = 0) (bind (pthread_mutex_lock_wrapped ''mutexsum'') (\<lambda>_. skip)))
           (bind (mutex_unlock ''mutexsum'') (\<lambda>_.
             let len = veclen g; start = offset * len in
             case dot_loop (dd_a g) (dd_b g) start (start + len) 0 of
               None \<Rightarrow> stop (Undef ''index outside the array'')
             | Some mysum \<Rightarrow>
                 bind (mutex_lock ''mutexsum'') (\<lambda>_.
                 bind (load GSUM) (\<lambda>s.
                 seq (store GSUM (s + mysum))
                   (seq (whenp (offset \<noteq> 2) (bind (mutex_unlock ''mutexsum'') (\<lambda>_. skip))) pthread_exit))))))))"

definition warn_if :: "call \<Rightarrow> string \<Rightarrow> unit prog" where
  "warn_if c name = bind (icall c) (\<lambda>r.
     whenp (r \<noteq> 0) (eprintf (''Warning! '' @ name @ ''() failed, err=%d'' @ [LF]) [I r]))"

definition mutex_type_name :: "int \<Rightarrow> string" where
  "mutex_type_name mtxtype =
     (if mtxtype = 0 then ''DEFAULT (or NORMAL)'' else if mtxtype = 2 then ''ERRORCHECK''
      else if mtxtype = 1 then ''RECURSIVE'' else ''-unknown-/error'')"

definition mutex_debugcheck_main :: "string list \<Rightarrow> unit prog" where
  "mutex_debugcheck_main argv =
     seq (printf (''%s: mutex process-shared is true.'' @ [LF]) [S (argv ! 0)])
       (bind dot_init (\<lambda>(a, b, g).
         bind (syscall (Call ''pthread_mutexattr_gettype'' [])) (\<lambda>r.
         seq (whenp (retval r \<noteq> 0) (eprintf (''Warning! pthread_mutexattr_gettype() failed, err=%d'' @ [LF]) [I (retval r)]))
        (seq (printf ''Mutex type is '' [])
        (seq (printf (mutex_type_name (out 0 r) @ [LF]) [])
        (seq (warn_if (Call ''pthread_mutexattr_settype'' [S ''PTHREAD_MUTEX_ERRORCHECK'']) ''pthread_mutexattr_settype'')
        (seq (warn_if (Call ''pthread_mutexattr_setrobust'' [S ''PTHREAD_MUTEX_ROBUST'']) ''pthread_mutexattr_settype'')
        (bind (icall (Call ''pthread_mutex_init'' [S ''mutexsum'', S ''mutexattr''])) (\<lambda>_.
         seq (printf (''(Provided no warnings occured) Mutex type is now PTHREAD_MUTEX_ERRORCHECK and robust'' @ [LF]) [])
        (bind (icall (Call ''pthread_attr_init'' [])) (\<lambda>_.
         bind (icall (Call ''pthread_attr_setdetachstate'' [S ''PTHREAD_CREATE_JOINABLE''])) (\<lambda>_.
           seq (dot_threads (argv ! 0)) (dot_finish a b)))))))))))))"


section \<open>The bank account\<close>

abbreviation (input) NUM_ITERATIONS :: nat where "NUM_ITERATIONS \<equiv> 1000000"

text \<open>\<open>balance++\<close> and \<open>balance--\<close>: a read, then a write.\<close>

definition balance_add :: "int \<Rightarrow> unit prog" where
  "balance_add d = bind (load ''balance'') (\<lambda>v.
     if v + d < INT_MIN \<or> INT_MAX < v + d then stop (Undef ''signed overflow'')
     else store ''balance'' (v + d))"

fun bad_loop :: "nat \<Rightarrow> int \<Rightarrow> unit prog" where
  "bad_loop 0 d = skip"
| "bad_loop (Suc n) d = seq (balance_add d) (bad_loop n d)"

definition deposit_bad :: "unit prog" where "deposit_bad = bad_loop NUM_ITERATIONS 1"

definition withdraw_bad :: "unit prog" where "withdraw_bad = bad_loop NUM_ITERATIONS (-1)"

fun good_loop :: "nat \<Rightarrow> int \<Rightarrow> unit prog" where
  "good_loop 0 d = skip"
| "good_loop (Suc n) d =
     bind (mutex_lock ''lock'') (\<lambda>_.
     seq (balance_add d)
       (bind (mutex_unlock ''lock'') (\<lambda>_. good_loop n d)))"

definition deposit :: "unit prog" where "deposit = good_loop NUM_ITERATIONS 1"

definition withdraw :: "unit prog" where "withdraw = good_loop NUM_ITERATIONS (-1)"

text \<open>A thread that has not been created is the null handle, which cannot be joined.\<close>

definition bank_create :: "string \<Rightarrow> int prog" where
  "bank_create start = bind (syscall (Call ''pthread_create'' [S start])) (\<lambda>r. ret (if retval r = 0 then out 0 r else 0))"

definition bank_join :: "int \<Rightarrow> unit prog" where
  "bank_join t = (if t = 0 then stop (Undef ''join of no thread'')
     else bind (icall (Call ''pthread_join'' [I t])) (\<lambda>_. skip))"

definition bank_main :: "string list \<Rightarrow> int prog" where
  "bank_main argv =
     seq (whenp (length argv < 2)
           (seq (eprintf (''Usage: %s opt'' @ [LF] @ ''opt=0 : good case - NO data race as a mutex is used'' @ [LF] @
               ''opt=1 : bad case - classic data race as no mutex's used'' @ [LF]) [S (argv ! 0)]) (exit_prog 1)))
       (bind (if atoi (argv ! 1) = 0 then
                bind (bank_create ''deposit'') (\<lambda>t1. bind (bank_create ''withdraw'') (\<lambda>t2. ret (t1, t2)))
              else if atoi (argv ! 1) = 1 then
                bind (bank_create ''deposit_bad'') (\<lambda>t1. bind (bank_create ''withdraw_bad'') (\<lambda>t2. ret (t1, t2)))
              else ret (0, 0)) (\<lambda>(t1, t2).
         seq (bank_join t1)
           (seq (bank_join t2)
             (bind (load ''balance'') (\<lambda>balance.
               seq (printf (''Final balance: %d'' @ [LF]) [I balance]) (ret 0))))))"

section \<open>The condition variable\<close>

abbreviation (input) TCOUNT :: nat where "TCOUNT \<equiv> 10"
abbreviation (input) COUNT_LIMIT :: int where "COUNT_LIMIT \<equiv> 12"

text \<open>Every use of the global \<open>count\<close> reads it.\<close>

definition inc_report :: "int \<Rightarrow> unit prog" where
  "inc_report my_id =
     bind (load ''count'') (\<lambda>count.
     seq (if count = COUNT_LIMIT then
            bind (icall (Call ''pthread_cond_signal'' [S ''count_threshold_cv''])) (\<lambda>_.
            bind (load ''count'') (\<lambda>count.
              printf (''inc_count(): thread %d, count = %d Threshold reached.'' @ [LF]) [I my_id, I count]))
          else skip)
       (bind (load ''count'') (\<lambda>count.
         printf (''inc_count(): thread %d, count = %d, unlocking mutex'' @ [LF]) [I my_id, I count])))"

definition do_some_work :: "unit prog" where
  "do_some_work = for_each (replicate 1000 ()) (\<lambda>_. bind (icall (Call ''random'' [])) (\<lambda>_. skip))"

fun inc_loop :: "nat \<Rightarrow> int \<Rightarrow> unit prog" where
  "inc_loop 0 my_id = skip"
| "inc_loop (Suc n) my_id =
     bind (mutex_lock ''count_mutex'') (\<lambda>_.
     bind (load ''count'') (\<lambda>count.
     seq (if INT_MAX < count + 1 then stop (Undef ''signed overflow'') else store ''count'' (count + 1))
       (seq (inc_report my_id)
         (bind (mutex_unlock ''count_mutex'') (\<lambda>_.
           seq do_some_work (inc_loop n my_id))))))"

definition inc_count :: "int \<Rightarrow> unit prog" where
  "inc_count my_id = seq (inc_loop TCOUNT my_id) pthread_exit"

text \<open>
  \<open>pthread_cond_wait\<close> is two events: it has released the mutex, and it has it
  again when it returns.
\<close>

definition cond_wait :: "string \<Rightarrow> string \<Rightarrow> int prog" where
  "cond_wait cv m =
     seq (emit (Did ''pthread_cond_wait releases'' [S m])) (icall (Call ''pthread_cond_wait'' [S cv, S m]))"

function watch_loop :: "int \<Rightarrow> unit prog" where
  "watch_loop my_id w =
     bind (load ''count'') (\<lambda>count w.
       if count < COUNT_LIMIT then
         seq (bind (cond_wait ''count_threshold_cv'' ''count_mutex'') (\<lambda>_.
                printf (''watch_count(): thread %d Condition signal received.'' @ [LF]) [I my_id]))
           (\<lambda>w. watch_loop my_id w) w
       else skip w) w"
  by pat_completeness auto
termination
proof (relation "measure (\<lambda>(i, w). length (script w))", goal_cases)
  case (2 my_id w c v x u)
  have "shrinks (bind (cond_wait ''count_threshold_cv'' ''count_mutex'') (\<lambda>_.
      printf (''watch_count(): thread %d Condition signal received.'' @ [LF]) [I my_id]))"
    unfolding cond_wait_def by (intro shrink_intros)
  from shrinksD[OF this 2(3)] consumesD[OF consumes_icall 2(1)] show ?case by simp
qed simp

declare watch_loop.simps [simp del]

definition watch_count :: "int \<Rightarrow> unit prog" where
  "watch_count my_id =
     seq (printf (''Starting watch_count(): thread %d'' @ [LF]) [I my_id])
       (bind (mutex_lock ''count_mutex'') (\<lambda>_.
         seq (watch_loop my_id)
           (bind (mutex_unlock ''count_mutex'') (\<lambda>_. pthread_exit))))"

definition condvar_main :: "unit prog" where
  "condvar_main =
     bind (icall (Call ''pthread_mutex_init'' [S ''count_mutex''])) (\<lambda>_.
     bind (icall (Call ''pthread_cond_init'' [S ''count_threshold_cv''])) (\<lambda>_.
     bind (icall (Call ''pthread_attr_init'' [])) (\<lambda>_.
     bind (icall (Call ''pthread_attr_setdetachstate'' [S ''PTHREAD_CREATE_JOINABLE''])) (\<lambda>_.
     bind (icall (Call ''pthread_create'' [S ''inc_count'', I 0])) (\<lambda>_.
     bind (icall (Call ''pthread_create'' [S ''inc_count'', I 1])) (\<lambda>_.
     bind (icall (Call ''pthread_create'' [S ''watch_count'', I 2])) (\<lambda>_.
     seq (for_each [0..<3] (\<lambda>i. bind (icall (Call ''pthread_join'' [I (int i)])) (\<lambda>_. skip)))
    (seq (printf (''Main(): Waited on %d threads. Done.'' @ [LF]) [I 3])
    (seq (emit (Did ''pthread_attr_destroy'' []))
    (bind (icall (Call ''pthread_mutex_destroy'' [S ''count_mutex''])) (\<lambda>_.
     bind (icall (Call ''pthread_cond_destroy'' [S ''count_threshold_cv''])) (\<lambda>_.
       pthread_exit))))))))))))"

section \<open>The mutex of a program\<close>

text \<open>
  What an event means for the mutex \<open>m\<close> that protects \<open>x\<close>. A mutex that checks
  for errors and is robust answers \<open>EDEADLK\<close> to the thread that has it, and
  \<open>EOWNERDEAD\<close> when it gives the mutex of a thread that has ended to another.
\<close>

definition mutex_act :: "bool \<Rightarrow> string \<Rightarrow> string \<Rightarrow> event \<Rightarrow> lock_act" where
  "mutex_act checked m x e = (case e of
      Sys (Call f args) r \<Rightarrow>
        if f = ''pthread_mutex_lock'' \<and> args = [S m] then
          (if retval r = 0 \<or> checked \<and> retval r = EOWNERDEAD then Acquired
           else if checked \<and> retval r = EDEADLK then Refused else Misuse)
        else if f = ''pthread_mutex_unlock'' \<and> args = [S m] then (if retval r = 0 then Released else Misuse)
        else if f = ''pthread_cond_wait'' then (if retval r = 0 then Acquired else Misuse)
        else if f = ''pthread_mutex_consistent'' then (if retval r = 0 then Neutral else Misuse)
        else if f = ''load'' \<and> args = [S x] then Uses else Neutral
    | Did f args \<Rightarrow>
        if is_store x (Did f args) then Uses
        else if f = ''pthread_cond_wait releases'' then Released
        else if f = ''pthread_exit'' then Dropped else Neutral
    | _ \<Rightarrow> Neutral)"

lemma mutex_act_uses: "is_load x e \<or> is_store x e \<Longrightarrow> mutex_act checked m x e = Uses"
  by (auto simp: mutex_act_def is_load_def is_store_def)

lemma mutex_act_simps [simp]:
  "is_store x (Did f [S y, I v]) = (f = ''store'' \<and> y = x)" "is_store x (Did f []) = False" "is_store x (Did f [a]) = False"
  "is_load x (Sys (Call f args) r) = (f = ''load'' \<and> args = [S x])" "is_load x (Did f args) = False"
  "is_store x (Sys c r) = False" "is_load x (Pending c) = False" "is_store x (Pending c) = False"
  by (auto simp: is_store_def is_load_def)

abbreviation under :: "bool \<Rightarrow> string \<Rightarrow> string \<Rightarrow> upd_state monitor" where
  "under checked m x \<equiv> upd_mon (mutex_act checked m x) x"

lemma under_lock: "tracks (under False m x) (mutex_lock m) (\<lambda>_ s. s = (True, None, g)) (False, l, g)"
  by (rule tracks_icall) (auto simp: upd_mon_def mutex_act_def)

lemma under_unlock: "tracks (under c m x) (mutex_unlock m) (\<lambda>_ s. s = (False, None, g)) (True, l, g)"
  by (rule tracks_icall) (auto simp: upd_mon_def mutex_act_def)

lemma under_load: "tracks (under c m x) (load x) (\<lambda>v s. s = (True, Some v, g)) (True, l, g)"
  by (rule tracks_icall) (auto simp: upd_mon_def mutex_act_def)

lemma under_store: "tracks (under c m x) (store x u) (\<lambda>_ s. s = (True, None, g + (u - v))) (True, Some v, g)"
  by (rule tracks_emit) (auto simp: upd_mon_def mutex_act_def)

lemma under_exit: "tracks (under c m x) pthread_exit (\<lambda>_ s. s = (False, None, g)) (h, l, g)"
  by (rule tracks_emit) (auto simp: upd_mon_def mutex_act_def)

lemma under_then:
  "tracks (under False m x) n Q (True, None, g) \<Longrightarrow> appends n \<Longrightarrow>
     tracks (under False m x) (bind (mutex_lock m) (\<lambda>_. n)) Q (False, l, g)"
  "tracks (under c m x) n Q (False, None, g) \<Longrightarrow> appends n \<Longrightarrow>
     tracks (under c m x) (bind (mutex_unlock m) (\<lambda>_. n)) Q (True, l, g)"
  "(\<And>v. tracks (under c m x) (k v) Q (True, Some v, g)) \<Longrightarrow> (\<And>v. appends (k v)) \<Longrightarrow>
     tracks (under c m x) (bind (load x) k) Q (True, l, g)"
  "tracks (under c m x) n Q (True, None, g + (u - v)) \<Longrightarrow> appends n \<Longrightarrow>
     tracks (under c m x) (seq (store x u) n) Q (True, Some v, g)"
  by (auto intro: tracks_bind[OF under_lock] tracks_bind[OF under_unlock] tracks_bind[OF under_load]
      tracks_seq[OF tracks_mono[OF under_store]])

lemma update_then:
  assumes "tracks (under c m x) n Q (True, None, g + d)" and "appends n"
  shows "tracks (under c m x) (bind (load x) (\<lambda>s. seq (store x (s + d)) n)) Q (True, l, g)"
  by (intro under_then emits_intros assms(2) TrueI) (use assms(1) in simp)


section \<open>The sum is the dot product\<close>

text \<open>What a thread adds: the product of its part of the vectors.\<close>

definition part_sum :: "DOTDATA \<Rightarrow> nat \<Rightarrow> int" where
  "part_sum g t = (\<Sum>i = t * veclen g ..< t * veclen g + veclen g. dd_a g ! i * dd_b g ! i)"

lemma dot_loop_sum:
  "dot_loop x y i e s = Some r \<Longrightarrow> r = s + (\<Sum>k = i..<e. x ! k * y ! k)"
proof (induction x y i e s rule: dot_loop.induct)
  case (1 x y i e s)
  show ?case
  proof (cases "i < e")
    case True
    with "1.prems" have "i < length x \<and> i < length y" "dot_loop x y (Suc i) e (s + x ! i * y ! i) = Some r"
      by (simp_all add: dot_loop.simps[of x y i] split: if_splits)
    with True 1 show ?thesis by (simp add: sum.atLeast_Suc_lessThan)
  next
    case False
    with "1.prems" show ?thesis by (simp add: dot_loop.simps[of x y i])
  qed
qed

lemma dot_loop_total: "e \<le> length x \<Longrightarrow> e \<le> length y \<Longrightarrow> \<exists>r. dot_loop x y i e s = Some r"
  by (induction x y i e s rule: dot_loop.induct) (subst dot_loop.simps, simp)

lemma dotprod_tracks:
  "tracks (under False ''mutexsum'' GSUM) (dotprod g t) (\<lambda>_ (h, l, s). s = part_sum g t) (False, None, 0)"
proof (cases "dot_loop (dd_a g) (dd_b g) (t * veclen g) (t * veclen g + veclen g) 0")
  case None
  then show ?thesis unfolding dotprod_def Let_def by (auto intro!: under_then tracks_stop emits_intros)
next
  case (Some s)
  with dot_loop_sum have s: "s = part_sum g t" by (fastforce simp: part_sum_def)
  have "tracks (under False ''mutexsum'' GSUM) pthread_exit (\<lambda>_ (h, l, s). s = part_sum g t) (False, None, 0 + s)"
    by (rule tracks_mono[OF under_exit]) (simp add: s)
  with Some show ?thesis
    unfolding dotprod_def Let_def by (auto intro!: under_then update_then emits_intros)
qed

interpretation dot: upd_users "mutex_act False ''mutexsum'' GSUM" GSUM "dotprod g" "part_sum g" for g
  by unfold_locales (rule mutex_act_uses, assumption, rule dotprod_tracks)


lemma wrapped_appends: "appends (pthread_mutex_lock_wrapped m)" "appends make_consistent"
  unfolding pthread_mutex_lock_wrapped_def make_consistent_def by (intro emits_intros TrueI)+

lemma wrapped_tracks:
  "tracks (under True m x) (pthread_mutex_lock_wrapped m) (\<lambda>_ s. s = (True, None, g)) (h, None, g)"
proof -
  let ?k = "\<lambda>r. seq (whenp (r \<noteq> 0) (seq (eprintf (''Warning! pthread_mutex_lock() failed, err=%d'' @ [LF]) [I r])
      (bind get_errno (\<lambda>errno. whenp (errno \<noteq> 0) (perror '' '')))))
      (seq (whenp (r = EOWNERDEAD) (printf (''owner died without unlocking'' @ [LF]) [])) (ret r))"
  have "tracks (under True m x) (?k r) (\<lambda>_ s. s = (True, None, g)) (True, None, g)" for r
    by (intro tracks_quiet tracks_ret emits_intros TrueI) (simp_all add: upd_mon_def mutex_act_def is_load_def is_store_def)
  moreover have "tracks (under True m x) (mutex_lock m) (\<lambda>_ s. s = (True, None, g)) (h, None, g)"
    by (rule tracks_icall) (auto simp: upd_mon_def mutex_act_def)
  ultimately show ?thesis unfolding pthread_mutex_lock_wrapped_def
    by (intro tracks_bind[where m = "mutex_lock m" and P = "\<lambda>_ s. s = (True, None, g)"] emits_intros TrueI) auto
qed

lemma consistent_tracks: "tracks (under True m x) make_consistent (\<lambda>_ s. s = (True, None, g)) (True, None, g)"
proof -
  let ?s = "(True, None, g)"
  let ?k = "\<lambda>r::int. if r \<noteq> 0 then seq (eprintf (''Warning! pthread_mutex_consistent() failed'' @ [LF]) [])
      (bind (mutex_unlock ''mutexsum'') (\<lambda>_. skip)) else printf (''mutex now consistent!'' @ [LF]) []"
  have quiet: "emits (\<lambda>e. under True m x e ?s = At ?s) (printf f xs)" for f xs
    by (intro emits_intros) (simp add: upd_mon_def mutex_act_def)
  have "tracks (under True m x) (?k 0) (\<lambda>_ s. s = ?s) ?s"
    by (simp, rule tracks_silent, rule quiet, simp)
  moreover have "tracks (under True m x) (icall (Call ''pthread_mutex_consistent'' xs)) (\<lambda>r s. r = 0 \<and> s = ?s) ?s" for xs
    by (rule tracks_icall) (auto simp: upd_mon_def mutex_act_def)
  moreover have ap: "appends (?k r)" for r by (intro emits_intros TrueI)
  ultimately have "tracks (under True m x) (bind (icall (Call ''pthread_mutex_consistent'' xs)) ?k) (\<lambda>_ s. s = ?s) ?s" for xs
    by (intro tracks_bind[where P = "\<lambda>r s. r = 0 \<and> s = ?s"]) auto
  then show ?thesis unfolding make_consistent_def
    by (intro tracks_quiet_seq quiet emits_seq emits_bind emits_icall ap emits_emit TrueI)
qed

lemma checked_lock: "tracks (under True m x) (mutex_lock m) (\<lambda>_ s. s = (True, None, g)) (False, l, g)"
  by (rule tracks_icall) (auto simp: upd_mon_def mutex_act_def)


lemma dotprod_dbg_tracks:
  "tracks (under True ''mutexsum'' GSUM) (dotprod_dbg g t) (\<lambda>_ (h, l, s). s = part_sum g t) (False, None, 0)"
proof -
  let ?t = "tracks (under True ''mutexsum'' GSUM)" and ?Q = "\<lambda>_ (h, l, s). s = part_sum g t"
  define calc where "calc = (case dot_loop (dd_a g) (dd_b g) (t * veclen g) (t * veclen g + veclen g) 0 of
      None \<Rightarrow> stop (Undef ''index outside the array'')
    | Some mysum \<Rightarrow> bind (mutex_lock ''mutexsum'') (\<lambda>_. bind (load GSUM) (\<lambda>s. seq (store GSUM (s + mysum))
        (seq (whenp (t \<noteq> 2) (bind (mutex_unlock ''mutexsum'') (\<lambda>_. skip))) pthread_exit))))"
  have ac: "appends calc" unfolding calc_def by (auto intro!: emits_intros split: option.splits)
  have calc: "?t calc ?Q (False, None, 0)"
  proof (cases "dot_loop (dd_a g) (dd_b g) (t * veclen g) (t * veclen g + veclen g) 0")
    case None
    then show ?thesis unfolding calc_def by (simp add: tracks_stop)
  next
    case (Some s)
    with dot_loop_sum have s: "s = part_sum g t" by (fastforce simp: part_sum_def)
    have "?t (whenp (t \<noteq> 2) (bind (mutex_unlock ''mutexsum'') (\<lambda>_. skip))) (\<lambda>_ (h, l, g). g = s) (True, None, s)"
      by (auto intro!: tracks_whenp under_then tracks_skip emits_intros)
    then have "?t (seq (whenp (t \<noteq> 2) (bind (mutex_unlock ''mutexsum'') (\<lambda>_. skip))) pthread_exit) ?Q (True, None, 0 + s)"
      by (intro tracks_seq[OF tracks_mono[where Q = "\<lambda>_ (h, l, g). g = s"]] emits_intros TrueI)
        (auto intro!: tracks_mono[OF under_exit] simp: s)
    with Some show ?thesis unfolding calc_def
      by (auto intro!: tracks_bind[OF checked_lock] update_then emits_intros)
  qed
  define rest where "rest = seq (whenp (t = 0) (bind (pthread_mutex_lock_wrapped ''mutexsum'') (\<lambda>_. skip)))
      (bind (mutex_unlock ''mutexsum'') (\<lambda>_. calc))"
  have ar: "appends rest" unfolding rest_def by (intro emits_intros wrapped_appends ac TrueI)
  have "?t (whenp (t = 0) (bind (pthread_mutex_lock_wrapped ''mutexsum'') (\<lambda>_. skip))) (\<lambda>_ s. s = (True, None, 0)) (True, None, 0)"
    by (auto intro!: tracks_whenp tracks_bind[OF wrapped_tracks] tracks_skip emits_intros)
  then have rest: "?t rest ?Q (True, None, 0)" unfolding rest_def
    by (intro tracks_seq[OF tracks_mono[where Q = "\<lambda>_ s. s = (True, None, 0)"]] emits_intros ac TrueI)
      (auto intro!: under_then calc ac)
  have "?t (seq (whenp (r = EOWNERDEAD) make_consistent) rest) ?Q (True, None, 0)" for r
    by (intro tracks_seq[OF tracks_mono[OF tracks_whenp[where Q = "\<lambda>_ s. s = (True, None, 0)"]]] ar)
      (auto intro: consistent_tracks rest)
  then have "?t (bind (pthread_mutex_lock_wrapped ''mutexsum'') (\<lambda>r. seq (whenp (r = EOWNERDEAD) make_consistent) rest))
      ?Q (False, None, 0)"
    by (intro tracks_bind[OF wrapped_tracks] emits_intros wrapped_appends ar) auto
  then show ?thesis
    unfolding dotprod_dbg_def Let_def calc_def[symmetric] rest_def[symmetric]
    by (intro tracks_quiet_seq emits_intros wrapped_appends ar) (simp_all add: upd_mon_def mutex_act_def)
qed

interpretation dot_dbg: upd_users "mutex_act True ''mutexsum'' GSUM" GSUM "dotprod_dbg g" "part_sum g" for g
  by unfold_locales (rule mutex_act_uses, assumption, rule dotprod_dbg_tracks)



section \<open>The bank account\<close>

lemma good_loop_appends: "appends (good_loop n d)"
  by (induction n) (auto simp: balance_add_def intro!: emits_intros)

lemma good_loop_tracks:
  "tracks (under False ''lock'' ''balance'') (good_loop n d) (\<lambda>_ s. s = (False, None, g + int n * d)) (False, None, g)"
proof (induction n arbitrary: g)
  case 0
  then show ?case by (simp add: tracks_skip)
next
  case (Suc n)
  have "tracks (under False ''lock'' ''balance'') (balance_add d) (\<lambda>_ s. s = (True, None, g + d)) (True, None, g)"
    unfolding balance_add_def
    by (intro under_then tracks_if tracks_stop tracks_mono[OF under_store] emits_intros TrueI) auto
  moreover have "appends (balance_add d)" unfolding balance_add_def by (intro emits_intros TrueI)
  moreover have "tracks (under False ''lock'' ''balance'') (bind (mutex_unlock ''lock'') (\<lambda>_. good_loop n d))
      (\<lambda>_ s. s = (False, None, g + int (Suc n) * d)) (True, None, g + d)"
    using Suc[of "g + d"] by (intro under_then good_loop_appends) (simp add: algebra_simps)
  ultimately show ?case
    by (auto intro!: under_then tracks_seq[OF tracks_mono] emits_intros good_loop_appends)
qed

text \<open>The deposits are thread 0, the withdrawals thread 1.\<close>

interpretation bank: upd_users "mutex_act False ''lock'' ''balance''" "''balance''"
    "\<lambda>t. good_loop n (if t = 0 then 1 else -1)" "\<lambda>t. if t = 0 then int n else - int n" for n
  by unfold_locales (rule mutex_act_uses, assumption, rule tracks_mono[OF good_loop_tracks], simp split: prod.splits)

text \<open>The events of a thread of the bad case that finds the values it has left.\<close>

fun bad_events :: "nat \<Rightarrow> int \<Rightarrow> int \<Rightarrow> event list" where
  "bad_events 0 v d = []"
| "bad_events (Suc n) v d =
     Sys (Call ''load'' [S ''balance'']) (Ret v) # Did ''store'' [S ''balance'', I (v + d)] # bad_events n (v + d) d"

fun bad_script :: "nat \<Rightarrow> int \<Rightarrow> int \<Rightarrow> reply list" where
  "bad_script 0 v d = []"
| "bad_script (Suc n) v d = Ret v # bad_script n (v + d) d"

lemma bad_loop_run:
  "d = 1 \<or> d = -1 \<Longrightarrow> \<bar>v\<bar> + int n \<le> INT_MAX \<Longrightarrow> script w = bad_script n v d \<Longrightarrow>
   fst (bad_loop n d w) = Val () \<and> trace (snd (bad_loop n d w)) = trace w @ bad_events n v d"
proof (induction n arbitrary: v w)
  case (Suc n)
  let ?u = "answered (Call ''load'' [S ''balance'']) (Ret v) w"
  let ?v = "?u\<lparr>trace := trace ?u @ [Did ''store'' [S ''balance'', I (v + d)]]\<rparr>"
  have "bad_loop (Suc n) d w = bad_loop n d ?v"
    using Suc.prems by (auto simp: balance_add_def run_defs c_limits)
  moreover have "fst (bad_loop n d ?v) = Val () \<and> trace (snd (bad_loop n d ?v)) = trace ?v @ bad_events n (v + d) d"
    using Suc.prems by (intro Suc.IH) auto
  ultimately show ?case by simp
qed (simp add: run_defs)

lemma bad_events_mem: "mem_run ''balance'' (map (Pair t) (bad_events n v d)) v = Some (v + int n * d)"
  by (induction n arbitrary: v) (simp_all add: algebra_simps)

text \<open>
  Thread 0 reads the balance, thread 1 makes all its withdrawals, and thread 0
  writes what it had read plus 1: the withdrawals are lost.
\<close>

definition lost_updates :: "nat \<Rightarrow> gevent list" where
  "lost_updates n = (0, Sys (Call ''load'' [S ''balance'']) (Ret 0)) # map (Pair 1) (bad_events (Suc n) 0 (-1)) @
     (0, Did ''store'' [S ''balance'', I 1]) # map (Pair 0) (bad_events n 1 1)"

lemma lost_updates_completed:
  assumes "int (Suc n) < INT_MAX"
  shows "completed (\<lambda>t. bad_loop (Suc n) (if t = 0 then 1 else -1)) 2 (lost_updates n)"
  unfolding completed_def
proof (intro conjI allI impI)
  show "\<forall>g \<in> set (lost_updates n). fst g < 2" by (auto simp: lost_updates_def)
  fix t :: nat assume t: "t < 2"
  let ?d = "if t = 0 then 1 else -1 :: int"
  have "events_of t (lost_updates n) = bad_events (Suc n) 0 ?d"
    using t by (auto simp: lost_updates_def events_of_pair less_2_cases_iff simp del: bad_events.simps) simp
  with bad_loop_run[of ?d 0 "Suc n" "boot (bad_script (Suc n) 0 ?d)"] assms
  show "\<exists>w y. trace w = [] \<and> events_of t (lost_updates n) = trace (snd (bad_loop (Suc n) ?d w)) \<and>
      fst (bad_loop (Suc n) ?d w) = Val y"
    by (intro exI[of _ "boot (bad_script (Suc n) 0 ?d)"]) (auto simp del: bad_events.simps bad_loop.simps)
qed

text \<open>
  C25: with the mutex no deposit or withdrawal is lost: after the same number of deposits and withdrawals,
  in any interleaving, the balance is what it was. Without the mutex updates are lost: there is an interleaving of
  the deposits and withdrawals of the bad case, in which every read returns what the memory holds, that leaves
  a balance other than 0.
\<close>

theorem bank_balance:
  "(completed (\<lambda>t. good_loop n (if t = 0 then 1 else -1)) 2 gs \<and>
      lock_granted (mutex_act False ''lock'' ''balance'') gs \<and> mem_run ''balance'' gs 0 = Some m \<longrightarrow> m = 0) \<and>
   (\<exists>gs m. completed (\<lambda>t. if t = 0 then deposit_bad else withdraw_bad) 2 gs \<and> mem_run ''balance'' gs 0 = Some m \<and> m \<noteq> 0)"
proof (intro conjI impI)
  assume "completed (\<lambda>t. good_loop n (if t = 0 then 1 else -1)) 2 gs \<and>
    lock_granted (mutex_act False ''lock'' ''balance'') gs \<and> mem_run ''balance'' gs 0 = Some m"
  then show "m = 0" using bank.final_value[of n 2 gs 0 m] by (simp add: numeral_2_eq_2)
next
  have n: "NUM_ITERATIONS = Suc 999999" by simp
  have "(\<lambda>t::nat. bad_loop (Suc 999999) (if t = 0 then 1 else -1)) = (\<lambda>t. if t = 0 then deposit_bad else withdraw_bad)"
    unfolding deposit_bad_def withdraw_bad_def n by (auto simp del: bad_loop.simps)
  with lost_updates_completed[of 999999] have "completed (\<lambda>t. if t = 0 then deposit_bad else withdraw_bad) 2 (lost_updates 999999)"
    by (simp add: c_limits del: bad_loop.simps)
  moreover have "mem_run ''balance'' (lost_updates k) 0 = Some (1 + int k)" for k
    unfolding lost_updates_def by (simp add: mem_run_append bad_events_mem del: bad_events.simps)
  ultimately show "\<exists>gs m. completed (\<lambda>t. if t = 0 then deposit_bad else withdraw_bad) 2 gs \<and> mem_run ''balance'' gs 0 = Some m \<and> m \<noteq> 0"
    by (intro exI[of _ "lost_updates 999999"] exI[of _ "1 + int 999999"]) auto
qed

theorem bank_balance_witness:
  "let lk = Sys (Call ''pthread_mutex_lock'' [S ''lock'']) (Ret 0); ul = Sys (Call ''pthread_mutex_unlock'' [S ''lock'']) (Ret 0);
       gs = [(1, lk), (1, Sys (Call ''load'' [S ''balance'']) (Ret 0)), (1, Did ''store'' [S ''balance'', I (-1)]), (1, ul),
             (0, lk), (0, Sys (Call ''load'' [S ''balance'']) (Ret (-1))), (0, Did ''store'' [S ''balance'', I 0]), (0, ul)]
   in completed (\<lambda>t. good_loop 1 (if t = 0 then 1 else -1)) 2 gs \<and> the (mem_run ''balance'' gs 0) = 0"
proof -
  let ?lk = "Sys (Call ''pthread_mutex_lock'' [S ''lock'']) (Ret 0)" and ?ul = "Sys (Call ''pthread_mutex_unlock'' [S ''lock'']) (Ret 0)"
  let ?gs = "[(1, ?lk), (1, Sys (Call ''load'' [S ''balance'']) (Ret 0)), (1, Did ''store'' [S ''balance'', I (-1)]), (1, ?ul),
     (0, ?lk), (0, Sys (Call ''load'' [S ''balance'']) (Ret (-1))), (0, Did ''store'' [S ''balance'', I 0]), (0, ?ul)] :: gevent list"
  let ?m = "\<lambda>t::nat. good_loop 1 (if t = 0 then 1 else -1)"
  let ?w = "\<lambda>v. boot [Ret 0, Ret v, Ret 0]"
  have run: "trace (snd (?m t (?w (if t = 0 then -1 else 0)))) = events_of t ?gs \<and>
      fst (?m t (?w (if t = 0 then -1 else 0))) = Val ()" if "t < 2" for t
    using that by (auto simp: less_2_cases_iff balance_add_def run_defs c_limits)
  have comp: "completed ?m 2 ?gs"
    unfolding completed_def
  proof (intro conjI allI impI)
    show "\<exists>w y. trace w = [] \<and> events_of t ?gs = trace (snd (?m t w)) \<and> fst (?m t w) = Val y" if "t < 2" for t
      using run[OF that] by (intro exI[of _ "?w (if t = 0 then -1 else 0)"]) auto
  qed simp
  moreover have "lock_granted (mutex_act False ''lock'' ''balance'') ?gs" by (simp add: lock_granted_code mutex_act_def)
  moreover have v: "mem_run ''balance'' ?gs 0 = Some (the (mem_run ''balance'' ?gs 0))" by simp
  ultimately have "the (mem_run ''balance'' ?gs 0) = 0" by (intro bank_balance[THEN conjunct1, rule_format] conjI)
  with comp show ?thesis by (simp add: Let_def)
qed

section \<open>The condition variable\<close>

lemma watch_loop_seen:
  "watch_loop my_id w = (Val (), v) \<Longrightarrow>
   \<exists>es r. trace v = trace w @ es @ [Sys (Call ''load'' [S ''count'']) r] \<and> COUNT_LIMIT \<le> retval r"
proof (induction my_id w rule: watch_loop.induct)
  case (1 my_id w)
  let ?wait = "bind (cond_wait ''count_threshold_cv'' ''count_mutex'') (\<lambda>_.
      printf (''watch_count(): thread %d Condition signal received.'' @ [LF]) [I my_id])"
  from "1.prems" obtain c u where c: "load ''count'' w = (Val c, u)"
    and rest: "(if c < COUNT_LIMIT then seq ?wait (\<lambda>w. watch_loop my_id w) u else skip u) = (Val (), v)"
    unfolding watch_loop.simps[of my_id w] by (rule bind_ValE)
  from icall_Val[OF c] obtain r where r: "c = retval r" "u = answered (Call ''load'' [S ''count'']) r w" by blast
  show ?case
  proof (cases "c < COUNT_LIMIT")
    case True
    with rest have "seq ?wait (\<lambda>w. watch_loop my_id w) u = (Val (), v)" by simp
    then obtain u' where u': "?wait u = (Val (), u')" "watch_loop my_id u' = (Val (), v)"
      unfolding seq_def by (rule bind_ValE) (metis (full_types) old.unit.exhaust)
    have "appends ?wait" unfolding cond_wait_def by (intro emits_intros TrueI)
    from emits_extends[OF this u'(1)] "1.IH"[OF c True u'] r(2) show ?thesis
      by (auto simp: extends_def)
  next
    case False
    with rest r show ?thesis by (auto simp: skip_def ret_apply)
  qed
qed



end
