(* ===== verification/Primegen.thy ===== *)
theory Primegen
  imports Kernel
begin

text \<open>
  The prime number generator of \<^verbatim>\<open>src/containers/podman_try/primegen/primegen.c\<close>: its
  loops with the bounds the source has, the handler of the alarm and the main program.
\<close>

section \<open>The program\<close>

abbreviation (input) PRIME_MAX :: int where "PRIME_MAX \<equiv> 10000000"
abbreviation (input) MAX_TIME :: int where "MAX_TIME \<equiv> 60"

text \<open>The loop over \<open>j\<close>: the value of \<open>isprime\<close> it leaves.\<close>

function isprime_loop :: "int \<Rightarrow> int \<Rightarrow> int \<Rightarrow> int" where
  "isprime_loop limit i j =
     (if j < c_div limit 2 then
        if i \<noteq> j \<and> c_mod i j = 0 then 0 else isprime_loop limit i (j + 1)
      else 1)"
  by pat_completeness auto
termination
  by (relation "measure (\<lambda>(limit, i, j). nat (c_div limit 2 - j))") auto

declare isprime_loop.simps [simp del]

text \<open>The loop over \<open>i\<close>.\<close>

function primegen_loop :: "int \<Rightarrow> int \<Rightarrow> int \<Rightarrow> unit prog" where
  "primegen_loop limit i num =
     (if i \<le> limit then
        let isprime = isprime_loop limit i 2; num' = (if isprime \<noteq> 0 then num + 1 else num) in
        seq (whenp (isprime \<noteq> 0)
              (seq (printf ''%6d, '' [I i])
                (whenp (c_mod num' 16 = 0) (seq (emit (Flush 1)) (printf [LF] [])))))
          (if i = INT_MAX then stop (Undef ''signed overflow'') else primegen_loop limit (i + 1) num')
      else skip)"
  by pat_completeness auto
termination
  by (relation "measure (\<lambda>(limit, i, num). nat (limit + 1 - i))") auto

declare primegen_loop.simps [simp del]

definition simple_primegen :: "int \<Rightarrow> unit prog" where
  "simple_primegen limit =
     seq (printf ''  2,  3, '' [])
       (seq (primegen_loop limit 4 2)
         (seq (printf [LF] []) (emit (Flush 1))))"

definition buzz :: "int \<Rightarrow> unit prog" where
  "buzz signo =
     seq (printf (''%s:%s()'' @ [LF]) [S ''primegen.c'', S ''buzz''])
       (seq (emit (Flush 1))
         (bind (icall (Call ''raise'' [S ''SIGTERM''])) (\<lambda>_. skip)))"

text \<open>What \<open>signal\<close> returns is a pointer, which is never less than 0.\<close>

definition primegen_main :: "string list \<Rightarrow> unit prog" where
  "primegen_main argv =
     seq (whenp (length argv < 3)
           (seq (eprintf (''Usage: %s limit-to-generate-primes-upto time-allowed-to-run(in seconds)'' @ [LF] @
                 '' DEFAULT max allowed values for:'' @ [LF] @ ''  first parameter is %d numbers'' @ [LF] @
                 ''  second parameter is %ds'' @ [LF]) [S (argv ! 0), I PRIME_MAX, I MAX_TIME])
             (exit_prog EXIT_FAILURE)))
       (let limit = atoi (argv ! 1) in
        seq (whenp (limit < 4 \<or> PRIME_MAX < limit)
              (seq (eprintf (''%s: param 1, invalid value (%d); pl pass a value within the range [4 - %d].'' @ [LF])
                     [S (argv ! 0), I limit, I PRIME_MAX])
                (exit_prog EXIT_FAILURE)))
          (let time_allowed = atoi (argv ! 2) in
           seq (whenp (time_allowed < 1 \<or> MAX_TIME < time_allowed)
                 (seq (eprintf (''%s: param 2, invalid value (%d); pl pass a value within the range [1 - %d].'' @ [LF])
                        [S (argv ! 0), I time_allowed, I MAX_TIME])
                   (exit_prog EXIT_FAILURE)))
             (bind (icall (Call ''signal'' [S ''SIGALRM'', S ''buzz''])) (\<lambda>old.
               seq (whenp (int (u64 old) < 0) (seq (perror ''signal'') (exit_prog EXIT_FAILURE)))
                 (bind (icall (Call ''alarm'' [I time_allowed])) (\<lambda>_.
                   seq (simple_primegen limit) (exit_prog EXIT_SUCCESS)))))))"

section \<open>What it prints\<close>

definition is_prime :: "int \<Rightarrow> bool" where
  "is_prime n \<longleftrightarrow> 2 \<le> n \<and> (\<forall>d \<in> {2..<n}. \<not> d dvd n)"

lemma isprime_loop_divisor:
  assumes "2 \<le> j" and "0 \<le> i" and "0 \<le> limit"
  shows "isprime_loop limit i j = (if \<exists>d. j \<le> d \<and> d < limit div 2 \<and> d \<noteq> i \<and> d dvd i then 0 else 1)"
  using assms
proof (induction limit i j rule: isprime_loop.induct)
  case (1 limit i j)
  have "(\<exists>d. j \<le> d \<and> d < limit div 2 \<and> d \<noteq> i \<and> d dvd i) \<longleftrightarrow>
      j < limit div 2 \<and> (i \<noteq> j \<and> i mod j = 0 \<or> (\<exists>d. j + 1 \<le> d \<and> d < limit div 2 \<and> d \<noteq> i \<and> d dvd i))"
    (is "(\<exists>d. ?P j d) \<longleftrightarrow> _")
  proof -
    have "?P j d \<longleftrightarrow> d = j \<and> ?P j j \<or> ?P (j + 1) d" for d by (cases "d = j") auto
    then have "(\<exists>d. ?P j d) \<longleftrightarrow> ?P j j \<or> (\<exists>d. ?P (j + 1) d)" by blast
    then show ?thesis by (auto simp: dvd_eq_mod_eq_0)
  qed
  with 1 show ?case by (subst isprime_loop.simps) auto
qed

lemma small_divisor:
  fixes i :: int
  assumes "2 \<le> d" and "d < i" and "d dvd i"
  shows "\<exists>d. 2 \<le> d \<and> d * d \<le> i \<and> d dvd i"
proof -
  from assms(3) obtain k where k: "i = d * k" by blast
  have "2 \<le> k"
  proof (rule ccontr)
    assume "\<not> 2 \<le> k"
    then have "k \<le> 1" by simp
    then have "d * k \<le> d * 1" using assms(1) by (intro mult_left_mono) auto
    with k assms(2) show False by simp
  qed
  show ?thesis
  proof (cases "d \<le> k")
    case True
    with assms(1) have "d * d \<le> i" unfolding k by (intro mult_left_mono) auto
    with assms show ?thesis by blast
  next
    case False
    with \<open>2 \<le> k\<close> have "k * k \<le> i" unfolding k by (intro mult_right_mono) auto
    with \<open>2 \<le> k\<close> k show ?thesis by (intro exI[of _ k]) auto
  qed
qed

lemma isprime_loop_prime:
  assumes "4 \<le> i" and "i \<le> limit"
  shows "isprime_loop limit i 2 \<noteq> 0 \<longleftrightarrow> is_prime i \<or> i = 4 \<and> limit < 6"
proof -
  have "(\<exists>d. 2 \<le> d \<and> d < limit div 2 \<and> d \<noteq> i \<and> d dvd i) \<longleftrightarrow> \<not> is_prime i \<and> \<not> (i = 4 \<and> limit < 6)" (is "?l \<longleftrightarrow> ?r")
  proof
    assume ?l
    then obtain d where d: "2 \<le> d" "d < limit div 2" "d \<noteq> i" "d dvd i" by blast
    have "d < i" using zdvd_imp_le[OF d(4)] assms(1) d(3) by simp
    with d show ?r by (auto simp: is_prime_def)
  next
    assume r: ?r
    then obtain d where "2 \<le> d" "d < i" "d dvd i" using assms by (auto simp: is_prime_def)
    from small_divisor[OF this] obtain d where d: "2 \<le> d" "d * d \<le> i" "d dvd i" by blast
    have "2 * d \<le> d * d" using d(1) by simp
    have "d < limit div 2"
    proof (cases "d = 2")
      case True
      have "i \<noteq> 5" using d(3) True by presburger
      then show ?thesis using r[THEN conjunct2] assms unfolding True by presburger
    next
      case False
      with d(1) have "3 * d \<le> d * d" by (intro mult_right_mono) auto
      with d assms False show ?thesis by linarith
    qed
    moreover have "d \<noteq> i" using \<open>2 * d \<le> d * d\<close> d by linarith
    ultimately show ?l using d by blast
  qed
  then show ?thesis using isprime_loop_divisor[of 2 i limit] assms by simp
qed

text \<open>The numbers the loop prints.\<close>

fun printed :: "event \<Rightarrow> int list" where
  "printed (Out n f [I i]) = (if n = 1 \<and> f = ''%6d, '' then [i] else [])"
| "printed _ = []"

definition printed_numbers :: "event list \<Rightarrow> int list" where
  "printed_numbers es = concat (map printed es)"

lemma printed_numbers_append [simp]: "printed_numbers (xs @ ys) = printed_numbers xs @ printed_numbers ys"
  by (simp add: printed_numbers_def)

lemma printed_numbers_Cons [simp]: "printed_numbers (x # xs) = printed x @ printed_numbers xs" "printed_numbers [] = []"
  by (simp_all add: printed_numbers_def)

lemma primegen_loop_prints:
  assumes "4 \<le> i" and "limit < INT_MAX"
  shows "\<exists>es. primegen_loop limit i num w = (Val (), w\<lparr>trace := trace w @ es\<rparr>) \<and>
      printed_numbers es = filter (\<lambda>i. is_prime i \<or> i = 4 \<and> limit < 6) [i..limit]"
  using assms
proof (induction limit i num arbitrary: w rule: primegen_loop.induct)
  case (1 limit i num)
  show ?case
  proof (cases "i \<le> limit")
    case True
    define num' where "num' = (if isprime_loop limit i 2 \<noteq> 0 then num + 1 else num)"
    define es where "es = (if isprime_loop limit i 2 \<noteq> 0 then Out 1 ''%6d, '' [I i] #
        (if c_mod num' 16 = 0 then [Flush 1, Out 1 [LF] []] else []) else [])"
    have "primegen_loop limit i num w = primegen_loop limit (i + 1) num' (w\<lparr>trace := trace w @ es\<rparr>)"
      using True "1.prems" by (subst primegen_loop.simps) (simp add: num'_def es_def Let_def run_defs)
    moreover have "printed_numbers es = (if is_prime i \<or> i = 4 \<and> limit < 6 then [i] else [])"
      using isprime_loop_prime[of i limit] True "1.prems" by (simp add: es_def)
    moreover have "[i..limit] = i # [i + 1..limit]" using True by (rule upto_rec1)
    ultimately show ?thesis
      using "1.IH"[OF True refl num'_def, of "w\<lparr>trace := trace w @ es\<rparr>"] True "1.prems" by force
  next
    case False
    then show ?thesis by (subst primegen_loop.simps) (simp add: run_defs exI[of _ "[]"])
  qed
qed



end
