(* ===== verification/FileCopy.thy ===== *)
theory FileCopy
  imports Restart
begin

text \<open>
  Two ways to copy a file: \<^verbatim>\<open>rdwr_fileio.c\<close> with \<open>read\<close> and \<open>write\<close> and \<^verbatim>\<open>mmap_fileio.c\<close>
  with two mappings and \<open>memcpy\<close>, both under \<^verbatim>\<open>src/ipc/mmap_ipc\<close>. The restarted calls
  are the ones of the restart library, of which \<^verbatim>\<open>restart_lib.h\<close> is a copy.
\<close>

section \<open>The programs\<close>

abbreviation (input) RDWR_SIZE :: nat where "RDWR_SIZE \<equiv> 1048576"

text \<open>
  The loop of \<^verbatim>\<open>rdwr_fileio.c\<close>, whose rounds say whether it goes on. It ends when \<open>r_read\<close> returns 0;
  the -1 of an error would be passed on as the number of bytes to write.
\<close>

definition rdwr_step :: "int \<Rightarrow> int \<Rightarrow> bool prog" where
  "rdwr_step fd_from fd_to =
     bind (r_read fd_from RDWR_SIZE) (\<lambda>r.
       if retval r = 0 then ret False
       else if retval r < 0 then stop (Undef ''write of more than the buffer holds'')
       else bind (r_write fd_to (payload r) (nat (retval r))) (\<lambda>nw.
         if nw = -1 then seq (perror ''write failed'') (exit_prog 1)
         else seq (whenp (nw \<noteq> retval r) (eprintf (''WARNING: write: not same as read bytes'' @ [LF]) []))
           (ret True)))"

lemma consumes_rdwr_step: "consumes (rdwr_step a b)"
  unfolding rdwr_step_def by (intro consumes_bind1 read.f_consumes shrink_intros)

function rdwr_loop :: "int \<Rightarrow> int \<Rightarrow> unit prog" where
  "rdwr_loop fd_from fd_to w =
     bind (rdwr_step fd_from fd_to) (\<lambda>go_on w. if go_on then rdwr_loop fd_from fd_to w else skip w) w"
  by pat_completeness auto
termination
  by (relation "measure (\<lambda>(a, b, w). length (script w))") (auto dest: consumesD[OF consumes_rdwr_step])

declare rdwr_loop.simps [simp del]

text \<open>What both programs begin with: the two descriptors and the size of the source.\<close>

definition open_both :: "string list \<Rightarrow> (int \<times> int \<times> int) prog" where
  "open_both argv =
     (if length argv \<noteq> 3 then
        seq (eprintf (''Usage: %s source-file dest-file'' @ [LF]) [S (argv ! 0)]) (exit_prog 1)
      else bind (r_open2 (argv ! 1) ''O_RDONLY'') (\<lambda>fd_from.
        if fd_from = -1 then seq (perror ''open: src file'') (exit_prog 1)
        else bind (r_open3 (argv ! 2) ''O_RDWR|O_CREAT'' ''S_IRUSR|S_IWUSR|S_IRGRP|S_IROTH'') (\<lambda>fd_to.
          if fd_to = -1 then seq (perror ''open: dest file'') (exit_prog 1)
          else bind (syscall (Call ''stat'' [S (argv ! 1)])) (\<lambda>sstat.
            if retval sstat = -1 then seq (perror ''stat'') (exit_prog 1)
            else if out 0 sstat = 0 then
              seq (eprintf (''%s: source-file %s size is zero bytes, aborting...'' @ [LF]) [S (argv ! 0), S (argv ! 1)])
                (exit_prog 1)
            else ret (fd_from, fd_to, out 0 sstat)))))"

definition rdwr_finish :: "int \<Rightarrow> int \<Rightarrow> int \<Rightarrow> unit prog" where
  "rdwr_finish fd_from fd_to buf =
     bind (icall (Close fd_from)) (\<lambda>r.
       seq (whenp (r = -1) (perror ''close/3 failed''))
      (bind (icall (Close fd_to)) (\<lambda>r.
       seq (whenp (r = -1) (perror ''close/3 failed''))
      (seq (emit (Did ''free'' [I buf])) (exit_prog 0)))))"

definition rdwr_main :: "string list \<Rightarrow> unit prog" where
  "rdwr_main argv =
     bind (open_both argv) (\<lambda>(fd_from, fd_to, len).
     bind (icall (Call ''malloc'' [I (int RDWR_SIZE)])) (\<lambda>buf.
       if buf = 0 then seq (eprintf (''WARNING: write: not same as read bytes'' @ [LF]) []) (exit_prog 1)
       else seq (rdwr_loop fd_from fd_to) (rdwr_finish fd_from fd_to buf)))"

text \<open>The reply to \<open>memcpy\<close> is what the source held.\<close>

definition mmap_main :: "string list \<Rightarrow> unit prog" where
  "mmap_main argv =
     bind (open_both argv) (\<lambda>(fd_from, fd_to, len).
     bind (icall (Call ''lseek'' [I fd_to, I (len - 1), S ''SEEK_SET''])) (\<lambda>_.
     bind (icall (Write fd_to [NUL])) (\<lambda>n.
       if n < 0 then seq (perror ''write: to fd_to for 1 byte at eof failed'') (exit_prog 1)
       else bind (icall (Call ''mmap'' [I len, S ''PROT_READ'', S ''MAP_PRIVATE'', I fd_from, I 0])) (\<lambda>data_src.
         if data_src = -1 then seq (perror ''mmap: to src file'') (exit_prog 1)
         else bind (icall (Call ''mmap'' [I len, S ''PROT_READ|PROT_WRITE'', S ''MAP_SHARED'', I fd_to, I 0])) (\<lambda>data_dest.
           if data_dest = -1 then seq (perror ''mmap: to dest file'') (exit_prog 1)
           else bind (icall (Call ''memcpy'' [I data_dest, I data_src, I len])) (\<lambda>_.
             exit_prog 0))))))"

section \<open>Files\<close>

text \<open>
  The destination: the offset of its descriptor, its content, and the address of a shared mapping of it. A
  \<open>write\<close> or a \<open>memcpy\<close> replaces what is there; a mapping does not extend the file.
\<close>

type_synonym dest = "nat \<times> string \<times> int option"

definition overlay :: "nat \<Rightarrow> string \<Rightarrow> string \<Rightarrow> string" where
  "overlay p s c = put p s (c @ replicate (p - length c) NUL)"

fun dest_step :: "int \<Rightarrow> event \<Rightarrow> dest \<Rightarrow> dest" where
  "dest_step fd (Sys (Write f b) r) (p, c, m) =
     (let s = took fd (Sys (Write f b) r) in (p + length s, if s = [] then c else overlay p s c, m))"
| "dest_step fd (Sys (Call g args) r) (p, c, m) =
     (if g = ''lseek'' \<and> args = [I fd, I (retval r), S ''SEEK_SET''] then (nat (retval r), c, m)
      else if g = ''mmap'' \<and> drop 2 args = [S ''MAP_SHARED'', I fd, I 0] then (p, c, Some (retval r))
      else if g = ''memcpy'' \<and> map_option I m = Some (args ! 0) then (p, take (length c) (put 0 (payload r) c), m)
      else (p, c, m))"
| "dest_step fd _ st = st"

definition dest_file :: "int \<Rightarrow> string \<Rightarrow> event list \<Rightarrow> string" where
  "dest_file fd old es = fst (snd (fold (dest_step fd) es (0, old, None)))"

text \<open>
  The source holds \<open>src\<close> throughout: \<open>read\<close> gives the next bytes, and none only at the end;
  \<open>stat\<close> gives its size, and \<open>memcpy\<close> from a mapping of it copies its bytes.
\<close>

fun serves :: "int \<Rightarrow> string \<Rightarrow> event list \<Rightarrow> nat \<Rightarrow> int option \<Rightarrow> bool" where
  "serves fd src [] off m \<longleftrightarrow> True"
| "serves fd src (e # es) off m \<longleftrightarrow> (case e of
      Sys (Read f n) r \<Rightarrow>
        if f = fd then payload r = take (length (payload r)) (drop off src) \<and> (retval r = 0 \<longrightarrow> length src \<le> off) \<and>
          serves fd src es (off + length (payload r)) m
        else serves fd src es off m
    | Sys (Call g args) r \<Rightarrow>
        if g = ''stat'' then (retval r = -1 \<or> out 0 r = int (length src)) \<and> serves fd src es off m
        else if g = ''mmap'' \<and> drop 2 args = [S ''MAP_PRIVATE'', I fd, I 0] then serves fd src es off (Some (retval r))
        else if g = ''memcpy'' \<and> map_option I m = Some (args ! 1) then
          args ! 2 = I (int (length (payload r))) \<and> payload r = take (length (payload r)) src \<and> serves fd src es off m
        else serves fd src es off m
    | Sys (Recv f n p) r \<Rightarrow> f \<noteq> fd \<and> serves fd src es off m
    | _ \<Rightarrow> serves fd src es off m)"

text \<open>On a regular file \<open>lseek\<close> sets the offset it is given and \<open>write\<close> does not return 0.\<close>

fun file_event :: "event \<Rightarrow> bool" where
  "file_event (Sys (Write f b) r) = (b \<noteq> [] \<longrightarrow> retval r \<noteq> 0)"
| "file_event (Sys (Call g args) r) = (g = ''lseek'' \<longrightarrow> args ! 1 = I (retval r))"
| "file_event _ = True"

lemma serves_received:
  "serves fd src es off m \<Longrightarrow> prefix (received fd es) (drop off src)"
proof (induction es arbitrary: off m)
  case (Cons e es)
  have dp: "x = take (length x) (drop off src) \<Longrightarrow> prefix y (drop (off + length x) src) \<Longrightarrow> prefix (x @ y) (drop off src)" for x y
    by (metis append_take_drop_id drop_drop add.commute same_prefix_prefix)
  from Cons show ?case
    by (cases "(fd, e)" rule: gave.cases)
      (auto simp: received_Cons simp del: drop_all drop_eq_Nil intro: dp split: if_splits)
qed simp

definition at_eof :: "int \<Rightarrow> event \<Rightarrow> bool" where
  "at_eof fd e \<longleftrightarrow> (\<exists>n r. e = Sys (Read fd n) r \<and> retval r = 0)"

lemma serves_eof:
  "serves fd src es off m \<Longrightarrow> list_ex (at_eof fd) es \<Longrightarrow> off \<le> length src \<Longrightarrow> received fd es = drop off src"
proof (induction es arbitrary: off m)
  case (Cons e es)
  show ?case
  proof (cases "at_eof fd e")
    case True
    with Cons.prems(1) have "length src \<le> off" by (auto simp: at_eof_def)
    then show ?thesis using serves_received[OF Cons.prems(1)] by simp
  next
    case False
    with Cons.prems(2) have ex: "list_ex (at_eof fd) es" by simp
    have dp: "x = take (length x) (drop off src) \<Longrightarrow> x @ drop (off + length x) src = drop off src" for x
      by (metis append_take_drop_id drop_drop add.commute)
    have le: "x = take (length x) (drop off src) \<Longrightarrow> off + length x \<le> length src" for x
      using Cons.prems(3) by (metis diff_diff_cancel diff_le_self dp length_append length_drop nat_add_left_cancel_le nat_le_linear add_diff_inverse_nat le_add_diff_inverse le_iff_add)
    from Cons ex show ?thesis
      by (cases "(fd, e)" rule: gave.cases) (auto simp: received_Cons dp le split: if_splits)
  qed
qed simp

definition plain :: "event \<Rightarrow> bool" where
  "plain e = (case e of Sys (Call g args) r \<Rightarrow> g \<notin> {''lseek'', ''mmap'', ''memcpy''} | Sys (Send f b) r \<Rightarrow> False | _ \<Rightarrow> True)"

lemma dest_plain:
  "list_all plain es \<Longrightarrow> p \<le> length c \<Longrightarrow>
   fold (dest_step fd) es (p, c, m) = (p + length (delivered fd es), put p (delivered fd es) c, m)"
proof (induction es arbitrary: p c)
  case Nil
  then show ?case by (simp add: put_def)
next
  case (Cons e es)
  show ?case
  proof (cases "took fd e = []")
    case True
    with Cons show ?thesis
      by (cases "(fd, e)" rule: took.cases) (auto simp: delivered_Cons plain_def Let_def split: if_splits call.splits)
  next
    case False
    with Cons.prems(1) obtain b r where e: "e = Sys (Write fd b) r"
      by (cases "(fd, e)" rule: took.cases) (auto simp: plain_def split: if_splits)
    define s where "s = took fd e"
    have st: "dest_step fd e (p, c, m) = (p + length s, put p s c, m)"
      using False Cons.prems(2) unfolding e s_def by (simp add: overlay_def Let_def)
    have "p + length s \<le> length (put p s c)" using Cons.prems(2) by (simp add: put_def)
    from Cons.IH[OF _ this] Cons.prems show ?thesis
      by (simp add: st delivered_Cons put_put s_def[symmetric])
  qed
qed

section \<open>The copies\<close>

lemma rdwr_step_emits: "emits plain (rdwr_step a b)"
  unfolding rdwr_step_def by (intro emits_intros read.f_emits r_write_emits) (simp_all add: plain_def)

lemma rdwr_step_no_exit [simp]: "rdwr_step a b w \<noteq> (Halt (Exited 0), v)"
  unfolding rdwr_step_def by (auto simp: seq_def stop_apply ret_apply whenp_apply elim!: bind_ExitE split: if_splits)

lemma rdwr_step_copied:
  assumes "rdwr_step a b w = (Val g, v)" and "kernel_ok (trace v)"
  shows "\<exists>s. copied a b s w v \<and> extends w v \<and> (\<not> g \<longrightarrow> list_ex (at_eof a) (trace v))"
proof -
  from assms(1) obtain r u where r: "r_read a RDWR_SIZE w = (Val r, u)"
    and rest: "(if retval r = 0 then ret False
       else if retval r < 0 then stop (Undef ''write of more than the buffer holds'')
       else bind (r_write b (payload r) (nat (retval r))) (\<lambda>nw.
         if nw = -1 then seq (perror ''write failed'') (exit_prog 1)
         else seq (whenp (nw \<noteq> retval r) (eprintf (''WARNING: write: not same as read bytes'' @ [LF]) []))
           (ret True))) u = (Val g, v)"
    unfolding rdwr_step_def by (rule bind_ValE)
  have ru: "extends w u" using r by (rule robbins.rd_extends)
  show ?thesis
  proof (cases "retval r = 0")
    case True
    with rest have v: "v = u" "\<not> g" by (simp_all add: ret_apply)
    with assms(2) robbins.rd_ok[OF r] have "reply_ok (Read a RDWR_SIZE) r" by simp
    with True have "payload r = []" by (auto elim: read_ok_cases)
    moreover have "list_ex (at_eof a) (trace v)"
      using read.returns[OF r] True v by (auto simp: at_eof_def)
    ultimately show ?thesis using robbins.rd_delta[OF r] v ru by (intro exI[of _ "[]"]) (simp add: copied_def)
  next
    case False
    with rest have nn: "0 \<le> retval r" by (auto simp: stop_apply split: if_splits)
    from rest False nn have "bind (r_write b (payload r) (nat (retval r))) (\<lambda>nw.
         if nw = -1 then seq (perror ''write failed'') (exit_prog 1)
         else seq (whenp (nw \<noteq> retval r) (eprintf (''WARNING: write: not same as read bytes'' @ [LF]) []))
           (ret True)) u = (Val g, v)" by simp
    then obtain k u' where w: "r_write b (payload r) (nat (retval r)) u = (Val k, u')"
      and fin: "(if k = -1 then seq (perror ''write failed'') (exit_prog 1)
         else seq (whenp (k \<noteq> retval r) (eprintf (''WARNING: write: not same as read bytes'' @ [LF]) []))
           (ret True)) u' = (Val g, v)" by (rule bind_ValE)
    define es where "es = (if k \<noteq> retval r then [Out 2 (''WARNING: write: not same as read bytes'' @ [LF]) []] else [])"
    from fin have k: "r_write b (payload r) (nat (retval r)) u = (Val k, u')" "k \<noteq> -1" "g"
      "v = u'\<lparr>trace := trace u' @ es\<rparr>" "list_all quiet es"
      using w by (auto simp: es_def prog_simps split: if_splits)
    from k(4) have uv: "extends u' v" by (simp add: extends_def)
    with assms(2) have ok: "kernel_ok (trace u')" by (rule extends_kernel_ok[rotated])
    note len = robbins.chunk_length[OF r k(1) ok nn]
    have "0 \<le> k"
      using r_write_law(3)[of b "payload r" u k u'] k(1,2) len ok by (cases "0 \<le> k") auto
    from robbins.chunk_copied[OF r k(1) ok _ nn this] have "copied a b (payload r) w u'" by simp
    then have "copied a b (payload r) w v"
      using k(4) quiet_list[OF k(5)] by (simp add: copied_def io_delta_def)
    moreover have "extends w v" using len uv by (blast intro: extends_trans)
    ultimately show ?thesis using k(3) by blast
  qed
qed

lemma rdwr_loop_copied:
  "rdwr_loop a b w = (Val (), v) \<Longrightarrow> kernel_ok (trace v) \<Longrightarrow>
   \<exists>s. copied a b s w v \<and> extends w v \<and> list_ex (at_eof a) (trace v)"
proof (induction a b w rule: rdwr_loop.induct)
  case (1 a b w)
  from "1.prems"(1) obtain g u where st: "rdwr_step a b w = (Val g, u)"
    and rest: "(if g then rdwr_loop a b u else skip u) = (Val (), v)"
    by (subst (asm) rdwr_loop.simps) (auto elim!: bind_ValE)
  show ?case
  proof (cases g)
    case True
    with rest have "rdwr_loop a b u = (Val (), v)" by simp
    from "1.IH"[OF st True this "1.prems"(2)]
    obtain s where s: "copied a b s u v" "extends u v" "list_ex (at_eof a) (trace v)" by blast
    from rdwr_step_copied[OF st extends_kernel_ok[OF s(2) "1.prems"(2)]]
    obtain s0 where "copied a b s0 w u" "extends w u" by blast
    with s show ?thesis by (blast intro: copied_trans extends_trans)
  next
    case False
    with rest have "v = u" by (simp add: skip_apply)
    with rdwr_step_copied[OF st] "1.prems"(2) False show ?thesis by auto
  qed
qed

lemma rdwr_loop_no_exit [simp]: "rdwr_loop a b w \<noteq> (Halt (Exited 0), v)"
proof (induction a b w rule: rdwr_loop.induct)
  case (1 a b w)
  then show ?case by (subst rdwr_loop.simps) (auto simp: skip_apply elim!: bind_ExitE split: if_splits)
qed

lemma rdwr_loop_emits: "emits plain (rdwr_loop a b)"
proof (rule emitsI)
  fix w
  show "\<exists>es. trace (snd (rdwr_loop a b w)) = trace w @ es \<and> list_all plain es"
  proof (induction a b w rule: rdwr_loop.induct)
    case (1 a b w)
    show ?case
      by (rule loop_emits[OF rdwr_loop.simps rdwr_step_emits]) (use 1 in \<open>auto simp: skip_apply\<close>)
  qed
qed

definition is_open :: "event \<Rightarrow> bool" where
  "is_open e \<longleftrightarrow> (\<exists>args r. e = Sys (Call ''open'' args) r)"

lemma open_events:
  "list_all is_open es \<Longrightarrow> fold (dest_step fd) es (p, c, a) = (p, c, a)"
  "list_all is_open es \<Longrightarrow> serves fd src (es @ es') off m = serves fd src es' off m"
  by (induction es) (auto simp: is_open_def)

lemma open_both_no_exit [simp]: "open_both argv w \<noteq> (Halt (Exited 0), v)"
  unfolding open_both_def by (auto simp: seq_def stop_apply ret_apply elim!: bind_ExitE split: if_splits)

lemma open_both_emits: "emits plain (open_both argv)"
  unfolding open_both_def by (intro emits_intros open2.f_emits open3.f_emits) (simp_all add: plain_def)

lemma open_both_Val:
  assumes "open_both argv w = (Val (a, b, len), v)"
  shows "\<exists>es p r. trace v = trace w @ es @ [Sys (Call ''stat'' [S p]) r] \<and> list_all is_open es \<and>
      len = out 0 r \<and> retval r \<noteq> -1 \<and> len \<noteq> 0"
    and "opened (trace v) (argv ! 1) a" and "opened (trace v) (argv ! 2) b" and "extends w v" and "io_delta nothing nothing w v"
proof -
  from assms obtain w1 w2 r where o: "r_open2 (argv ! 1) ''O_RDONLY'' w = (Val a, w1)"
      "r_open3 (argv ! 2) ''O_RDWR|O_CREAT'' ''S_IRUSR|S_IWUSR|S_IRGRP|S_IROTH'' w1 = (Val b, w2)"
      "syscall (Call ''stat'' [S (argv ! 1)]) w2 = (Val r, v)" "retval r \<noteq> -1" "len = out 0 r" "len \<noteq> 0"
    unfolding open_both_def
    by (auto simp: seq_def stop_apply ret_apply elim!: bind_ValE split: if_splits)
  note stat = syscall_Val_script[OF o(3)]
  obtain e1 where e1: "trace w1 = trace w @ e1" "list_all is_open e1"
    using open2.returns[OF o(1)] by (auto simp: is_open_def list_all_iff)
  obtain e2 where e2: "trace w2 = trace w1 @ e2" "list_all is_open e2"
    using open3.returns[OF o(2)] by (auto simp: is_open_def list_all_iff)
  let ?st = "Sys (Call ''stat'' [S (argv ! 1)]) r"
  have tr: "trace v = trace w @ (e1 @ e2) @ [?st]" using e1 e2 stat by simp
  then show "\<exists>es p r. trace v = trace w @ es @ [Sys (Call ''stat'' [S p]) r] \<and> list_all is_open es \<and>
      len = out 0 r \<and> retval r \<noteq> -1 \<and> len \<noteq> 0"
    using e1(2) e2(2) o(4-6) by (intro exI[of _ "e1 @ e2"]) auto
  show "extends w v" using tr by (auto simp: extends_def)
  have "list_all quiet ((e1 @ e2) @ [?st])"
    using e1(2) e2(2) by (auto simp: list_all_iff is_open_def)
  with tr show "io_delta nothing nothing w v" by (simp add: io_delta_def quiet_list del: append_assoc)
  have "extends w1 v" "extends w2 v" using e2 stat by (auto simp: extends_def)
  then show "opened (trace v) (argv ! 1) a" "opened (trace v) (argv ! 2) b"
    using opened_extends r_open2_opened[OF o(1)] r_open3_opened[OF o(2)] by blast+
qed

lemma rdwr_finish_emits: "emits quiet (rdwr_finish a b p)" "emits plain (rdwr_finish a b p)"
  unfolding rdwr_finish_def by (intro emits_intros; simp add: plain_def)+

lemma rdwr_main_emits: "emits plain (rdwr_main argv)"
  unfolding rdwr_main_def case_prod_beta
  by (intro emits_intros open_both_emits rdwr_loop_emits rdwr_finish_emits) (simp_all add: plain_def)

lemma rdwr_copies:
  assumes "rdwr_main argv w = (Halt (Exited 0), v)" and "trace w = []" and "kernel_ok (trace v)"
  shows "\<exists>fd_from fd_to. opened (trace v) (argv ! 1) fd_from \<and> opened (trace v) (argv ! 2) fd_to \<and>
    (serves fd_from src (trace v) 0 None \<longrightarrow> dest_file fd_to old (trace v) = src @ drop (length src) old)"
proof -
  from assms(1) obtain a b len w1 p w2 w3 w4 r3 r4 r5 where
    o: "open_both argv w = (Val (a, b, len), w1)" and st:
    "icall (Call ''malloc'' [I (int RDWR_SIZE)]) w1 = (Val p, w2)" "rdwr_loop a b w2 = (Val (), w3)"
    "rdwr_finish a b p w3 = (Halt (Exited 0), v)"
    unfolding rdwr_main_def by (auto simp: seq_def stop_apply elim!: bind_ExitE split: if_splits)
  note q = quiet_run[OF rdwr_finish_emits(1) st(3)]
  from rdwr_loop_copied[OF st(2) extends_kernel_ok[OF q(2) assms(3)]] obtain s where
    s: "copied a b s w2 w3" "extends w2 w3" "list_ex (at_eof a) (trace w3)" by blast
  note m = quiet_run[OF quiet_icall st(1)]
  have ext: "extends w1 v" using m(2) s(2) q(2) by (blast intro: extends_trans)
  have d: "delivered b (trace v) = s" "received a (trace v) = s"
    using open_both_Val(5)[OF o] m(1) s(1) q(1) assms(2) by (simp_all add: io_delta_def copied_def only_def)
  have "list_ex (at_eof a) (trace v)" using s(3) q(2) by (auto simp: extends_def)
  then have "s = src" if "serves a src (trace v) 0 None" using serves_eof[OF that] d(2) by simp
  moreover from emitsD[OF rdwr_main_emits assms(1)] assms(2) have "list_all plain (trace v)" by auto
  from dest_plain[OF this, of 0] have "dest_file b old (trace v) = put 0 s old" by (simp add: dest_file_def d)
  ultimately show ?thesis
    using opened_extends[OF open_both_Val(2)[OF o] ext] opened_extends[OF open_both_Val(3)[OF o] ext] by (auto simp: put_def)
qed

lemma overlay_end:
  assumes "src \<noteq> []"
  shows "take (length (overlay (length src - 1) [NUL] old)) (put 0 src (overlay (length src - 1) [NUL] old)) =
    src @ drop (length src) old"
proof -
  obtain k where k: "length src = Suc k" using assms by (cases src) auto
  show ?thesis by (cases "k < length old") (simp_all add: overlay_def put_def k)
qed

lemma mmap_copies:
  assumes "mmap_main argv w = (Halt (Exited 0), v)" and "trace w = []" and "kernel_ok (trace v)"
    and "list_all file_event (trace v)"
  shows "\<exists>fd_from fd_to. opened (trace v) (argv ! 1) fd_from \<and> opened (trace v) (argv ! 2) fd_to \<and>
    (serves fd_from src (trace v) 0 None \<longrightarrow> dest_file fd_to old (trace v) = src @ drop (length src) old)"
proof -
  from assms(1) obtain a b len w1 x1 w2 n w3 ms w4 md w5 x5 w6 where
    o: "open_both argv w = (Val (a, b, len), w1)" and st:
    "icall (Call ''lseek'' [I b, I (len - 1), S ''SEEK_SET'']) w1 = (Val x1, w2)"
    "icall (Write b [NUL]) w2 = (Val n, w3)" "\<not> n < 0"
    "icall (Call ''mmap'' [I len, S ''PROT_READ'', S ''MAP_PRIVATE'', I a, I 0]) w3 = (Val ms, w4)"
    "icall (Call ''mmap'' [I len, S ''PROT_READ|PROT_WRITE'', S ''MAP_SHARED'', I b, I 0]) w4 = (Val md, w5)"
    "icall (Call ''memcpy'' [I md, I ms, I len]) w5 = (Val x5, v)"
    unfolding mmap_main_def by (auto simp: seq_def stop_apply elim!: bind_ExitE split: if_splits)
  from open_both_Val(1)[OF o] assms(2) obtain es p r where
    w1: "trace w1 = es @ [Sys (Call ''stat'' [S p]) r]" "list_all is_open es" "len = out 0 r" "retval r \<noteq> -1" "len \<noteq> 0" by auto
  from icall_Val[OF st(1)] icall_Val[OF st(2)] icall_Val[OF st(4)] icall_Val[OF st(5)] icall_Val[OF st(6)] obtain r1 r2 r3 r4 r5
    where v: "trace v = es @ [Sys (Call ''stat'' [S p]) r, Sys (Call ''lseek'' [I b, I (len - 1), S ''SEEK_SET'']) r1,
      Sys (Write b [NUL]) r2, Sys (Call ''mmap'' [I len, S ''PROT_READ'', S ''MAP_PRIVATE'', I a, I 0]) r3,
      Sys (Call ''mmap'' [I len, S ''PROT_READ|PROT_WRITE'', S ''MAP_SHARED'', I b, I 0]) r4,
      Sys (Call ''memcpy'' [I md, I ms, I len]) r5]" "n = retval r2" "ms = retval r3" "md = retval r4"
    using w1(1) by auto
  from assms(3,4) v st(3) have r: "r2 = Ret 1" "retval r1 = len - 1"
    by (auto simp: kernel_ok_def elim!: write_ok_cases)
  have "dest_file b old (trace v) = src @ drop (length src) old" if "serves a src (trace v) 0 None"
  proof -
    from that v w1 have src: "len = int (length src)" "payload r5 = src" "src \<noteq> []" by (auto simp: open_events)
    have "nat (retval r1) = length src - 1" using r(2) src by simp
    then show ?thesis
      using v r(1) r(2) src overlay_end[OF src(3), of old] w1(2)
      by (simp add: open_events dest_file_def Let_def)
  qed
  moreover have "extends w1 v" using w1 v(1) by (simp add: extends_def)
  ultimately show ?thesis
    using opened_extends[OF open_both_Val(2)[OF o]] opened_extends[OF open_both_Val(3)[OF o]] by blast
qed

text \<open>
  C28: when a copy program ends with status 0, the destination begins with the content of the source and keeps
  what it had behind it: the old tail stays when the old file was longer, since it is not truncated.
  What it relies on is that the source does not change, and that \<open>lseek\<close> and \<open>write\<close>
  behave as on a regular file.
\<close>

theorem file_copies:
  assumes "main = rdwr_main \<or> main = mmap_main" and "main argv w = (Halt (Exited 0), v)" and "trace w = []"
    and "kernel_ok (trace v)" and "list_all file_event (trace v)"
  shows "\<exists>fd_from fd_to. opened (trace v) (argv ! 1) fd_from \<and> opened (trace v) (argv ! 2) fd_to \<and>
    (serves fd_from src (trace v) 0 None \<longrightarrow> dest_file fd_to old (trace v) = src @ drop (length src) old)"
  using assms rdwr_copies mmap_copies by blast

theorem file_copies_witness:
  "let w = boot [Ret 3, Ret 4, Outs 0 [3], Ret 100, Data ''abc'', Ret 2, Ret 1, Data [], Ret 0, Ret 0];
       es = trace (snd (rdwr_main [''rdwr'', ''f'', ''g''] w))
   in serves 3 ''abc'' es 0 None \<and> dest_file 4 ''12345'' es = ''abc45''"
proof -
  let ?w = "boot [Ret 3, Ret 4, Outs 0 [3], Ret 100, Data ''abc'', Ret 2, Ret 1, Data [], Ret 0, Ret 0]"
  let ?r = "rdwr_main [''rdwr'', ''f'', ''g''] ?w"
  have tr: "fst ?r = Halt (Exited 0)" "trace (snd ?r) = [Sys (Call ''open'' [S ''f'', S ''O_RDONLY'']) (Ret 3),
      Sys (Call ''open'' [S ''g'', S ''O_RDWR|O_CREAT'', S ''S_IRUSR|S_IWUSR|S_IRGRP|S_IROTH'']) (Ret 4),
      Sys (Call ''stat'' [S ''f'']) (Outs 0 [3]), Sys (Call ''malloc'' [I (int RDWR_SIZE)]) (Ret 100),
      Sys (Read 3 RDWR_SIZE) (Data ''abc''), Sys (Write 4 ''abc'') (Ret 2), Sys (Write 4 ''c'') (Ret 1),
      Sys (Read 3 RDWR_SIZE) (Data []), Sys (Close 3) (Ret 0), Sys (Close 4) (Ret 0), Did ''free'' [I 100]]"
    by (simp_all add: rdwr_main_def open_both_def rdwr_loop.simps rdwr_step_def rdwr_finish_def r_read_def r_write_def
        r_open2_def r_open3_def restart_loop.simps r_write_loop.simps run_defs stop_def u64_def s64_def c_limits out_def)
  have "\<exists>fd_from fd_to. opened (trace (snd ?r)) ''f'' fd_from \<and> opened (trace (snd ?r)) ''g'' fd_to \<and>
    (serves fd_from ''abc'' (trace (snd ?r)) 0 None \<longrightarrow> dest_file fd_to ''12345'' (trace (snd ?r)) = ''abc'' @ drop 3 ''12345'')"
    using file_copies[of rdwr_main "[''rdwr'', ''f'', ''g'']" ?w "snd ?r" "''abc''" "''12345''"] run_eq[OF tr(1)] tr(2) by (simp add: kernel_ok_def)
  then show ?thesis using tr(2) by (auto simp: opened_def Let_def out_def)
qed

end
