(* ===== verification/PosixIpc.thy ===== *)
theory PosixIpc
  imports Threads
begin

text \<open>
  Two demos of POSIX semaphores under \<^verbatim>\<open>src/ipc/posix_ipc/more_demos\<close>. In
  \<^verbatim>\<open>appdemo_sem_as_counting\<close> the clients of a server take a counting semaphore before they
  send a request, and the server increments it when it has served one. In
  \<^verbatim>\<open>appdemo_shm_sem_as_mtx\<close> a parent and its child write to a shared memory region one after
  the other.
\<close>

abbreviation (input) SEM_FAILED :: int where "SEM_FAILED \<equiv> 0"

section \<open>The counting semaphore\<close>

abbreviation (input) MQ_NAME :: string where "MQ_NAME \<equiv> ''/mq_client_request''"
abbreviation (input) CNT_SEM :: string where "CNT_SEM \<equiv> ''/appdemo_sem_counting''"

definition handle_error :: "string \<Rightarrow> 'a prog" where
  "handle_error msg = seq (perror msg) (exit_prog EXIT_FAILURE)"

definition client_sem_setup :: "int prog" where
  "client_sem_setup =
     bind (icall (Call ''sem_open'' [S CNT_SEM, I 0])) (\<lambda>sem.
       if sem = SEM_FAILED then seq (perror ''sem_open() failed'') (exit_prog 1) else ret sem)"

definition client_send_request :: "string \<Rightarrow> int \<Rightarrow> unit prog" where
  "client_send_request msg prio =
     bind (icall (Call ''mq_open'' [S MQ_NAME, S ''O_WRONLY''])) (\<lambda>client_request_mq.
       if client_request_mq = -1 then handle_error ''mq_open failed''
       else bind (icall (Call ''mq_send'' [I client_request_mq, S msg, I prio])) (\<lambda>r.
         if r = -1 then
           bind (icall (Call ''mq_close'' [I client_request_mq])) (\<lambda>_. handle_error ''client: mq_send() failed'')
         else seq (printf (''client: msg sent to MQ'' @ [LF]) [])
           (bind (icall (Call ''mq_close'' [I client_request_mq])) (\<lambda>_. skip))))"

definition cnt_client_main :: "string list \<Rightarrow> unit prog" where
  "cnt_client_main argv =
     (if length argv \<noteq> 2 then
        seq (eprintf (''Usage: %s message-to-send-to-client-request-MQ(ASCII text)'' @ [LF]) [S (argv ! 0)]) (exit_prog 1)
      else bind client_sem_setup (\<lambda>sem.
        seq (printf ([LF] @ ''client: waiting on the semaphore ...'' @ [LF]) [])
       (bind (icall (Call ''sem_wait'' [I sem])) (\<lambda>r.
        seq (whenp (r = -1) (perror ''sem_wait() failed''))
       (seq (printf (''client: got the sem! sending msg to MQ'' @ [LF]) [])
       (seq (client_send_request (argv ! 1) 100)
       (bind (icall (Call ''sem_close'' [I sem])) (\<lambda>_. exit_prog 0))))))))"

text \<open>
  The server. When the semaphore cannot be created for a reason other than that it exists, the
  failure goes unnoticed.
\<close>

definition server_sem_setup :: "int \<Rightarrow> int prog" where
  "server_sem_setup max_sem_count =
     seq (printf ([LF] @ ''server: initializing sem value to %d; this, in effect, is the max 'queue length' or 'count' allowed by this (counting) semaphore ...'' @ [LF])
           [I max_sem_count])
    (bind (icall (Call ''sem_open'' [S CNT_SEM, S ''O_CREAT|O_EXCL'', I 384, I max_sem_count])) (\<lambda>sem.
     bind get_errno (\<lambda>errno.
     bind (if sem = SEM_FAILED \<and> errno = EEXIST then
             bind (icall (Call ''sem_open'' [S CNT_SEM, I 0])) (\<lambda>sem.
               if sem = SEM_FAILED then seq (eprintf (''sem_open() failed'' @ [LF]) []) (exit_prog 1) else ret sem)
           else ret sem) (\<lambda>sem.
     seq (printf (''(Counting) Semaphore open..'' @ [LF]) []) (ret sem)))))"

text \<open>
  The message is printed as a string: a message that fills the buffer and holds no NUL is read past
  its end. The reply of \<open>mq_receive\<close> is the message; its priority is a reply of its own.
\<close>

definition receive_client_msg :: "unit prog" where
  "receive_client_msg =
     bind (icall (Call ''mq_open'' [S MQ_NAME, S ''O_RDWR|O_CREAT|O_EXCL'', I 420, S ''NULL''])) (\<lambda>mq.
     bind get_errno (\<lambda>errno.
     bind (if mq = -1 \<and> errno = EEXIST then
             bind (icall (Call ''mq_open'' [S MQ_NAME, S ''O_RDWR''])) (\<lambda>mq.
               if mq = -1 then handle_error ''mq_open failed'' else ret mq)
           else ret mq) (\<lambda>mq.
     bind (syscall (Call ''mq_getattr'' [I mq])) (\<lambda>attr.
       if retval attr = -1 then handle_error ''mq_getattr failed''
       else bind (icall (Call ''calloc'' [I (out 0 attr), I 1])) (\<lambda>buf.
         if buf = 0 then bind (icall (Call ''mq_close'' [I mq])) (\<lambda>_. handle_error ''calloc failed'')
         else seq (printf (''server: awaiting msg from client...'' @ [LF]) [])
           (bind (syscall (Call ''mq_receive'' [I mq, I (out 0 attr)])) (\<lambda>nr.
             if retval nr = -1 then bind (icall (Call ''mq_close'' [I mq])) (\<lambda>_. handle_error ''mq_receive failed'')
             else if out 0 attr \<le> int (length (payload nr)) \<and> NUL \<notin> set (payload nr) then stop (Undef ''read past the end of buf'')
             else bind (icall (Call ''priority of the message'' [])) (\<lambda>prio.
               seq (printf (''server: Received:'' @ [LF] @ '' '' @ [CHR 0x22] @ ''%s'' @ [CHR 0x22] @ '' [%ld bytes, prio %u]'' @ [LF])
                     [S (cstr (payload nr)), I (retval nr), I prio])
               (seq (emit (Did ''free'' [I buf])) (bind (icall (Call ''mq_close'' [I mq])) (\<lambda>_. skip)))))))))))"

definition cnt_turn :: "int \<Rightarrow> int \<Rightarrow> int prog" where
  "cnt_turn sem i =
     seq receive_client_msg
       (if sem = SEM_FAILED then stop (Undef ''null pointer dereference'')
        else bind (syscall (Call ''sem_getvalue'' [I sem])) (\<lambda>semval.
          if retval semval = -1 then seq (perror ''sem_getvalue() failed'') (stop (Undef ''uninitialised semval''))
          else seq (printf (''server %d: sem val = %d'' @ [LF]) [I i, I (out 0 semval)])
         (if i = INT_MAX then stop (Undef ''signed overflow'')
          else seq (printf '' server: performing 'work' for 3s... '' [])
         (seq (emit (Flush 1))
         (bind (icall (Call ''sleep'' [I 3])) (\<lambda>_.
          seq (printf ('' done! (will now 'unlock' by incrementing the sem...)'' @ [LF, LF]) [])
         (bind (icall (Call ''sem_post'' [I sem])) (\<lambda>r.
          seq (whenp (r = -1) (perror ''sem_post() failed'')) (ret (i + 1))))))))))"

lemma consumes_receive_client_msg: "consumes receive_client_msg"
  unfolding receive_client_msg_def handle_error_def by (intro consumes_bind1 consumes_icall shrink_intros)

lemma consumes_cnt_turn: "consumes (cnt_turn sem i)"
  unfolding cnt_turn_def seq_def[of receive_client_msg]
  by (intro consumes_bind1 consumes_receive_client_msg shrink_intros)

function cnt_loop :: "int \<Rightarrow> int \<Rightarrow> unit prog" where
  "cnt_loop sem i w = bind (cnt_turn sem i) (cnt_loop sem) w"
  by pat_completeness auto
termination
  by (relation "measure (\<lambda>(sem, i, w). length (script w))") (auto dest: consumesD[OF consumes_cnt_turn])

declare cnt_loop.simps [simp del]

definition cnt_server_main :: "string list \<Rightarrow> unit prog" where
  "cnt_server_main argv =
     (if length argv \<noteq> 2 then seq (eprintf (''Usage: %s max-sem-count'' @ [LF]) [S (argv ! 0)]) (exit_prog 1)
      else bind (icall (Call ''mq_unlink'' [S MQ_NAME])) (\<lambda>_.
        bind (icall (Call ''sem_unlink'' [S CNT_SEM])) (\<lambda>_.
        bind (server_sem_setup (atoi (argv ! 1))) (\<lambda>sem. cnt_loop sem 1))))"

interpretation cnt: service "cnt_turn sem" "cnt_loop sem" for sem
  by unfold_locales (rule cnt_loop.simps, rule consumes_cnt_turn)

section \<open>The number of requests\<close>

text \<open>What an event does to the semaphore and to the message queue.\<close>

datatype cnt_act = Creates int | Waits | Fails | Posts | Sends | Receives | Other

definition cnt_act :: "event \<Rightarrow> cnt_act" where
  "cnt_act e = (case e of
      Sys (Call f args) r \<Rightarrow>
        if f = ''sem_open'' then
          (case args of [_, _, _, I n] \<Rightarrow> if retval r = SEM_FAILED then Other else Creates n | _ \<Rightarrow> Other)
        else if f = ''sem_wait'' then (if retval r = -1 then Fails else Waits)
        else if f = ''sem_post'' then (if retval r = -1 then Other else Posts)
        else if f = ''mq_send'' then (if retval r = -1 then Other else Sends)
        else if f = ''mq_receive'' then (if retval r = -1 then Other else Receives)
        else Other
    | _ \<Rightarrow> Other)"

text \<open>
  What a client may do: it sends only as often as it has got the semaphore. What the server may do: it
  increments the semaphore only as often as it has received a request, and creates it with the
  value \<open>N\<close>. A monitor breaks where \<open>sem_wait\<close> has failed.
\<close>

fun client_mon :: "nat monitor" where
  "client_mon e k = (case cnt_act e of Waits \<Rightarrow> At (Suc k) | Sends \<Rightarrow> if k = 0 then Wrong else At (k - 1)
     | Fails \<Rightarrow> Broken | Other \<Rightarrow> At k | _ \<Rightarrow> Wrong)"

fun server_mon :: "int \<Rightarrow> nat monitor" where
  "server_mon N e k = (case cnt_act e of Receives \<Rightarrow> At (Suc k) | Posts \<Rightarrow> if k = 0 then Wrong else At (k - 1)
     | Creates n \<Rightarrow> if n = N then At k else Wrong | Other \<Rightarrow> At k | _ \<Rightarrow> Wrong)"

declare client_mon.simps [simp del] server_mon.simps [simp del]

lemmas cnt_mons = client_mon.simps server_mon.simps cnt_act_def

lemma handle_error_appends: "appends (handle_error m)"
  unfolding handle_error_def by (intro emits_intros TrueI)

lemma client_send_appends: "appends (client_send_request msg p)"
  unfolding client_send_request_def by (intro emits_intros handle_error_appends TrueI)


lemma client_send_tracks: "tracks client_mon (client_send_request msg p) (\<lambda>_ _. True) (Suc 0)"
  unfolding client_send_request_def handle_error_def
  by (rule tracks_wp TrueI impI conjI | (intro emits_intros TrueI; fail) | simp add: cnt_mons)+

lemma cnt_client_tracks: "tracks client_mon (cnt_client_main argv) (\<lambda>_ _. True) 0"
  unfolding cnt_client_main_def client_sem_setup_def
  by (rule tracks_wp TrueI impI conjI tracks_mono[OF client_send_tracks]
     | (intro emits_intros client_send_appends TrueI; fail) | simp add: cnt_mons)+


lemma receive_appends: "appends receive_client_msg"
  unfolding receive_client_msg_def by (intro emits_intros handle_error_appends TrueI)

lemma cnt_turn_appends: "appends (cnt_turn sem i)"
  unfolding cnt_turn_def by (intro emits_intros receive_appends TrueI)

lemma receive_tracks: "tracks (server_mon N) receive_client_msg (\<lambda>_ t. t = Suc k) k"
  unfolding receive_client_msg_def handle_error_def
  by (rule tracks_wp TrueI impI conjI refl | (intro emits_intros TrueI; fail) | simp add: cnt_mons)+

lemma cnt_turn_tracks: "tracks (server_mon N) (cnt_turn sem i) (\<lambda>_ _. True) k"
  unfolding cnt_turn_def
  by (rule tracks_seq[OF tracks_mono[OF receive_tracks]] tracks_wp TrueI impI conjI
     | (intro emits_intros TrueI; fail) | simp add: cnt_mons)+

lemma cnt_server_tracks: "tracks (server_mon (atoi (argv ! 1))) (cnt_server_main argv) (\<lambda>_ _. True) 0"
  unfolding cnt_server_main_def server_sem_setup_def
  by (rule tracks_wp TrueI impI conjI tracks_mono[OF cnt.tracks_loop[where J = "\<lambda>_ _. True"]] cnt_turn_tracks cnt_turn_appends
     | (intro emits_intros cnt.appends_loop cnt_turn_appends TrueI; fail) | simp add: cnt_mons)+

text \<open>How often something has happened.\<close>

abbreviation count_of :: "cnt_act \<Rightarrow> event list \<Rightarrow> nat" where
  "count_of a es \<equiv> length (filter (\<lambda>e. cnt_act e = a) es)"

lemma client_mon_counts:
  "mrun client_mon es k \<noteq> Wrong \<Longrightarrow> Fails \<notin> cnt_act ` set es \<Longrightarrow>
   count_of Sends es \<le> k + count_of Waits es \<and> count_of Posts es = 0 \<and> count_of Receives es = 0 \<and> (\<forall>n. Creates n \<notin> cnt_act ` set es)"
proof (induction es arbitrary: k)
  case (Cons e es)
  from Cons.prems Cons.IH[of k] Cons.IH[of "Suc k"] Cons.IH[of "k - 1"] show ?case
    by (cases "cnt_act e"; cases k) (auto simp: client_mon.simps[of e] split: if_splits)
qed simp

lemma server_mon_counts:
  "mrun (server_mon N) es k \<noteq> Wrong \<Longrightarrow>
   count_of Posts es \<le> k + count_of Receives es \<and> count_of Sends es = 0 \<and> (\<forall>n. Creates n \<in> cnt_act ` set es \<longrightarrow> n = N)"
proof (induction es arbitrary: k)
  case (Cons e es)
  from Cons.prems Cons.IH[of k] Cons.IH[of "Suc k"] Cons.IH[of "k - 1"] show ?case
    by (cases "cnt_act e"; cases k) (auto simp: server_mon.simps[of N e] split: if_splits)
qed simp

text \<open>
  The semaphore: it does not exist before it is created, \<open>sem_wait\<close> returns when its value is positive and
  decrements it, \<open>sem_post\<close> increments it; no \<open>sem_wait\<close> fails.
\<close>

fun cnt_ok :: "cnt_act list \<Rightarrow> int option \<Rightarrow> bool" where
  "cnt_ok [] v \<longleftrightarrow> True"
| "cnt_ok (a # as) v \<longleftrightarrow> (case a of
      Creates n \<Rightarrow> v = None \<and> 0 \<le> n \<and> cnt_ok as (Some n)
    | Waits \<Rightarrow> (case v of None \<Rightarrow> False | Some k \<Rightarrow> 0 < k \<and> cnt_ok as (Some (k - 1)))
    | Posts \<Rightarrow> (case v of None \<Rightarrow> False | Some k \<Rightarrow> cnt_ok as (Some (k + 1)))
    | Fails \<Rightarrow> False
    | _ \<Rightarrow> cnt_ok as v)"

lemma cnt_ok_no_failure: "cnt_ok as v \<Longrightarrow> Fails \<notin> set as"
proof (induction as arbitrary: v)
  case (Cons a as)
  then show ?case by (cases a) (auto split: option.splits)
qed simp

lemma count_of_acts: "count_of a es = count_list (map cnt_act es) a"
  by (induction es) auto

lemma cnt_ok_counts:
  "cnt_ok as v \<Longrightarrow> (\<And>n. Creates n \<in> set as \<Longrightarrow> n \<le> int N) \<Longrightarrow> (\<And>k. v = Some k \<Longrightarrow> 0 \<le> k) \<Longrightarrow>
   int (count_list as Waits) \<le> (case v of None \<Rightarrow> int N | Some k \<Rightarrow> k) + int (count_list as Posts)"
proof (induction as arbitrary: v)
  case Nil
  then show ?case by (auto split: option.splits)
next
  case (Cons a as)
  have cr: "\<And>n. Creates n \<in> set as \<Longrightarrow> n \<le> int N" using Cons.prems(2) by simp
  show ?case
  proof (cases a)
    case (Creates n)
    then have "n \<le> int N" using Cons.prems(2)[of n] by simp
    with Creates Cons.prems(1) Cons.IH[of "Some n"] cr show ?thesis by force
  next
    case Waits
    with Cons.prems(1) obtain k where "v = Some k" "0 < k" "cnt_ok as (Some (k - 1))" by (auto split: option.splits)
    with Waits Cons.IH[of "Some (k - 1)"] cr show ?thesis by force
  next
    case Posts
    with Cons.prems(1) obtain k where "v = Some k" "cnt_ok as (Some (k + 1))" by (auto split: option.splits)
    with Posts Cons.IH[of "Some (k + 1)"] Cons.prems(3) cr show ?thesis by force
  qed (use Cons.prems Cons.IH[of v] cr in auto)
qed

text \<open>
  C29: at any moment, whatever the interleaving of the server and its clients, the requests that have been sent and not been
  served are at most as many as the value the semaphore was created with; and the server only
  counts a request as served when it has received one.
\<close>

theorem requests_bounded:
  assumes runs: "runs_of (\<lambda>t. if t = 0 then cnt_server_main [prg, a] else cnt_client_main (args t)) gs"
    and sem: "cnt_ok (map cnt_act (map snd gs)) None"
  shows "count_of Sends (map snd gs) \<le> nat (atoi a) + count_of Posts (map snd gs) \<and>
    count_of Posts (map snd gs) \<le> count_of Receives (map snd gs)"
proof -
  have nf: "Fails \<notin> cnt_act ` set (events_of t gs)" for t
    using cnt_ok_no_failure[OF sem] by (force simp: events_of_def)
  have srv: "mrun (server_mon (atoi a)) (events_of 0 gs) 0 \<noteq> Wrong"
    using runs_not_wrong[OF runs, of "server_mon (atoi a)" 0] cnt_server_tracks[of "[prg, a]"] by simp
  have cli: "mrun client_mon (events_of t gs) 0 \<noteq> Wrong" if "t \<noteq> 0" for t
    by (rule runs_not_wrong[OF runs, where Q = "\<lambda>_ _. True"]) (simp add: that cnt_client_tracks)
  note S = server_mon_counts[OF srv] and C = client_mon_counts[OF cli nf]
  have "count_of Sends (map snd gs) \<le> count_of Waits (map snd gs)"
    by (rule filter_threads_le) (metis S C le0 add_0)
  moreover have "n \<le> int (nat (atoi a))" if "Creates n \<in> set (map cnt_act (map snd gs))" for n
  proof -
    from that obtain t where "Creates n \<in> cnt_act ` set (events_of t gs)" by (force simp: events_of_def)
    then show ?thesis using S C[of t] by (cases "t = 0") auto
  qed
  from cnt_ok_counts[OF sem this] have "int (count_list (map cnt_act (map snd gs)) Waits) \<le>
      int (nat (atoi a)) + int (count_list (map cnt_act (map snd gs)) Posts)" by simp
  then have "count_of Waits (map snd gs) \<le> nat (atoi a) + count_of Posts (map snd gs)"
    unfolding count_of_acts by linarith
  moreover have "count_of Posts (map snd gs) \<le> count_of Receives (map snd gs)"
    by (rule filter_threads_le) (metis S C le0 add_0)
  ultimately show ?thesis by simp
qed

theorem requests_bounded_witness:
  "let es0 = trace (snd (cnt_server_main [''srv'', ''1''] (boot [Ret 0, Ret 0, Ret 9])));
       es1 = trace (snd (cnt_client_main [''cli'', ''hi''] (boot [Ret 8, Ret 0, Ret 5, Ret 0, Ret 0])));
       gs = map (Pair 0) es0 @ map (Pair (1::nat)) es1
   in count_of Sends (map snd gs) = 1 \<and> count_of Sends (map snd gs) \<le> nat (atoi ''1'') + count_of Posts (map snd gs)"
proof -
  let ?s = "cnt_server_main [''srv'', ''1'']" and ?c = "cnt_client_main [''cli'', ''hi'']"
  let ?w0 = "boot [Ret 0, Ret 0, Ret 9]" and ?w1 = "boot [Ret 8, Ret 0, Ret 5, Ret 0, Ret 0]"
  define es0 where "es0 = trace (snd (?s ?w0))"
  define es1 where "es1 = trace (snd (?c ?w1))"
  let ?gs = "map (Pair 0) es0 @ map (Pair (1::nat)) es1"
  have "atoi ''1'' = 1" by code_simp
  have acts: "map cnt_act es0 = [Other, Other, Other, Creates 1, Other, Other]"
    "map cnt_act es1 = [Other, Other, Waits, Other, Other, Sends, Other, Other, Other]"
    unfolding es0_def es1_def
    by (simp_all add: cnt_server_main_def cnt_client_main_def server_sem_setup_def client_sem_setup_def client_send_request_def
        cnt_loop.simps cnt_turn_def receive_client_msg_def run_defs get_errno_def stop_def cnt_act_def \<open>atoi ''1'' = 1\<close>)
  have "runs_of (\<lambda>t. if t = 0 then ?s else cnt_client_main (if t = 1 then [''cli'', ''hi''] else [])) ?gs"
    unfolding runs_of_def
  proof
    fix t :: nat
    show "\<exists>w. trace w = [] \<and> prefix (events_of t ?gs)
        (trace (snd ((if t = 0 then ?s else cnt_client_main (if t = 1 then [''cli'', ''hi''] else [])) w)))"
      by (rule exI[of _ "if t = 0 then ?w0 else ?w1"]) (simp add: es0_def es1_def events_of_pair)
  qed
  moreover have ga: "map cnt_act (map snd ?gs) = map cnt_act es0 @ map cnt_act es1" by simp
  moreover have "cnt_ok (map cnt_act (map snd ?gs)) None" unfolding ga acts by simp
  ultimately have "count_of Sends (map snd ?gs) \<le> nat (atoi ''1'') + count_of Posts (map snd ?gs)"
    using requests_bounded[of "''srv''" "''1''" "\<lambda>t. if t = 1 then [''cli'', ''hi''] else []" ?gs] by blast
  moreover have "count_of Sends (map snd ?gs) = 1" unfolding count_of_acts ga acts by simp
  ultimately show ?thesis unfolding es0_def es1_def Let_def \<open>atoi ''1'' = 1\<close> by simp
qed

lemma cnt_ok_filter: "cnt_ok (filter (\<lambda>a. a \<noteq> Other) as) v = cnt_ok as v"
proof (induction as arbitrary: v)
  case (Cons a as)
  then show ?case by (cases a) (auto split: option.splits)
qed simp

end
