(* ===== verification/ShmMutex.thy ===== *)
theory ShmMutex
  imports PosixIpc
begin

text \<open>
  A parent and its child that write to the same shared memory,
  \<^verbatim>\<open>src/ipc/posix_ipc/more_demos/appdemo_shm_sem_as_mtx/appdemo_shm_sem_as_mtx.c\<close>. A semaphore
  that is 0 at first makes the child wait until the parent has written. A \<open>memset\<close> is an
  event that names the address, the character and the length.
\<close>

section \<open>The program\<close>

abbreviation (input) SHM_NAME :: string where "SHM_NAME \<equiv> ''/myshm_mtx_demo''"
abbreviation (input) MTX_SEM :: string where "MTX_SEM \<equiv> ''/appdemo_mtx''"
abbreviation (input) MEMSIZE :: int where "MEMSIZE \<equiv> 20971520"
abbreviation (input) LEN :: nat where "LEN \<equiv> 2560"
abbreviation (input) CHUNK :: nat where "CHUNK \<equiv> 4096"

definition mtx_sem_setup :: "int prog" where
  "mtx_sem_setup =
     bind (icall (Call ''sem_unlink'' [S MTX_SEM])) (\<lambda>_.
     bind (icall (Call ''sem_open'' [S MTX_SEM, S ''O_CREAT|O_EXCL'', I 384, I 0])) (\<lambda>sem.
       if sem = SEM_FAILED then seq (perror ''sem_open() failed'') (exit_prog 1)
       else seq (printf (''(Mutex/binary) Semaphore setup and init to value 0'' @ [LF]) []) (ret sem)))"

definition memset :: "int \<Rightarrow> char \<Rightarrow> nat \<Rightarrow> unit prog" where
  "memset addr c n = emit (Did ''memset'' [I addr, Ch c, I (int n)])"

definition update_chunk :: "int \<Rightarrow> char \<Rightarrow> nat \<Rightarrow> nat \<Rightarrow> unit prog" where
  "update_chunk p_udata letter offset i =
     bind (icall (Call ''getpid'' [])) (\<lambda>pid.
     seq (printf (''%d: writing char %c for chunk %zu at offset %zu now'' @ [LF])
           [I pid, Ch letter, I (int i), I (int (offset + i * CHUNK))])
    (seq (memset (p_udata + int (offset + i * CHUNK)) letter CHUNK)
    (bind (icall (Call ''usleep'' [I 1000])) (\<lambda>_. skip))))"

definition update_udata :: "int \<Rightarrow> char \<Rightarrow> nat \<Rightarrow> nat \<Rightarrow> unit prog" where
  "update_udata p_udata letter offset len =
     (let num_iters = len div CHUNK; remainder = len mod CHUNK in
      seq (for_each [0..<num_iters] (update_chunk p_udata letter offset))
        (whenp (remainder \<noteq> 0) (memset (p_udata + int (offset + num_iters * CHUNK)) letter remainder)))"

definition child_lock :: "bool \<Rightarrow> int \<Rightarrow> unit prog" where
  "child_lock use_mtx sem =
     (if use_mtx then
        seq (printf (''Child is waiting to acquire the mutex (sem) now...'' @ [LF]) [])
          (bind (icall (Call ''sem_wait'' [I sem])) (\<lambda>r. whenp (r = -1) (perror ''sem_wait() failed'')))
      else printf (''Child is NOT using the mutex (sem) now...'' @ [LF]) [])"

definition parent_unlock :: "bool \<Rightarrow> int \<Rightarrow> unit prog" where
  "parent_unlock use_mtx sem =
     (if use_mtx then
        bind (icall (Call ''sem_post'' [I sem])) (\<lambda>r. whenp (r = -1) (perror ''sem_post() failed''))
      else skip)"

definition shm_detach :: "bool \<Rightarrow> int \<Rightarrow> int \<Rightarrow> int \<Rightarrow> unit prog" where
  "shm_detach use_mtx sem p_udata shmfd =
     bind (icall (Call ''munmap'' [I p_udata, I MEMSIZE])) (\<lambda>_.
     bind (icall (Close shmfd)) (\<lambda>_.
       if use_mtx then bind (icall (Call ''sem_close'' [I sem])) (\<lambda>_. skip) else skip))"

definition shm_child :: "bool \<Rightarrow> int \<Rightarrow> int \<Rightarrow> int \<Rightarrow> unit prog" where
  "shm_child use_mtx sem p_udata shmfd =
     seq (child_lock use_mtx sem)
    (seq (update_udata p_udata (CHR ''c'') LEN (LEN * 10))
    (seq (shm_detach use_mtx sem p_udata shmfd) (exit_prog 0)))"

definition shm_parent :: "bool \<Rightarrow> int \<Rightarrow> int \<Rightarrow> int \<Rightarrow> unit prog" where
  "shm_parent use_mtx sem p_udata shmfd =
     seq (update_udata p_udata (CHR ''p'') 0 (LEN * 10))
    (seq (parent_unlock use_mtx sem)
    (bind (icall (Call ''wait'' [I 0])) (\<lambda>_.
     seq (shm_detach use_mtx sem p_udata shmfd)
    (bind (icall (Call ''sem_unlink'' [S MTX_SEM])) (\<lambda>_. skip)))))"

text \<open>The region is created afresh; an error other than \<open>EEXIST\<close> shows in \<open>ftruncate\<close>.\<close>

definition shm_region :: "(int \<times> int) prog" where
  "shm_region =
     bind (icall (Call ''shm_unlink'' [S SHM_NAME])) (\<lambda>_.
     bind (icall (Call ''shm_open'' [S SHM_NAME, S ''O_CREAT|O_EXCL|O_RDWR'', I 416])) (\<lambda>shmfd.
     bind get_errno (\<lambda>errno.
     bind (if shmfd = -1 \<and> errno = EEXIST then
             bind (icall (Call ''shm_open'' [S SHM_NAME, I 0, I 416])) (\<lambda>shmfd.
               if shmfd = -1 then seq (eprintf (''shm_open() failed'' @ [LF]) []) (exit_prog 1) else ret shmfd)
           else ret shmfd) (\<lambda>shmfd.
     bind (icall (Call ''ftruncate'' [I shmfd, I MEMSIZE])) (\<lambda>r.
       if r = -1 then
         seq (perror ''ftruncate failed'') (bind (icall (Call ''shm_unlink'' [S SHM_NAME])) (\<lambda>_. exit_prog 1))
       else bind (icall (Call ''mmap'' [I MEMSIZE, S ''PROT_READ|PROT_WRITE'', S ''MAP_SHARED'', I shmfd, I 0])) (\<lambda>p_udata.
         if p_udata = -1 then stop (Killed 6) else ret (p_udata, shmfd)))))))"

definition shm_main :: "string list \<Rightarrow> int prog" where
  "shm_main argv =
     (if length argv \<noteq> 2 then
        seq (eprintf (''Usage: %s 1|0'' @ [LF] @
               '' 1 => use the semaphore (as a mutex lock); correct, expected behavior'' @ [LF] @
               '' 0 => DON'T use the semaphore (as a mutex lock); incorrect, buggy, data races ensue!'' @ [LF])
               [S (argv ! 0)])
          (exit_prog 1)
      else let use_mtx = (atoi (argv ! 1) = 1) in
        bind shm_region (\<lambda>(p_udata, shmfd).
        bind mtx_sem_setup (\<lambda>sem.
        bind (icall (Call ''fork'' [])) (\<lambda>child_pid.
          if child_pid = -1 then seq (perror ''fork failed'') (exit_prog 1)
          else if child_pid = 0 then seq (shm_child use_mtx sem p_udata shmfd) (ret 0)
          else seq (shm_parent use_mtx sem p_udata shmfd) (ret 0)))))"

section \<open>The shared memory\<close>

text \<open>The region as a function of the offset, and what an event does to it when it is mapped at \<open>p\<close>.\<close>

fun mem_step :: "int \<Rightarrow> event \<Rightarrow> (nat \<Rightarrow> char) \<Rightarrow> nat \<Rightarrow> char" where
  "mem_step p (Did f [I a, Ch c, I n]) m =
     (if f = ''memset'' then (\<lambda>i. if a \<le> p + int i \<and> p + int i < a + n then c else m i) else m)"
| "mem_step p _ m = m"

definition region :: "int \<Rightarrow> event list \<Rightarrow> (nat \<Rightarrow> char) \<Rightarrow> nat \<Rightarrow> char" where
  "region p es m = fold (mem_step p) es m"

lemma region_simps [simp]: "region p [] m = m" "region p (e # es) m = region p es (mem_step p e m)"
  "region p (es @ fs) m = region p fs (region p es m)"
  by (simp_all add: region_def)

definition is_memset :: "event \<Rightarrow> bool" where
  "is_memset e \<longleftrightarrow> (\<exists>args. e = Did ''memset'' args)"

lemma region_filter: "region p (filter is_memset es) m = region p es m"
proof (induction es arbitrary: m)
  case (Cons e es)
  have "mem_step p e m = m" if "\<not> is_memset e" for m
    using that by (cases "(p, e, m)" rule: mem_step.cases) (auto simp: is_memset_def)
  with Cons show ?case by simp
qed simp

text \<open>\<open>update_udata\<close> writes its letter to \<open>len\<close> bytes from its offset on, and to no others.\<close>

definition written :: "char \<Rightarrow> nat \<Rightarrow> nat \<Rightarrow> (nat \<Rightarrow> char) \<Rightarrow> nat \<Rightarrow> char" where
  "written c off len m = (\<lambda>i. if off \<le> i \<and> i < off + len then c else m i)"

lemma mem_step_memset: "mem_step p (Did ''memset'' [I (p + int off), Ch c, I (int n)]) m = written c off n m"
  by (auto simp: written_def)

lemma written_append: "written c (off + k) n (written c off k m) = written c off (k + n) m"
  by (auto simp: written_def)

lemma written_0 [simp]: "written c off 0 m = m"
  by (auto simp: written_def fun_eq_iff)

abbreviation sem_free :: "event list \<Rightarrow> bool" where
  "sem_free es \<equiv> list_all (\<lambda>e. cnt_act e = Other) es"

lemma update_chunks_written:
  "for_each [0..<n] (update_chunk p c off) w = (Val (), v) \<Longrightarrow>
   \<exists>es. trace v = trace w @ es \<and> sem_free es \<and> (\<forall>m. region p es m = written c off (n * CHUNK) m)"
proof (induction n arbitrary: v)
  case 0
  then show ?case by (auto simp: skip_apply)
next
  case (Suc n)
  from Suc.prems obtain u where u: "for_each [0..<n] (update_chunk p c off) w = (Val (), u)"
    and step: "update_chunk p c off n u = (Val (), v)"
    by (auto simp: for_each_append seq_def bind_bind skip_def ret_apply elim!: bind_ValE)
  from Suc.IH[OF u] obtain es where es: "trace u = trace w @ es" "sem_free es"
    "\<And>m. region p es m = written c off (n * CHUNK) m" by blast
  from step obtain r q f xs where "trace v = trace u @ [Sys (Call ''getpid'' []) r, Out 1 f xs,
      Did ''memset'' [I (p + int (off + n * CHUNK)), Ch c, I (int CHUNK)], Sys (Call ''usleep'' [I 1000]) q]"
    unfolding update_chunk_def memset_def
    by (auto simp: seq_def skip_def ret_def emit_def elim!: bind_ValE dest!: icall_Val)
  then obtain fs where fs: "trace v = trace u @ fs" "fs = [Sys (Call ''getpid'' []) r, Out 1 f xs,
      Did ''memset'' [I (p + int (off + n * CHUNK)), Ch c, I (int CHUNK)], Sys (Call ''usleep'' [I 1000]) q]" by blast
  have "region p fs m = written c (off + n * CHUNK) CHUNK m" for m
    unfolding fs(2) by (auto simp: written_def fun_eq_iff)
  moreover have "sem_free fs" unfolding fs(2) by (simp add: cnt_act_def)
  ultimately show ?case
    using es fs(1) written_append[of c off "n * CHUNK" CHUNK] by (intro exI[of _ "es @ fs"]) (simp add: add.commute)
qed

lemma update_udata_written:
  assumes "update_udata p c off len w = (Val (), v)"
  shows "\<exists>es. trace v = trace w @ es \<and> sem_free es \<and> (\<forall>m. region p es m = written c off len m)"
proof -
  from assms obtain u where u: "for_each [0..<len div CHUNK] (update_chunk p c off) w = (Val (), u)"
    and fin: "whenp (len mod CHUNK \<noteq> 0) (memset (p + int (off + len div CHUNK * CHUNK)) c (len mod CHUNK)) u = (Val (), v)"
    unfolding update_udata_def Let_def by (auto simp: seq_def elim!: bind_ValE)
  from update_chunks_written[OF u] obtain es where es: "trace u = trace w @ es" "sem_free es"
    "\<And>m. region p es m = written c off (len div CHUNK * CHUNK) m" by blast
  let ?fs = "if len mod CHUNK \<noteq> 0 then [Did ''memset'' [I (p + int (off + len div CHUNK * CHUNK)), Ch c, I (int (len mod CHUNK))]] else []"
  have "trace v = trace w @ es @ ?fs" using fin es(1) by (auto simp: whenp_apply memset_def emit_apply split: if_splits)
  moreover have "sem_free (es @ ?fs)" using es(2) by (simp add: cnt_act_def)
  moreover have "region p (es @ ?fs) m = written c off len m" for m
    using es(3) written_append[of c off "len div CHUNK * CHUNK" "len mod CHUNK" m]
    by (cases "len mod CHUNK = 0") (simp_all add: mem_step_memset dvd_eq_mod_eq_0[symmetric] del: mem_step.simps of_nat_add)
  ultimately show ?thesis by (metis append_assoc)
qed


section \<open>The order of the writes\<close>

lemma wait_after_post: "cnt_ok (as @ Waits # bs) (Some 0) \<Longrightarrow> (\<And>n. Creates n \<notin> set as) \<Longrightarrow> Posts \<in> set as"
proof -
  have "cnt_ok (as @ Waits # bs) (Some k) \<Longrightarrow> k \<le> 0 \<Longrightarrow> (\<And>n. Creates n \<notin> set as) \<Longrightarrow> Posts \<in> set as" for k
  proof (induction as arbitrary: k)
    case (Cons a as)
    then show ?case by (cases a) auto
  qed simp
  then show "cnt_ok (as @ Waits # bs) (Some 0) \<Longrightarrow> (\<And>n. Creates n \<notin> set as) \<Longrightarrow> Posts \<in> set as" by blast
qed

abbreviation idle :: "event \<Rightarrow> bool" where
  "idle e \<equiv> cnt_act e = Other \<and> \<not> is_memset e"

lemma shm_no_exit [simp]:
  "update_udata p c off len w \<noteq> (Halt (Exited k), v)" "child_lock b sem w \<noteq> (Halt (Exited k), v)"
  "shm_detach b sem p fd w \<noteq> (Halt (Exited k), v)"
proof -
  have ch: "update_chunk p c off i w \<noteq> (Halt (Exited k), v)" for i w v
    unfolding update_chunk_def memset_def by (auto simp: skip_apply elim!: seq_ExitE bind_ExitE)
  show "update_udata p c off len w \<noteq> (Halt (Exited k), v)"
    unfolding update_udata_def Let_def memset_def
    by (auto simp: whenp_apply for_each_no_exit[OF ch] elim!: seq_ExitE split: if_splits)
  show "child_lock b sem w \<noteq> (Halt (Exited k), v)"
    unfolding child_lock_def by (auto simp: whenp_apply elim!: seq_ExitE bind_ExitE split: if_splits)
  show "shm_detach b sem p fd w \<noteq> (Halt (Exited k), v)"
    unfolding shm_detach_def by (auto simp: skip_apply elim!: seq_ExitE bind_ExitE split: if_splits)
qed

lemma shm_detach_idle: "emits idle (shm_detach b sem p fd)"
  unfolding shm_detach_def by (intro emits_intros) (simp_all add: cnt_act_def is_memset_def)

lemma idle_region: "list_all idle es \<Longrightarrow> region p es m = m \<and> sem_free es"
  using region_filter[of p es m] by (metis (no_types, lifting) filter_False list_all_iff region_simps(1))

lemma shm_child_trace:
  assumes "shm_child True sem p fd w = (Halt (Exited 0), v)" and "trace w = []"
  shows "\<exists>x r es fs. trace v = [x, Sys (Call ''sem_wait'' [I sem]) r] @ es @ fs \<and> idle x \<and>
    list_all idle fs \<and> sem_free es \<and> (\<forall>m. region p es m = written (CHR ''c'') LEN (LEN * 10) m)"
proof -
  from assms(1) obtain u1 u2 u3 where st: "child_lock True sem w = (Val (), u1)"
      "update_udata p (CHR ''c'') LEN (LEN * 10) u1 = (Val (), u2)" "shm_detach True sem p fd u2 = (Val (), u3)" "v = u3"
    unfolding shm_child_def by (auto simp: stop_apply elim!: seq_ExitE)
  from st(1) obtain x r qs where l: "trace u1 = [x, Sys (Call ''sem_wait'' [I sem]) r] @ qs" "idle x" "list_all idle qs"
    using assms(2) unfolding child_lock_def
    by (auto simp: whenp_apply emit_apply cnt_act_def is_memset_def elim!: seq_ValE bind_ValE dest!: icall_Val split: if_splits)
  from update_udata_written[OF st(2)] obtain es where es: "trace u2 = trace u1 @ es" "sem_free es"
    "\<forall>m. region p es m = written (CHR ''c'') LEN (LEN * 10) m" by blast
  from emitsD[OF shm_detach_idle st(3)] obtain fs where "trace u3 = trace u2 @ fs" "list_all idle fs" by blast
  with l es st(4) idle_region[OF l(3)] show ?thesis by (intro exI[of _ x] exI[of _ r] exI[of _ "qs @ es"] exI[of _ fs]) auto
qed

lemma shm_parent_trace:
  assumes "shm_parent True sem p fd w = (Val (), v)" and "trace w = []"
  shows "\<exists>r es fs. trace v = es @ [Sys (Call ''sem_post'' [I sem]) r] @ fs \<and>
    list_all idle fs \<and> sem_free es \<and> (\<forall>m. region p es m = written (CHR ''p'') 0 (LEN * 10) m)"
proof -
  define rest where "rest = bind (icall (Call ''wait'' [I 0])) (\<lambda>_. seq (shm_detach True sem p fd)
    (bind (icall (Call ''sem_unlink'' [S MTX_SEM])) (\<lambda>_. skip)))"
  have rest: "emits idle rest"
    unfolding rest_def by (intro emits_intros shm_detach_idle) (simp_all add: cnt_act_def is_memset_def)
  from assms(1) obtain u1 u2 where st: "update_udata p (CHR ''p'') 0 (LEN * 10) w = (Val (), u1)"
      "parent_unlock True sem u1 = (Val (), u2)" "rest u2 = (Val (), v)"
    unfolding shm_parent_def rest_def[symmetric] by (auto elim!: seq_ValE)
  from st(2) obtain r qs where l: "trace u2 = trace u1 @ [Sys (Call ''sem_post'' [I sem]) r] @ qs" "list_all idle qs"
    unfolding parent_unlock_def
    by (auto simp: whenp_apply emit_apply cnt_act_def is_memset_def elim!: seq_ValE bind_ValE dest!: icall_Val split: if_splits)
  from update_udata_written[OF st(1)] assms(2) obtain es where es: "trace u1 = es" "sem_free es"
    "\<forall>m. region p es m = written (CHR ''p'') 0 (LEN * 10) m" by auto
  from emitsD[OF rest st(3)] obtain fs where "trace v = trace u2 @ fs" "list_all idle fs" by blast
  with l es show ?thesis by (intro exI[of _ r] exI[of _ es] exI[of _ "qs @ fs"]) auto
qed

lemma region_ordered:
  assumes child: "events_of 1 gs = [x, Sys (Call ''sem_wait'' [I sem]) r] @ ce @ cf" "idle x" "list_all idle cf" "sem_free ce"
    and parent: "events_of 0 gs = pe @ [Sys (Call ''sem_post'' [I sem]) q] @ pf" "sem_free pe" "list_all idle pf"
    and two: "\<And>t. 2 \<le> t \<Longrightarrow> events_of t gs = []"
    and sem: "cnt_ok (map cnt_act (map snd gs)) (Some 0)"
  shows "region p (map snd gs) m = region p ce (region p pe m)"
proof -
  let ?wait = "Sys (Call ''sem_wait'' [I sem]) r" and ?post = "Sys (Call ''sem_post'' [I sem]) q"
  from child(1) events_of_split[of 1 gs "[x]" ?wait "ce @ cf"] obtain g1 g2 where
    g: "gs = g1 @ (1, ?wait) # g2" "events_of 1 g1 = [x]" "events_of 1 g2 = ce @ cf" by auto
  have others: "events_of t g1 = []" "events_of t g2 = []" if "2 \<le> t" for t using two[OF that] g(1) by auto
  have wp: "cnt_act ?wait = Waits \<or> cnt_act ?wait = Fails" "cnt_act ?post = Posts \<or> cnt_act ?post = Other"
    by (simp_all add: cnt_act_def)
  have act: "e \<in> set (map snd gs) \<Longrightarrow> cnt_act e \<in> {Other, Waits, Posts, Fails}" for e
  proof -
    assume "e \<in> set (map snd gs)"
    then obtain t where t: "e \<in> set (events_of t gs)" by (force simp: events_of_def)
    with two[of t] consider "t = 0" | "t = 1" by (cases "2 \<le> t") (auto simp: not_le less_2_cases_iff)
    then show ?thesis
      using t child parent wp by cases (auto simp: list_all_iff)
  qed
  have w: "cnt_act ?wait = Waits"
    using cnt_ok_no_failure[OF sem] g(1) by (auto simp: cnt_act_def)
  have cr: "Creates n \<notin> set (map cnt_act (map snd g1))" for n
  proof
    assume "Creates n \<in> set (map cnt_act (map snd g1))"
    then obtain e where "cnt_act e = Creates n" "e \<in> set (map snd g1)" by (metis (no_types, lifting) image_iff set_map)
    with act[of e] g(1) show False by simp
  qed
  have "cnt_ok (map cnt_act (map snd g1) @ Waits # map cnt_act (map snd g2)) (Some 0)"
    using sem unfolding g(1) by (simp add: w)
  then have "Posts \<in> set (map cnt_act (map snd g1))" using cr by (rule wait_after_post)
  then obtain e t where e: "cnt_act e = Posts" "e \<in> set (events_of t g1)" by (force simp: events_of_def)
  have "t = 0" using e g(2) child(2) others(1)[of t] by (cases "2 \<le> t"; cases "t = 1") auto
  have pg: "events_of 0 g1 @ events_of 0 g2 = pe @ ?post # pf" using parent(1) g(1) by simp
  have "\<exists>pf1. events_of 0 g1 = pe @ ?post # pf1 \<and> pf = pf1 @ events_of 0 g2"
  proof -
    from pg consider us where "events_of 0 g1 @ us = pe" | us where "events_of 0 g1 = pe @ us" "us @ events_of 0 g2 = ?post # pf"
      by (auto simp: append_eq_append_conv2)
    then show ?thesis
    proof cases
      case 1
      then have "sem_free (events_of 0 g1)" using parent(2) by auto
      with e \<open>t = 0\<close> show ?thesis by (auto simp: list_all_iff)
    next
      case (2 us)
      have "us \<noteq> []" using 2 parent(2) e \<open>t = 0\<close> by (auto simp: list_all_iff)
      with 2 show ?thesis by (cases us) auto
    qed
  qed
  then obtain pf1 where pf1: "events_of 0 g1 = pe @ ?post # pf1" "pf = pf1 @ events_of 0 g2" by blast
  have nm: "filter is_memset es = []" if "list_all idle es" for es using that by (auto simp: filter_empty_conv list_all_iff)
  have "filter is_memset (map snd g1) = filter is_memset (events_of 0 g1)"
  proof (rule filter_one_thread)
    fix t :: nat assume "t \<noteq> 0"
    then show "filter is_memset (events_of t g1) = []" using others(1)[of t] g(2) child(2) by (cases "t = 1") auto
  qed
  moreover have "filter is_memset (map snd g2) = filter is_memset (events_of 1 g2)"
  proof (rule filter_one_thread)
    fix t :: nat assume "t \<noteq> 1"
    then show "filter is_memset (events_of t g2) = []" using others(2)[of t] pf1(2) parent(3) nm by (cases "t = 0") auto
  qed
  moreover have "filter is_memset (events_of 0 g1) = filter is_memset pe"
    using pf1 parent(3) nm by (auto simp: is_memset_def)
  moreover have "filter is_memset (events_of 1 g2) = filter is_memset ce" using g(3) nm[OF child(3)] by simp
  ultimately have "filter is_memset (map snd gs) = filter is_memset (pe @ ce)" using g(1) by (simp add: is_memset_def)
  then show ?thesis using region_filter[of p "map snd gs" m] region_filter[of p "pe @ ce" m] by simp
qed

text \<open>
  C30: with the semaphore the parent writes first, in every interleaving: in the end the region holds the parent's
  letter in the first 2560 bytes, the child's in the next 25600, and what it held before behind
  them. That takes the promise of the semaphore, which is 0 at first, and that \<open>sem_wait\<close> does not
  fail.
\<close>

theorem shm_final:
  assumes parent: "shm_parent True sem p fd w0 = (Val (), v0)" "trace w0 = []" "events_of 0 gs = trace v0"
    and child: "shm_child True sem p fd w1 = (Halt (Exited 0), v1)" "trace w1 = []" "events_of 1 gs = trace v1"
    and two: "list_all (\<lambda>g. fst g < 2) gs"
    and sem: "cnt_ok (map cnt_act (map snd gs)) (Some 0)"
  shows "region p (map snd gs) m = (\<lambda>i. if i < 2560 then CHR ''p'' else if i < 28160 then CHR ''c'' else m i)"
proof -
  from shm_child_trace[OF child(1,2)] obtain x r ce cf where c: "events_of 1 gs = [x, Sys (Call ''sem_wait'' [I sem]) r] @ ce @ cf"
    "idle x" "list_all idle cf" "sem_free ce" "\<And>m. region p ce m = written (CHR ''c'') LEN (LEN * 10) m" using child(3) by auto
  from shm_parent_trace[OF parent(1,2)] obtain q pe pf where pa: "events_of 0 gs = pe @ [Sys (Call ''sem_post'' [I sem]) q] @ pf"
    "list_all idle pf" "sem_free pe" "\<And>m. region p pe m = written (CHR ''p'') 0 (LEN * 10) m" using parent(3) by auto
  have "events_of t gs = []" if "2 \<le> t" for t
    using two that by (auto simp: events_of_def filter_empty_conv list_all_iff)
  from region_ordered[OF c(1-4) pa(1,3,2) this sem, of p m] c(5) pa(4)
  show ?thesis by (auto simp: written_def fun_eq_iff)
qed


theorem shm_final_witness:
  "let p = 4096; es0 = trace (snd (shm_parent True 7 p 3 (boot (replicate 18 (Ret 0)))));
       es1 = trace (snd (shm_child True 7 p 3 (boot (replicate 16 (Ret 0)))));
       gs = map (Pair 0) es0 @ map (Pair (1::nat)) es1
   in map (region p (map snd gs) (\<lambda>_. NUL)) [2559, 2560, 28160] = [CHR ''p'', CHR ''c'', NUL]"
proof -
  let ?p = "shm_parent True 7 4096 3 (boot (replicate 18 (Ret 0)))" and ?c = "shm_child True 7 4096 3 (boot (replicate 16 (Ret 0)))"
  define es0 where "es0 = trace (snd ?p)"
  define es1 where "es1 = trace (snd ?c)"
  let ?gs = "map (Pair 0) es0 @ map (Pair (1::nat)) es1"
  have six: "[0..<6] = [0, 1, 2, 3, 4, 5::nat]" by (simp add: upt_rec)
  have chunk: "script w = Ret 0 # Ret 0 # rs \<Longrightarrow> update_chunk q d off i w = (Val (), w\<lparr>script := rs, trace := trace w @
      [Sys (Call ''getpid'' []) (Ret 0), Out 1 (''%d: writing char %c for chunk %zu at offset %zu now'' @ [LF])
        [I 0, Ch d, I (int i), I (int (off + i * CHUNK))], Did ''memset'' [I (q + int (off + i * CHUNK)), Ch d, I (int CHUNK)],
       Sys (Call ''usleep'' [I 1000]) (Ret 0)]\<rparr>)" for q d off i w rs
    by (cases w) (simp add: update_chunk_def memset_def run_defs answered_def)
  have reps: "replicate 18 x = [x, x, x, x, x, x, x, x, x, x, x, x, x, x, x, x, x, x]" "replicate 16 x = [x, x, x, x, x, x, x, x, x, x, x, x, x, x, x, x]" for x :: reply
    by (simp_all add: numeral_eq_Suc)
  note defs = shm_parent_def shm_child_def child_lock_def parent_unlock_def shm_detach_def update_udata_def
    memset_def Let_def run_defs stop_def boot_def six chunk reps
  have p: "fst ?p = Val ()" "filter (\<lambda>a. a \<noteq> Other) (map cnt_act es0) = [Posts]"
    unfolding es0_def by (simp_all add: defs cnt_act_def)
  have c: "fst ?c = Halt (Exited 0)" "filter (\<lambda>a. a \<noteq> Other) (map cnt_act es1) = [Waits]"
    unfolding es1_def by (simp_all add: defs cnt_act_def)
  have ga: "map cnt_act (map snd ?gs) = map cnt_act es0 @ map cnt_act es1" by simp
  have ok: "cnt_ok (map cnt_act (map snd ?gs)) (Some 0)"
    unfolding ga cnt_ok_filter[of "map cnt_act es0 @ map cnt_act es1", symmetric] filter_append p c by simp
  have ev: "events_of 0 ?gs = es0" "events_of 1 ?gs = es1" "list_all (\<lambda>g. fst g < 2) ?gs"
    by (auto simp: events_of_pair list_all_iff)
  have "region 4096 (map snd ?gs) (\<lambda>_. NUL) =
      (\<lambda>i. if i < 2560 then CHR ''p'' else if i < 28160 then CHR ''c'' else NUL)"
    by (rule shm_final[OF run_eq[OF p(1)] _ _ run_eq[OF c(1)], folded es0_def es1_def, OF boot_simps(2) ev(1) boot_simps(2) ev(2,3) ok])
  then show ?thesis by (simp add: Let_def es0_def es1_def)
qed

end
