(* ===== verification/ErrorFuncs.thy ===== *)
theory ErrorFuncs
  imports Kernel
begin

text \<open>
  The error functions of \<^verbatim>\<open>src/pthreads/tlpi_TLS_TSD/error_functions.c\<close>. The array \<open>ename\<close>,
  its bound \<open>MAX_ENAME\<close>, which a generated file defines, and \<open>strerror\<close> are parameters. The calls on the
  standard streams are calls, since they may fail and change \<open>errno\<close>.
\<close>

section \<open>The functions\<close>

record err_names =
  ename :: "int \<Rightarrow> string"
  MAX_ENAME :: int
  strerror :: "int \<Rightarrow> string"

abbreviation (input) BUF_SIZE :: nat where "BUF_SIZE \<equiv> 500"
abbreviation fflush :: "string \<Rightarrow> int prog" where "fflush stream \<equiv> icall (Call ''fflush'' [S stream])"

text \<open>The reply to \<open>getenv\<close> is the value; the empty string and no value have the same effect.\<close>

definition terminate :: "bool \<Rightarrow> unit prog" where
  "terminate useExit3 =
     bind (syscall (Call ''getenv'' [S ''EF_DUMPCORE''])) (\<lambda>s.
       if payload s \<noteq> [] then stop (Killed 6)
       else if useExit3 then exit_prog EXIT_FAILURE
       else seq (emit (Did ''_exit'' [I EXIT_FAILURE])) (exit_prog EXIT_FAILURE))"

definition error_buf :: "err_names \<Rightarrow> bool \<Rightarrow> int \<Rightarrow> string \<Rightarrow> arg list \<Rightarrow> string" where
  "error_buf en useErr err format ap =
     (let userMsg = snprintf BUF_SIZE format ap;
          errText = (if useErr then
              snprintf BUF_SIZE '' [%s %s]''
                [S (if 0 < err \<and> err \<le> MAX_ENAME en then ename en err else ''?UNKNOWN?''), S (strerror en err)]
            else snprintf BUF_SIZE '':'' [])
      in snprintf BUF_SIZE (''ERROR%s %s'' @ [LF]) [S errText, S userMsg])"

definition outputError :: "err_names \<Rightarrow> bool \<Rightarrow> int \<Rightarrow> bool \<Rightarrow> string \<Rightarrow> arg list \<Rightarrow> unit prog" where
  "outputError en useErr err flushStdout format ap =
     seq (if flushStdout then bind (fflush ''stdout'') (\<lambda>_. skip) else skip)
    (bind (icall (Call ''fputs'' [S (error_buf en useErr err format ap), S ''stderr''])) (\<lambda>_.
     bind (fflush ''stderr'') (\<lambda>_. skip)))"

definition errMsg :: "err_names \<Rightarrow> string \<Rightarrow> arg list \<Rightarrow> unit prog" where
  "errMsg en format argList =
     bind get_errno (\<lambda>savedErrno.
     bind get_errno (\<lambda>errno.
     seq (outputError en True errno True format argList)
       (set_errno savedErrno)))"

definition errExit :: "err_names \<Rightarrow> string \<Rightarrow> arg list \<Rightarrow> unit prog" where
  "errExit en format argList =
     bind get_errno (\<lambda>errno. seq (outputError en True errno True format argList) (terminate True))"

definition tlpi_err_exit :: "err_names \<Rightarrow> string \<Rightarrow> arg list \<Rightarrow> unit prog" where
  "tlpi_err_exit en format argList =
     bind get_errno (\<lambda>errno. seq (outputError en True errno False format argList) (terminate False))"

definition errExitEN :: "err_names \<Rightarrow> int \<Rightarrow> string \<Rightarrow> arg list \<Rightarrow> unit prog" where
  "errExitEN en errnum format argList =
     seq (outputError en True errnum True format argList) (terminate True)"

definition fatal :: "err_names \<Rightarrow> string \<Rightarrow> arg list \<Rightarrow> unit prog" where
  "fatal en format argList = seq (outputError en False 0 True format argList) (terminate True)"

definition arg_error :: "string \<Rightarrow> string \<Rightarrow> arg list \<Rightarrow> unit prog" where
  "arg_error label format argList =
     bind (fflush ''stdout'') (\<lambda>_.
     bind (icall (Call ''fprintf'' [S ''stderr'', S label])) (\<lambda>_.
     bind (icall (Call ''vfprintf'' [S ''stderr'', S (cformat format argList)])) (\<lambda>_.
     bind (fflush ''stderr'') (\<lambda>_. exit_prog EXIT_FAILURE))))"

definition usageErr :: "string \<Rightarrow> arg list \<Rightarrow> unit prog" where
  "usageErr = arg_error ''Usage: ''"

definition cmdLineErr :: "string \<Rightarrow> arg list \<Rightarrow> unit prog" where
  "cmdLineErr = arg_error ''Command-line usage error: ''"

section \<open>What they report\<close>

text \<open>The first 499 characters of the message, with its parts cut to 499 characters as well.\<close>

definition error_text :: "string \<Rightarrow> string \<Rightarrow> string" where
  "error_text errText msg = take 499 (''ERROR'' @ take 499 errText @ '' '' @ take 499 msg @ [LF])"

definition diagnosis :: "err_names \<Rightarrow> int \<Rightarrow> string" where
  "diagnosis en err =
     '' ['' @ (if 0 < err \<and> err \<le> MAX_ENAME en then ename en err else ''?UNKNOWN?'') @ '' '' @ strerror en err @ '']''"

text \<open>
  \<open>reported flush txt w v rest\<close>: between \<open>w\<close> and \<open>v\<close> standard output was flushed, if \<open>flush\<close>, the
  text \<open>txt\<close> was put on standard error, that was flushed, and then came \<open>rest\<close>.
\<close>

definition reported :: "bool \<Rightarrow> string \<Rightarrow> world \<Rightarrow> world \<Rightarrow> event list \<Rightarrow> bool" where
  "reported flush txt w v rest \<longleftrightarrow> (\<exists>r q s. trace v = trace w @
     (if flush then [Sys (Call ''fflush'' [S ''stdout'']) r] else []) @
     [Sys (Call ''fputs'' [S txt, S ''stderr'']) q, Sys (Call ''fflush'' [S ''stderr'']) s] @ rest)"

lemma error_formats:
  "cformat (''ERROR%s %s'' @ [LF]) [S a, S b] = ''ERROR'' @ a @ '' '' @ b @ [LF]"
  "cformat '' [%s %s]'' [S a, S b] = '' ['' @ a @ '' '' @ b @ '']''" "cformat '':'' [] = '':''"
  by (simp_all add: cformat.simps[of "_ # _"] cformat.simps[of "[]"] parse_spec_def isdigit_def code_def pad_def)

lemma error_buf_text: "error_buf en useErr err format ap = error_text (if useErr then diagnosis en err else '':'') (cformat format ap)"
proof -
  have n: "BUF_SIZE - 1 = 499" by simp
  show ?thesis
    unfolding error_buf_def error_text_def diagnosis_def snprintf_def Let_def error_formats n
    by (cases useErr) (simp_all only: if_True if_False)
qed

lemma wp_outputError:
  "wp (outputError en useErr err fl format ap)
     (\<lambda>_ v. reported fl (error_text (if useErr then diagnosis en err else '':'') (cformat format ap)) w v [])
     (\<lambda>h _. h = Blocked) w"
  unfolding outputError_def error_buf_text reported_def
  by (cases fl) (auto simp: wp_simps simp del: append_Cons split: list.splits)

lemma reported_trace: "reported fl txt w u [] \<Longrightarrow> trace v = trace u @ es \<Longrightarrow> reported fl txt w v es"
  by (auto simp: reported_def)

definition ended :: "bool \<Rightarrow> halt \<Rightarrow> event list \<Rightarrow> bool" where
  "ended useExit3 h rest \<longleftrightarrow> (\<exists>r. let g = Sys (Call ''getenv'' [S ''EF_DUMPCORE'']) r in
     payload r \<noteq> [] \<and> h = Killed 6 \<and> rest = [g] \<or>
     payload r = [] \<and> h = Exited EXIT_FAILURE \<and> rest = g # (if useExit3 then [] else [Did ''_exit'' [I EXIT_FAILURE]]))"

lemma wp_terminate:
  "wp (terminate b) (\<lambda>_ _. False) (\<lambda>h v. h = Blocked \<or> (\<exists>es. trace v = trace u @ es \<and> ended b h es)) u"
  unfolding terminate_def ended_def Let_def by (auto simp: wp_simps split: list.splits)

lemma wp_output_terminate:
  "wp (seq (outputError en useErr err fl format ap) (terminate b)) (\<lambda>_ _. False)
     (\<lambda>h v. h = Blocked \<or> (\<exists>rest. reported fl (error_text (if useErr then diagnosis en err else '':'') (cformat format ap)) w v rest \<and>
        ended b h rest)) w"
  unfolding wp_seq
proof (rule wp_mono[OF wp_outputError])
  fix u
  assume "reported fl (error_text (if useErr then diagnosis en err else '':'') (cformat format ap)) w u []"
  note rep = reported_trace[OF this]
  show "wp (terminate b) (\<lambda>_ _. False) (\<lambda>h v. h = Blocked \<or> (\<exists>rest. reported fl
      (error_text (if useErr then diagnosis en err else '':'') (cformat format ap)) w v rest \<and> ended b h rest)) u"
    by (rule wp_mono[OF wp_terminate]) (use rep in blast)+
qed simp


end
