(* ===== verification/Cells.thy ===== *)
theory Cells
  imports SharedVar
begin

text \<open>
  A memory of many cells, such as an array or the buffers of the heap, that
  several threads share. When each thread reads and writes only cells of its
  own, every thread sees its own writes and nothing else, whatever the
  interleaving, and the memory at the end is made of what each of them has left.
\<close>

section \<open>The memory\<close>

text \<open>
  \<open>loads e\<close> is the cell that the event \<open>e\<close> reads with the value it gets, \<open>stores e\<close>
  the cell it writes with the new value. None when a load returns another value
  than the cell has.
\<close>

type_synonym ('k, 'v) access = "event \<Rightarrow> ('k \<times> 'v) option"

definition cell_event ::
  "('k, 'v) access \<Rightarrow> ('k, 'v) access \<Rightarrow> event \<Rightarrow> ('k \<Rightarrow> 'v) \<Rightarrow> ('k \<Rightarrow> 'v) option" where
  "cell_event loads stores e m =
     (case loads e of
        Some (k, v) \<Rightarrow> if m k = v then Some m else None
      | None \<Rightarrow> (case stores e of Some (k, v) \<Rightarrow> Some (m(k := v)) | None \<Rightarrow> Some m))"

fun cells_run ::
  "('k, 'v) access \<Rightarrow> ('k, 'v) access \<Rightarrow> gevent list \<Rightarrow> ('k \<Rightarrow> 'v) \<Rightarrow> ('k \<Rightarrow> 'v) option" where
  "cells_run loads stores [] m = Some m"
| "cells_run loads stores (g # gs) m =
     (case cell_event loads stores (snd g) m of None \<Rightarrow> None | Some m' \<Rightarrow> cells_run loads stores gs m')"

lemma cells_run_append:
  "cells_run loads stores (gs @ hs) m =
     (case cells_run loads stores gs m of None \<Rightarrow> None | Some m' \<Rightarrow> cells_run loads stores hs m')"
  by (induction gs arbitrary: m) (auto split: option.splits)


section \<open>Cells of one's own\<close>

text \<open>
  The view of a thread that owns the cells \<open>own\<close>: it goes wrong when it uses
  another cell, or when it does something that is not \<open>ok\<close>. \<open>gains e\<close> is a cell
  that the event \<open>e\<close> gives to the thread, as \<open>malloc\<close> does.
\<close>

definition own_mon ::
  "('k, 'v) access \<Rightarrow> ('k, 'v) access \<Rightarrow> (event \<Rightarrow> 'k option) \<Rightarrow> (event \<Rightarrow> bool) \<Rightarrow> 'k set \<Rightarrow> ('k \<Rightarrow> 'v) monitor" where
  "own_mon loads stores gains ok own e m =
     (case loads e of
        Some (k, v) \<Rightarrow> if k \<notin> own then Wrong else if m k = v then At m else Broken
      | None \<Rightarrow>
          (case stores e of
             Some (k, v) \<Rightarrow> if k \<in> own then At (m(k := v)) else Wrong
           | None \<Rightarrow>
               (case gains e of
                  Some k \<Rightarrow> if k \<in> own then At m else Broken
                | None \<Rightarrow> if ok e then At m else Wrong)))"

locale owners =
  fixes loads stores :: "('k, 'v) access" and gains :: "event \<Rightarrow> 'k option" and ok :: "nat \<Rightarrow> event \<Rightarrow> bool"
    and own :: "nat \<Rightarrow> 'k set" and thread :: "nat \<Rightarrow> 'a prog" and init :: "'k \<Rightarrow> 'v" and final :: "nat \<Rightarrow> ('k \<Rightarrow> 'v) \<Rightarrow> bool"
  assumes disjoint: "t \<noteq> u \<Longrightarrow> own t \<inter> own u = {}"
    and owned: "tracks (own_mon loads stores gains (ok t) (own t)) (thread t) (\<lambda>_ m. final t m) init"
begin

abbreviation mon :: "nat \<Rightarrow> ('k \<Rightarrow> 'v) monitor" where "mon t \<equiv> own_mon loads stores gains (ok t) (own t)"

text \<open>What the kernel promises: it gives a thread only cells that are the thread's own.\<close>

definition gains_own :: "gevent list \<Rightarrow> bool" where
  "gains_own gs \<longleftrightarrow> (\<forall>(t, e) \<in> set gs. \<forall>k. gains e = Some k \<longrightarrow> k \<in> own t)"

lemma mon_step:
  assumes "mon u e v \<noteq> Wrong" and "cell_event loads stores e m = Some m'" and "\<forall>k\<in>own u. v k = m k"
    and "\<forall>k. gains e = Some k \<longrightarrow> k \<in> own u"
  shows "\<exists>v'. mon u e v = At v' \<and> (\<forall>k\<in>own u. v' k = m' k) \<and> (\<forall>k. k \<notin> own u \<longrightarrow> m' k = m k)"
proof (cases "loads e")
  case None
  with assms show ?thesis
    by (auto simp: own_mon_def cell_event_def split: option.splits if_splits)
next
  case (Some kv)
  with assms show ?thesis
    by (cases kv) (auto simp: own_mon_def cell_event_def split: if_splits)
qed

lemma views:
  "runs_of thread gs \<Longrightarrow> gains_own gs \<Longrightarrow> cells_run loads stores gs init = Some m \<Longrightarrow>
   \<exists>view. (\<forall>t. mrun (mon t) (events_of t gs) init = At (view t) \<and> (\<forall>k\<in>own t. view t k = m k)) \<and>
     (\<forall>k. (\<forall>t. k \<notin> own t) \<longrightarrow> m k = init k)"
proof (induction gs arbitrary: m rule: rev_induct)
  case Nil
  then show ?case by (intro exI[of _ "\<lambda>_. init"]) simp
next
  case (snoc g gs)
  obtain u e where g: "g = (u, e)" by (cases g)
  from snoc.prems(3) obtain m0 where m0: "cells_run loads stores gs init = Some m0" "cell_event loads stores e m0 = Some m"
    by (auto simp: cells_run_append g split: option.splits)
  have "runs_of thread gs" using snoc.prems(1) unfolding runs_of_def by (fastforce dest: append_prefixD)
  moreover have "gains_own gs" "\<forall>k. gains e = Some k \<longrightarrow> k \<in> own u" using snoc.prems(2) by (auto simp: gains_own_def g)
  ultimately obtain view where view: "\<forall>t. mrun (mon t) (events_of t gs) init = At (view t) \<and> (\<forall>k\<in>own t. view t k = m0 k)"
    "\<forall>k. (\<forall>t. k \<notin> own t) \<longrightarrow> m0 k = init k" and ge: "\<forall>k. gains e = Some k \<longrightarrow> k \<in> own u"
    using snoc.IH m0(1) by blast
  have "mrun (mon u) (events_of u (gs @ [g])) init \<noteq> Wrong" using snoc.prems(1) owned by (rule runs_not_wrong)
  then have "mon u e (view u) \<noteq> Wrong" using view(1) by (auto simp: g mrun_append split: verdict.splits)
  from mon_step[OF this m0(2) _ ge] view(1) obtain v' where
    v': "mon u e (view u) = At v'" "\<forall>k\<in>own u. v' k = m k" "\<forall>k. k \<notin> own u \<longrightarrow> m k = m0 k" by blast
  have "mrun (mon t) (events_of t (gs @ [g])) init = At ((view(u := v')) t) \<and> (\<forall>k\<in>own t. (view(u := v')) t k = m k)" for t
    using view(1) v' disjoint[of t u] by (cases "t = u") (auto simp: g mrun_append disjoint_iff)
  moreover have "\<forall>k. (\<forall>t. k \<notin> own t) \<longrightarrow> m k = init k" using view(2) v'(3) by auto
  ultimately show ?case by blast
qed

text \<open>No thread ever sees what another one has done: each keeps to what is expected of it alone.\<close>

lemma expected:
  assumes "runs_of thread gs" and "gains_own gs" and "cells_run loads stores gs init = Some m" and "(t, e) \<in> set gs"
    and "loads e = None" and "stores e = None" and "gains e = None"
  shows "ok t e"
proof -
  from assms(4) obtain g1 g2 where gs: "gs = g1 @ (t, e) # g2" by (meson split_list)
  from views[OF assms(1-3)] obtain view where "mrun (mon t) (events_of t gs) init = At (view t)" by blast
  with assms(5-7) show ?thesis
    by (auto simp: gs mrun_append own_mon_def split: verdict.splits if_splits)
qed

text \<open>The memory when every thread has run to its end.\<close>

lemma final_cells:
  assumes "completed thread N gs" and "gains_own gs" and "cells_run loads stores gs init = Some m"
  shows "(\<forall>t<N. \<exists>v. final t v \<and> (\<forall>k\<in>own t. m k = v k)) \<and> (\<forall>k. (\<forall>t<N. k \<notin> own t) \<longrightarrow> m k = init k)"
proof -
  from views[OF completed_runs[OF assms(1)] assms(2,3)] obtain view where
    view: "\<forall>t. mrun (mon t) (events_of t gs) init = At (view t) \<and> (\<forall>k\<in>own t. view t k = m k)"
    "\<forall>k. (\<forall>t. k \<notin> own t) \<longrightarrow> m k = init k" by blast
  have "\<exists>v. final t v \<and> (\<forall>k\<in>own t. m k = v k)" if t: "t < N" for t
  proof -
    from assms(1) t obtain w y where w: "trace w = []" "events_of t gs = trace (snd (thread t w))" "fst (thread t w) = Val y"
      unfolding completed_def by blast
    from w(3) have "thread t w = (Val y, snd (thread t w))" by (rule run_eq)
    with owned obtain es where es: "trace (snd (thread t w)) = trace w @ es"
      "\<forall>x. Val y = Val x \<longrightarrow> holds (\<lambda>m. final t m) (mrun (mon t) es init)" by (rule tracksE)
    with w(1,2) have "holds (\<lambda>m. final t m) (mrun (mon t) (events_of t gs) init)" by simp
    with spec[OF view(1), of t] show ?thesis by (intro exI[of _ "view t"]) simp
  qed
  moreover have "m k = init k" if k: "\<forall>t<N. k \<notin> own t" for k
  proof (cases "\<exists>t. k \<in> own t")
    case True
    then obtain t where t: "k \<in> own t" "N \<le> t" using k by (meson not_le)
    then have "events_of t gs = []" using assms(1) by (auto simp: completed_def events_of_def filter_empty_conv)
    with spec[OF view(1), of t] have "init = view t" "\<forall>k\<in>own t. view t k = m k" by simp_all
    with t(1) show ?thesis by simp
  qed (use view(2) in blast)
  ultimately show ?thesis by blast
qed

end

end
