(* ===== verification/MatrixMul.thy ===== *)
theory MatrixMul
  imports Cells
begin

text \<open>
  Multiplication of matrices, of
  \<^verbatim>\<open>src/pthreads/speed_thrdprcs_simple/matrixmul\<close>: by threads that each take some
  rows, in \<^verbatim>\<open>thrd_matrixmul.c\<close>, and by one process, in \<^verbatim>\<open>prcs_matrixmul.c\<close>. The
  macros \<open>n\<close> and \<open>nthreads\<close>, which are 2048 and 12, are arguments; \<open>a\<close> and \<open>b\<close>, which are
  written only before the threads start, are arguments of the threads. The
  elements of \<open>c\<close> are shared.
\<close>

section \<open>Definitions\<close>

type_synonym matrix = "nat \<Rightarrow> nat \<Rightarrow> int"

abbreviation load_c :: "nat \<Rightarrow> nat \<Rightarrow> int prog" where
  "load_c i j \<equiv> icall (Call ''load'' [S ''c'', I (int i), I (int j)])"

abbreviation store_c :: "nat \<Rightarrow> nat \<Rightarrow> int \<Rightarrow> unit prog" where
  "store_c i j v \<equiv> emit (Did ''store'' [S ''c'', I (int i), I (int j), I v])"

text \<open>\<^verbatim>\<open>c[i][j] = c[i][j] + a[i][k] * b[k][j];\<close>\<close>

definition mul_add :: "nat \<Rightarrow> matrix \<Rightarrow> matrix \<Rightarrow> nat \<Rightarrow> nat \<Rightarrow> nat \<Rightarrow> unit prog" where
  "mul_add n a b i j k =
     (if n \<le> i then stop (Undef ''index outside the array'')
      else bind (load_c i j) (\<lambda>v.
        case Option.bind (ck_int (a i k * b k j)) (\<lambda>p. ck_int (v + p)) of
          None \<Rightarrow> stop (Undef ''signed overflow'')
        | Some s \<Rightarrow> store_c i j s))"

text \<open>The three loops, from row \<open>lo\<close> to the row before \<open>hi\<close>.\<close>

definition mul_rows :: "nat \<Rightarrow> matrix \<Rightarrow> matrix \<Rightarrow> nat \<Rightarrow> nat \<Rightarrow> unit prog" where
  "mul_rows n a b lo hi =
     for_each [lo..<hi] (\<lambda>i. for_each [0..<n] (\<lambda>j. for_each [0..<n] (\<lambda>k. mul_add n a b i j k)))"

definition threadfun :: "nat \<Rightarrow> nat \<Rightarrow> matrix \<Rightarrow> matrix \<Rightarrow> nat \<Rightarrow> unit prog" where
  "threadfun n nthreads a b p =
     seq (mul_rows n a b p (p + n div nthreads)) (emit (Did ''pthread_exit'' [I 0]))"

text \<open>
  The main program, after it has filled \<open>a\<close> and \<open>b\<close> with 1. \<open>tid[i]\<close> is not set when
  thread \<open>i\<close> could not be created, which is not checked.
\<close>

definition mm_ones :: matrix where "mm_ones i j = 1"

definition rownos :: "nat \<Rightarrow> nat \<Rightarrow> nat \<Rightarrow> nat" where
  "rownos n nthreads i = i * (n div nthreads)"

fun mm_create :: "nat \<Rightarrow> nat \<Rightarrow> nat list \<Rightarrow> int option list prog" where
  "mm_create n nthreads [] = ret []"
| "mm_create n nthreads (i # is) =
     bind (syscall (Call ''pthread_create'' [S ''threadfun'', I (int (rownos n nthreads i))])) (\<lambda>r.
     bind (mm_create n nthreads is) (\<lambda>tid.
       ret ((if retval r = 0 then Some (out 0 r) else None) # tid)))"

definition mm_join :: "int option \<Rightarrow> unit prog" where
  "mm_join t = (case t of None \<Rightarrow> stop (Undef ''join of no thread'')
     | Some t \<Rightarrow> bind (icall (Call ''pthread_join'' [I t])) (\<lambda>_. skip))"

definition thrd_matrixmul_main :: "nat \<Rightarrow> nat \<Rightarrow> unit prog" where
  "thrd_matrixmul_main n nthreads =
     bind (mm_create n nthreads [0..<nthreads]) (\<lambda>tid.
     seq (for_each tid mm_join) (emit (Did ''pthread_exit'' [I 0])))"

definition prcs_matrixmul_main :: "nat \<Rightarrow> int prog" where
  "prcs_matrixmul_main n = seq (mul_rows n mm_ones mm_ones 0 n) (ret 0)"


section \<open>The elements of \<open>c\<close>\<close>

fun c_loads :: "(int \<times> int, int) access" where
  "c_loads (Sys (Call f [S x, I i, I j]) r) = (if f = ''load'' \<and> x = ''c'' then Some ((i, j), retval r) else None)"
| "c_loads e = None"

fun c_stores :: "(int \<times> int, int) access" where
  "c_stores (Did f [S x, I i, I j, I v]) = (if f = ''store'' \<and> x = ''c'' then Some ((i, j), v) else None)"
| "c_stores e = None"

abbreviation rows :: "nat \<Rightarrow> nat \<Rightarrow> (int \<times> int) set" where
  "rows lo hi \<equiv> {int lo..<int hi} \<times> UNIV"

abbreviation row_mon :: "nat \<Rightarrow> nat \<Rightarrow> (int \<times> int \<Rightarrow> int) monitor" where
  "row_mon lo hi \<equiv> own_mon c_loads c_stores (\<lambda>_. None) (\<lambda>_. True) (rows lo hi)"

definition entry :: "nat \<Rightarrow> matrix \<Rightarrow> matrix \<Rightarrow> nat \<Rightarrow> nat \<Rightarrow> int" where
  "entry n a b i j = (\<Sum>k<n. a i k * b k j)"

text \<open>What is in the rows \<open>is\<close> of \<open>m\<close> after the loops.\<close>

definition mul_into :: "nat \<Rightarrow> matrix \<Rightarrow> matrix \<Rightarrow> nat set \<Rightarrow> nat set \<Rightarrow> (int \<times> int \<Rightarrow> int) \<Rightarrow> int \<times> int \<Rightarrow> int" where
  "mul_into n a b is js m = (\<lambda>(x, y). m (x, y) +
     (if 0 \<le> x \<and> 0 \<le> y \<and> nat x \<in> is \<and> nat y \<in> js then entry n a b (nat x) (nat y) else 0))"

lemma appends_mul_add: "appends (mul_add n a b i j k)"
  unfolding mul_add_def by (intro emits_intros TrueI) (auto split: option.splits intro: emits_intros)

lemma appends_mul_rows: "appends (mul_rows n a b lo hi)"
  unfolding mul_rows_def by (intro emits_intros appends_mul_add)

lemma tracks_mul_add:
  assumes "lo \<le> i" "i < hi"
  shows "tracks (row_mon lo hi) (mul_add n a b i j k)
    (\<lambda>_ m'. m' = m((int i, int j) := m (int i, int j) + a i k * b k j)) m"
  unfolding mul_add_def using assms
  by (intro tracks_if tracks_stop tracks_bind_wp tracks_icall)
    (auto simp: own_mon_def bind_eq_Some_conv intro!: tracks_stop tracks_emit emits_intros split: option.splits)

lemma tracks_dot:
  assumes "lo \<le> i" "i < hi"
  shows "tracks (row_mon lo hi) (for_each ks (mul_add n a b i j))
    (\<lambda>_ m'. m' = m((int i, int j) := m (int i, int j) + (\<Sum>k\<leftarrow>ks. a i k * b k j))) m"
proof (induction ks arbitrary: m)
  case (Cons k ks)
  show ?case unfolding for_each.simps
    by (rule tracks_seq[OF tracks_mono[OF tracks_mul_add[OF assms]]])
      (auto intro!: tracks_mono[OF Cons] emits_intros appends_mul_add simp: algebra_simps)
qed (simp add: tracks_skip)

lemma tracks_row:
  assumes "lo \<le> i" "i < hi" "distinct js"
  shows "tracks (row_mon lo hi) (for_each js (\<lambda>j. for_each [0..<n] (\<lambda>k. mul_add n a b i j k)))
    (\<lambda>_ m'. m' = mul_into n a b {i} (set js) m) m"
  using assms(3)
proof (induction js arbitrary: m)
  case Nil
  then show ?case by (auto intro!: tracks_skip simp: mul_into_def)
next
  case (Cons j js)
  have one: "m((int i, int j) := m (int i, int j) + (\<Sum>k\<leftarrow>[0..<n]. a i k * b k j)) = mul_into n a b {i} {j} m"
    by (auto simp: mul_into_def entry_def fun_eq_iff interv_sum_list_conv_sum_set_nat lessThan_atLeast0)
  have two: "mul_into n a b {i} (set js) (mul_into n a b {i} {j} m) = mul_into n a b {i} (set (j # js)) m"
    using Cons.prems by (auto simp: mul_into_def fun_eq_iff)
  show ?case unfolding for_each.simps
    by (rule tracks_seq[OF tracks_mono[OF tracks_dot[OF assms(1,2), where j = j and m = m]]])
      (use Cons in \<open>auto intro!: tracks_mono[OF Cons.IH] emits_intros appends_mul_add simp: one two\<close>)
qed

lemma tracks_rows:
  assumes "distinct is" "\<forall>i\<in>set is. lo \<le> i \<and> i < hi"
  shows "tracks (row_mon lo hi) (for_each is (\<lambda>i. for_each [0..<n] (\<lambda>j. for_each [0..<n] (\<lambda>k. mul_add n a b i j k))))
    (\<lambda>_ m'. m' = mul_into n a b (set is) {0..<n} m) m"
  using assms
proof (induction "is" arbitrary: m)
  case Nil
  then show ?case by (auto intro!: tracks_skip simp: mul_into_def)
next
  case (Cons i "is")
  have two: "mul_into n a b (set is) {0..<n} (mul_into n a b {i} {0..<n} m) = mul_into n a b (set (i # is)) {0..<n} m"
    using Cons.prems by (auto simp: mul_into_def fun_eq_iff)
  from Cons.prems have i: "lo \<le> i" "i < hi" by auto
  show ?case unfolding for_each.simps
    by (rule tracks_seq[OF tracks_mono[OF tracks_row[OF i distinct_upt, where m = m]]])
      (use Cons in \<open>auto intro!: tracks_mono[OF Cons.IH] emits_intros appends_mul_add simp: two\<close>)
qed

lemma tracks_mul_rows:
  "tracks (row_mon lo hi) (mul_rows n a b lo hi) (\<lambda>_ m'. m' = mul_into n a b {lo..<hi} {0..<n} m) m"
  unfolding mul_rows_def using tracks_rows[of "[lo..<hi]" lo hi n a b m] by simp


section \<open>The product\<close>

abbreviation mm_rows :: "nat \<Rightarrow> nat \<Rightarrow> nat \<Rightarrow> (int \<times> int) set" where
  "mm_rows n nthreads t \<equiv> rows (rownos n nthreads t) (rownos n nthreads t + n div nthreads)"

lemma rownos_disjoint:
  assumes "t \<noteq> u"
  shows "mm_rows n nthreads t \<inter> mm_rows n nthreads u = {}"
proof -
  let ?q = "n div nthreads"
  have "t * ?q + ?q \<le> u * ?q" if "t < u" for t u
    using mult_le_mono1[of "Suc t" u ?q] that by simp
  then have "t * ?q + ?q \<le> u * ?q \<or> u * ?q + ?q \<le> t * ?q" using assms by (metis nat_neq_iff)
  then have "int (t * ?q) + int ?q \<le> int (u * ?q) \<or> int (u * ?q) + int ?q \<le> int (t * ?q)" by linarith
  then show ?thesis by (auto simp: rownos_def simp del: of_nat_mult)
qed

interpretation mm: owners c_loads c_stores "\<lambda>_. None" "\<lambda>_ _. True" "mm_rows n nthreads"
  "\<lambda>t. threadfun n nthreads a b (rownos n nthreads t)" "\<lambda>_. 0"
  "\<lambda>t m. m = mul_into n a b {rownos n nthreads t..<rownos n nthreads t + n div nthreads} {0..<n} (\<lambda>_. 0)"
  for n nthreads a b
proof
  fix t u :: nat
  show "t \<noteq> u \<Longrightarrow> mm_rows n nthreads t \<inter> mm_rows n nthreads u = {}" by (rule rownos_disjoint)
  show "tracks (row_mon (rownos n nthreads t) (rownos n nthreads t + n div nthreads))
      (threadfun n nthreads a b (rownos n nthreads t))
      (\<lambda>_ m. m = mul_into n a b {rownos n nthreads t..<rownos n nthreads t + n div nthreads} {0..<n} (\<lambda>_. 0)) (\<lambda>_. 0)"
    unfolding threadfun_def
    by (rule tracks_seq[OF tracks_mono[OF tracks_mul_rows]])
      (auto intro!: tracks_emit emits_intros simp: own_mon_def)
qed

lemma tracks_prcs:
  "tracks (row_mon 0 n) (prcs_matrixmul_main n)
     (\<lambda>_ m. m = mul_into n mm_ones mm_ones {0..<n} {0..<n} (\<lambda>_. 0)) (\<lambda>_. 0)"
  unfolding prcs_matrixmul_main_def
  by (rule tracks_seq[OF tracks_mono[OF tracks_mul_rows]]) (auto intro!: tracks_ret emits_intros)

interpretation mm1: owners c_loads c_stores "\<lambda>_. None" "\<lambda>_ _. True" "\<lambda>t. if t = 0 then rows 0 n else {}"
  "\<lambda>t. if t = 0 then prcs_matrixmul_main n else ret 0" "\<lambda>_. 0"
  "\<lambda>t m. t = 0 \<longrightarrow> m = mul_into n mm_ones mm_ones {0..<n} {0..<n} (\<lambda>_. 0)"
  for n
proof
  fix t :: nat
  show "tracks (own_mon c_loads c_stores (\<lambda>_. None) (\<lambda>_. True) (if t = 0 then rows 0 n else {}))
      (if t = 0 then prcs_matrixmul_main n else ret 0)
      (\<lambda>_ m. t = 0 \<longrightarrow> m = mul_into n mm_ones mm_ones {0..<n} {0..<n} (\<lambda>_. 0)) (\<lambda>_. 0)"
  proof (cases "t = 0")
    case True
    show ?thesis unfolding if_P[OF True] by (rule tracks_mono[OF tracks_prcs]) simp
  next
    case False
    show ?thesis unfolding if_not_P[OF False] using False by (intro tracks_ret) simp
  qed
qed simp

lemma completed_cong: "(\<And>t. t < N \<Longrightarrow> m t = m' t) \<Longrightarrow> completed m N gs = completed m' N gs"
  by (simp add: completed_def)

lemma entry_ones: "entry n mm_ones mm_ones i j = int n"
  by (simp add: entry_def mm_ones_def)

lemma row_of:
  assumes "i < nthreads * (n div nthreads)"
  shows "\<exists>t<nthreads. rownos n nthreads t \<le> i \<and> i < rownos n nthreads t + n div nthreads"
proof (intro exI conjI)
  let ?q = "n div nthreads"
  have "0 < ?q" using assms by (cases "?q = 0") auto
  then show "i div ?q < nthreads" using assms by (simp add: less_mult_imp_div_less)
  show "rownos n nthreads (i div ?q) \<le> i" by (simp add: rownos_def)
  show "i < rownos n nthreads (i div ?q) + ?q"
    using \<open>0 < ?q\<close> dividend_less_div_times[of ?q i] by (simp add: rownos_def add.commute)
qed

lemma not_row_of:
  assumes "nthreads * (n div nthreads) \<le> i" "t < nthreads"
  shows "(int i, j) \<notin> mm_rows n nthreads t"
proof -
  have "Suc t * (n div nthreads) \<le> nthreads * (n div nthreads)" using assms(2) by (intro mult_le_mono1) simp
  then have "rownos n nthreads t + n div nthreads \<le> i" using assms(1) by (simp add: rownos_def)
  then show ?thesis by auto
qed

lemma thrd_product:
  assumes "completed (\<lambda>t. threadfun n nthreads a b (rownos n nthreads t)) nthreads gs"
    and "cells_run c_loads c_stores gs (\<lambda>_. 0) = Some c" and "j < n"
  shows "c (int i, int j) = (if i < nthreads * (n div nthreads) then entry n a b i j else 0)"
proof -
  have "mm.gains_own n nthreads gs" unfolding mm.gains_own_def by simp
  from mm.final_cells[OF assms(1) this assms(2)] have
    own: "\<And>t. t < nthreads \<Longrightarrow> (int i, int j) \<in> mm_rows n nthreads t \<Longrightarrow> c (int i, int j) =
      mul_into n a b {rownos n nthreads t..<rownos n nthreads t + n div nthreads} {0..<n} (\<lambda>_. 0) (int i, int j)"
    and rest: "(\<forall>t<nthreads. (int i, int j) \<notin> mm_rows n nthreads t) \<Longrightarrow> c (int i, int j) = 0" by blast+
  show ?thesis
  proof (cases "i < nthreads * (n div nthreads)")
    case True
    from row_of[OF this] obtain t where t: "t < nthreads" "rownos n nthreads t \<le> i" "i < rownos n nthreads t + n div nthreads" by blast
    then have "(int i, int j) \<in> mm_rows n nthreads t" by auto
    from own[OF t(1) this] t assms(3) True show ?thesis by (simp add: mul_into_def)
  next
    case False
    then have "\<forall>t<nthreads. (int i, int j) \<notin> mm_rows n nthreads t" using not_row_of[of nthreads n i] by simp
    with rest False show ?thesis by simp
  qed
qed

lemma prcs_product:
  assumes "completed (\<lambda>_. prcs_matrixmul_main n) 1 gs"
    and "cells_run c_loads c_stores gs (\<lambda>_. 0) = Some c" and "i < n" "j < n"
  shows "c (int i, int j) = int n"
proof -
  have "completed (\<lambda>t. if t = 0 then prcs_matrixmul_main n else ret 0) 1 gs"
    using assms(1) completed_cong[of 1 "\<lambda>t. if t = 0 then prcs_matrixmul_main n else ret 0" "\<lambda>_. prcs_matrixmul_main n"] by simp
  moreover have "mm1.gains_own n gs" unfolding mm1.gains_own_def by simp
  ultimately have "c (int i, int j) = mul_into n mm_ones mm_ones {0..<n} {0..<n} (\<lambda>_. 0) (int i, int j)"
    using mm1.final_cells[OF _ _ assms(2), of n 1] assms(3) by auto
  with assms(3,4) show ?thesis by (simp add: mul_into_def entry_ones)
qed

text \<open>
  With the sizes of the source the last eight rows are never computed, since 12
  threads take 170 rows each.
\<close>

lemma last_rows_missed:
  assumes "completed (\<lambda>t. threadfun 2048 12 mm_ones mm_ones (rownos 2048 12 t)) 12 gs"
    and "cells_run c_loads c_stores gs (\<lambda>_. 0) = Some c" and "j < 2048"
  shows "c (int i, int j) = (if i < 2040 then 2048 else 0)"
  using thrd_product[OF assms] by (simp add: entry_ones)

text \<open>
  C34: whatever the order in which the threads work, each entry of the result is the entry of the matrix product
  for every row that some thread was given, and 0 for the rows left over when the number of threads does
  not divide the size; the program with one process computes all rows.
\<close>

theorem matrix_product:
  "(completed (\<lambda>t. threadfun n nthreads a b (rownos n nthreads t)) nthreads gs \<and>
      cells_run c_loads c_stores gs (\<lambda>_. 0) = Some c \<longrightarrow>
    (\<forall>i<n. \<forall>j<n. c (int i, int j) = (if i < nthreads * (n div nthreads) then \<Sum>k<n. a i k * b k j else 0))) \<and>
   (completed (\<lambda>_. prcs_matrixmul_main n) 1 gs \<and> cells_run c_loads c_stores gs (\<lambda>_. 0) = Some c \<longrightarrow>
    (\<forall>i<n. \<forall>j<n. c (int i, int j) = int n))"
  using thrd_product[of n nthreads a b gs c] prcs_product[of n gs c] unfolding entry_def by blast

text \<open>Two threads on matrices of size 3: the third row is left at 0.\<close>

definition mm_script :: "reply list" where
  "mm_script = [Ret 0, Ret 1, Ret 2, Ret 0, Ret 1, Ret 2, Ret 0, Ret 1, Ret 2]"

definition mm_gs :: "gevent list" where
  "mm_gs = map (Pair 0) (trace (snd (threadfun 3 2 mm_ones mm_ones 0 (boot mm_script)))) @
     map (Pair 1) (trace (snd (threadfun 3 2 mm_ones mm_ones 1 (boot mm_script))))"

lemma mul_add_run:
  "i < n \<Longrightarrow> 0 \<le> v \<Longrightarrow> v < INT_MAX \<Longrightarrow> mul_add n mm_ones mm_ones i j k \<lparr>script = Ret v # rs, trace = tr, errno = e\<rparr> =
     (Val (), \<lparr>script = rs, trace = tr @ [Sys (Call ''load'' [S ''c'', I (int i), I (int j)]) (Ret v),
        Did ''store'' [S ''c'', I (int i), I (int j), I (v + 1)]], errno = e\<rparr>)"
  by (simp add: mul_add_def mm_ones_def run_defs answered_def c_limits ck_int_def)

lemma mm_run:
  assumes "p < 3"
  shows "threadfun 3 2 mm_ones mm_ones p (boot mm_script) = (Val (), \<lparr>script = [], trace =
    concat (map (\<lambda>j. concat (map (\<lambda>v. [Sys (Call ''load'' [S ''c'', I (int p), I j]) (Ret v),
      Did ''store'' [S ''c'', I (int p), I j, I (v + 1)]]) [0, 1, 2])) [0, 1, 2]) @ [Did ''pthread_exit'' [I 0]],
    errno = 0\<rparr>)"
proof -
  have "[p..<p + 3 div 2] = [p]" "[0..<3] = [0, 1, 2::nat]" by (simp_all add: upt_rec)
  with assms show ?thesis
    by (simp add: threadfun_def mul_rows_def mm_script_def boot_def seq_apply skip_apply emit_apply mul_add_run c_limits)
qed

lemma mm_gs_completed: "completed (\<lambda>t. threadfun 3 2 mm_ones mm_ones (rownos 3 2 t)) 2 mm_gs"
proof -
  have "\<exists>w y. trace w = [] \<and> events_of t mm_gs = trace (snd (threadfun 3 2 mm_ones mm_ones (rownos 3 2 t) w)) \<and>
      fst (threadfun 3 2 mm_ones mm_ones (rownos 3 2 t) w) = Val y" if "t < 2" for t
    using that by (intro exI[of _ "boot mm_script"] exI[of _ "()"]) (auto simp: mm_run mm_gs_def events_of_pair rownos_def less_2_cases_iff)
  then show ?thesis by (auto simp: completed_def mm_gs_def)
qed

lemma mm_gs_cells: "\<exists>c. cells_run c_loads c_stores mm_gs (\<lambda>_. 0) = Some c"
  by (simp add: mm_gs_def mm_run cell_event_def)

theorem matrix_product_witness:
  "\<exists>c. cells_run c_loads c_stores mm_gs (\<lambda>_. 0) = Some c \<and> c (1, 2) = 3 \<and> c (2, 0) = 0"
proof -
  obtain c where c: "cells_run c_loads c_stores mm_gs (\<lambda>_. 0) = Some c" using mm_gs_cells by blast
  have "\<forall>i<3. \<forall>j<3. c (int i, int j) = (if i < 2 * (3 div 2) then \<Sum>k<3. mm_ones i k * mm_ones k j else 0)"
    using matrix_product[of 3 2 mm_ones mm_ones mm_gs c] mm_gs_completed c by blast
  from this[rule_format, of 1 2] this[rule_format, of 2 0] c show ?thesis by (simp add: mm_ones_def)
qed

end
