(* ===== verification/Strerror.thy ===== *)
theory Strerror
  imports Cells
begin

text \<open>
  The implementations of \<open>strerror\<close> of \<^verbatim>\<open>src/pthreads/tlpi_TLS_TSD/tsd_and_tls\<close> and
  \<^verbatim>\<open>src/pthreads/tls_eg\<close>, which return a pointer to a static buffer, to one in
  thread-local storage or to one that is thread-specific data, and the programs that
  call them from two threads. A buffer is a cell of the memory, at its address; the
  table of messages of the C library is a parameter.
\<close>

section \<open>Definitions\<close>

abbreviation (input) MAX_ERROR_LEN :: nat where "MAX_ERROR_LEN \<equiv> 256"
abbreviation (input) EPERM :: int where "EPERM \<equiv> 1"

record errtab =
  sys_nerr :: int
  sys_errlist :: "int \<Rightarrow> string option"

definition unknown_err :: "errtab \<Rightarrow> int \<Rightarrow> bool" where
  "unknown_err T err \<longleftrightarrow> err < 0 \<or> sys_nerr T \<le> err \<or> sys_errlist T err = None"

text \<open>\<open>strncpy(buf, s, n)\<close> copies at most \<open>n\<close> characters and fills up with NUL.\<close>

definition strncpy :: "char list \<Rightarrow> string \<Rightarrow> nat \<Rightarrow> char list" where
  "strncpy buf s n = put 0 (take n (s @ replicate n NUL)) buf"

text \<open>What is in the buffer afterwards, when it has been \<open>buf\<close>.\<close>

definition strerror_fill :: "errtab \<Rightarrow> int \<Rightarrow> char list \<Rightarrow> char list" where
  "strerror_fill T err buf =
     (if unknown_err T err then
        put 0 (snprintf MAX_ERROR_LEN ''Unknown error %d'' [I err] @ [NUL]) buf
      else (strncpy buf (the (sys_errlist T err)) (MAX_ERROR_LEN - 1))[MAX_ERROR_LEN - 1 := NUL])"

abbreviation load_buf :: "int \<Rightarrow> reply prog" where "load_buf a \<equiv> syscall (Call ''load'' [I a])"
abbreviation store_buf :: "int \<Rightarrow> char list \<Rightarrow> unit prog" where "store_buf a s \<equiv> emit (Did ''store'' [I a, S s])"

text \<open>The bytes that are not written keep their value, so the buffer is read first.\<close>

definition strerror_at :: "errtab \<Rightarrow> int \<Rightarrow> int \<Rightarrow> int prog" where
  "strerror_at T buf err =
     bind (load_buf buf) (\<lambda>r. seq (store_buf buf (strerror_fill T err (payload r))) (ret buf))"

text \<open>The static buffer has one address, the thread-local one an address in each thread.\<close>

definition strerror_static :: "errtab \<Rightarrow> int \<Rightarrow> int \<Rightarrow> int prog" where
  "strerror_static T buf err = strerror_at T buf err"

definition strerror_tls :: "errtab \<Rightarrow> (nat \<Rightarrow> int) \<Rightarrow> nat \<Rightarrow> int \<Rightarrow> int prog" where
  "strerror_tls T buf self err = strerror_at T (buf self) err"

definition handleErr :: "string \<Rightarrow> bool \<Rightarrow> bool \<Rightarrow> unit prog" where
  "handleErr fn use_errno is_fatal =
     seq (eprintf (''%s: error!'' @ [LF]) [S fn])
       (seq (whenp use_errno (perror ''failed.'')) (whenp is_fatal (exit_prog EXIT_FAILURE)))"

definition destructor :: "int \<Rightarrow> unit prog" where
  "destructor buf = emit (Did ''free'' [I buf])"

abbreviation (input) KEY :: string where "KEY \<equiv> ''strerrorKey''"

definition createKey :: "unit prog" where
  "createKey =
     bind (syscall (Call ''pthread_key_create'' [S ''destructor''])) (\<lambda>r.
       if retval r \<noteq> 0 then handleErr ''pthread_key_create'' True True else store KEY (out 0 r))"

text \<open>The reply to \<open>pthread_once\<close> says whether this is the call that runs \<open>createKey\<close>.\<close>

definition strerror_once :: "unit prog" where
  "strerror_once =
     bind (syscall (Call ''pthread_once'' [S ''createKey''])) (\<lambda>r.
     seq (whenp (out 0 r = 1) createKey) (whenp (retval r \<noteq> 0) (handleErr ''pthread_once'' True True)))"

definition tsd_alloc :: "int prog" where
  "tsd_alloc =
     bind (icall (Call ''malloc'' [I (int MAX_ERROR_LEN)])) (\<lambda>buf.
     seq (whenp (buf = 0) (handleErr ''malloc'' False True))
       (bind (load KEY) (\<lambda>key.
        bind (icall (Call ''pthread_setspecific'' [I key, I buf])) (\<lambda>s.
        seq (whenp (s \<noteq> 0) (handleErr ''pthread_setspecific'' True True)) (ret buf)))))"

definition tsd_buffer :: "int prog" where
  "tsd_buffer =
     bind (load KEY) (\<lambda>key.
     bind (icall (Call ''pthread_getspecific'' [I key])) (\<lambda>buf. if buf = 0 then tsd_alloc else ret buf))"

definition strerror_tsd :: "errtab \<Rightarrow> int \<Rightarrow> int prog" where
  "strerror_tsd T err = seq strerror_once (bind tsd_buffer (\<lambda>buf. strerror_at T buf err))"

text \<open>When a thread ends, the library calls \<open>destructor\<close> on its buffer.\<close>

definition tsd_exit :: "unit prog" where
  "tsd_exit = bind (load KEY) (\<lambda>key.
     bind (icall (Call ''pthread_getspecific'' [I key])) (\<lambda>buf. whenp (buf \<noteq> 0) (destructor buf)))"


subsection \<open>The programs that call it from two threads\<close>

text \<open>Printing with \<open>%s\<close> reads the buffer up to its NUL.\<close>

definition show_str :: "string \<Rightarrow> arg list \<Rightarrow> int \<Rightarrow> unit prog" where
  "show_str fmt args str =
     bind (load_buf str) (\<lambda>r.
       if NUL \<in> set (payload r) then printf fmt (args @ [I str, S (cstr (payload r))])
       else stop (Undef ''string without end''))"

definition test_threadFunc :: "(int \<Rightarrow> int prog) \<Rightarrow> unit prog" where
  "test_threadFunc strerr =
     seq (printf (''Other thread about to call strerror()'' @ [LF]) [])
       (bind (strerr EPERM) (\<lambda>str. show_str (''Other thread: str (%p) = %s'' @ [LF]) [] str))"

definition test_main :: "(int \<Rightarrow> int prog) \<Rightarrow> unit prog" where
  "test_main strerr =
     bind (strerr EINVAL) (\<lambda>str.
     seq (printf (''Main thread has called strerror()'' @ [LF]) [])
       (bind (icall (Call ''pthread_create'' [S ''threadFunc''])) (\<lambda>s.
        seq (whenp (s \<noteq> 0) (handleErr ''pthread_create'' True True))
       (bind (icall (Call ''pthread_join'' [])) (\<lambda>s.
        seq (whenp (s \<noteq> 0) (handleErr ''pthread_create'' True True))
       (seq (show_str (''Main thread:  str (%p) = %s'' @ [LF]) [] str) (exit_prog EXIT_SUCCESS)))))))"

text \<open>
  The programs of \<^verbatim>\<open>tls_eg\<close> have \<open>strerror\<close> in the same file, and print the address
  of the buffer too; \<open>buf\<close> is the address in the thread that runs.
\<close>

definition eg_thrd_func :: "int \<Rightarrow> (int \<Rightarrow> int prog) \<Rightarrow> unit prog" where
  "eg_thrd_func buf strerr =
     bind (strerr ENOMEM) (\<lambda>str.
     seq (show_str (''%s: &buf = %p ; str (%p) = %s'' @ [LF]) [S ''thrd_func'', I buf] str)
       (emit (Did ''pthread_exit'' [I 0])))"

definition eg_main :: "int \<Rightarrow> (int \<Rightarrow> int prog) \<Rightarrow> int prog" where
  "eg_main buf strerr =
     bind (strerr EPERM) (\<lambda>str.
     seq (show_str (''main:      &buf = %p ; str (%p) = %s'' @ [LF]) [I buf] str)
       (bind (icall (Call ''pthread_attr_init'' [])) (\<lambda>_.
        bind (icall (Call ''pthread_attr_setdetachstate'' [S ''PTHREAD_CREATE_JOINABLE''])) (\<lambda>_.
        bind (icall (Call ''pthread_create'' [S ''thrd_func''])) (\<lambda>r.
        seq (whenp (r \<noteq> 0) (seq (perror ''p_c failed'') (exit_prog 1)))
       (bind (icall (Call ''pthread_join'' [])) (\<lambda>rc.
        seq (whenp (rc \<noteq> 0)
              (seq (printf (''ERROR; return code from pthread_join() is %d'' @ [LF]) [I rc]) (exit_prog 1)))
          (ret 0))))))))"


section \<open>Buffers\<close>

fun s_loads :: "(int, char list) access" where
  "s_loads (Sys (Call f [I a]) r) = (if f = ''load'' then Some (a, payload r) else None)"
| "s_loads e = None"

fun s_stores :: "(int, char list) access" where
  "s_stores (Did f [I a, S s]) = (if f = ''store'' then Some (a, s) else None)"
| "s_stores e = None"

definition strerror_msg :: "errtab \<Rightarrow> int \<Rightarrow> string" where
  "strerror_msg T err =
     (if unknown_err T err then snprintf MAX_ERROR_LEN ''Unknown error %d'' [I err]
      else take (MAX_ERROR_LEN - 1) (the (sys_errlist T err)))"

text \<open>The entries of the table are C strings.\<close>

definition errtab_ok :: "errtab \<Rightarrow> bool" where
  "errtab_ok T \<longleftrightarrow> (\<forall>err s. sys_errlist T err = Some s \<longrightarrow> NUL \<notin> set s)"

lemma unknown_error_fmt: "cformat ''Unknown error %d'' [I err] = ''Unknown error '' @ show_int err"
  by (simp add: cformat.simps parse_spec_def isdigit_def code_def pad_def)

lemma strerror_msg_not_NUL:
  assumes "errtab_ok T"
  shows "NUL \<notin> set (strerror_msg T err)"
proof (cases "unknown_err T err")
  case True
  have "NUL \<notin> set (''Unknown error '' @ show_int err)" using show_int_not_NUL by simp
  with True show ?thesis unfolding strerror_msg_def snprintf_def unknown_error_fmt by (auto dest: in_set_takeD)
next
  case False
  then obtain s where "sys_errlist T err = Some s" by (auto simp: unknown_err_def)
  with False assms show ?thesis by (auto simp: strerror_msg_def errtab_ok_def dest: in_set_takeD)
qed

text \<open>The buffer is its message, a NUL and the rest; its size does not change.\<close>

lemma strerror_fill_split:
  assumes "length buf = MAX_ERROR_LEN"
  shows "\<exists>rest. strerror_fill T err buf = strerror_msg T err @ NUL # rest \<and> length (strerror_fill T err buf) = MAX_ERROR_LEN"
proof (cases "unknown_err T err")
  case True
  let ?s = "snprintf 256 ''Unknown error %d'' [I err]"
  have "length ?s < 256" by (rule length_snprintf) simp
  then have "length (put 0 (?s @ [NUL]) buf) = 256" using assms by (subst length_put) auto
  with True show ?thesis by (simp add: strerror_fill_def strerror_msg_def put_def)
next
  case False
  let ?s = "the (sys_errlist T err)"
  obtain b where b: "drop 255 buf = [b]" using assms by (cases "drop 255 buf") (auto dest: arg_cong[of _ _ length])
  have "strncpy buf ?s 255 = take 255 ?s @ replicate (255 - length ?s) NUL @ [b]"
    unfolding strncpy_def put_def using b by (simp add: min_def)
  moreover have "(take 255 ?s @ replicate (255 - length ?s) NUL @ [b])[255 := NUL] = take 255 ?s @ replicate (255 - length ?s) NUL @ [NUL]"
    by (simp add: list_update_append min_def)
  ultimately have "strerror_fill T err buf = take 255 ?s @ replicate (255 - length ?s) NUL @ [NUL]"
    using False by (simp add: strerror_fill_def)
  moreover have "replicate k NUL @ [NUL] = NUL # replicate k NUL" for k by (simp add: replicate_append_same)
  ultimately show ?thesis using False by (simp add: strerror_msg_def min_def)
qed

lemma strerror_fill_cstr:
  "errtab_ok T \<Longrightarrow> length buf = MAX_ERROR_LEN \<Longrightarrow> cstr (strerror_fill T err buf) = strerror_msg T err"
  using strerror_fill_split[of buf T err] strerror_msg_not_NUL[of T err] by (auto simp: cstr_append_NUL)

lemma strerror_fill_typed:
  assumes "length buf = MAX_ERROR_LEN"
  shows "length (strerror_fill T err buf) = MAX_ERROR_LEN" "NUL \<in> set (strerror_fill T err buf)"
  using strerror_fill_split[OF assms, of T err] by auto


section \<open>Types\<close>

text \<open>
  The type of the memory: every buffer has 256 bytes. A thread keeps to it when
  it stores only buffers of that size, which moreover end in a NUL; the state is
  the set of addresses it has stored to.
\<close>

definition typed :: "(int \<Rightarrow> char list) \<Rightarrow> bool" where
  "typed m \<longleftrightarrow> (\<forall>a. length (m a) = MAX_ERROR_LEN)"

definition typed_mon :: "int set monitor" where
  "typed_mon e A =
     (case s_loads e of
        Some (a, s) \<Rightarrow> if length s = MAX_ERROR_LEN then At A else Broken
      | None \<Rightarrow> (case s_stores e of
          Some (a, s) \<Rightarrow> if length s = MAX_ERROR_LEN \<and> NUL \<in> set s then At (insert a A) else Wrong
        | None \<Rightarrow> At A))"

locale typed_users =
  fixes thread :: "nat \<Rightarrow> int prog"
  assumes well_typed: "tracks typed_mon (thread t) (\<lambda>p A. p \<in> A) {}"
begin

lemma sound:
  "runs_of thread gs \<Longrightarrow> typed m0 \<Longrightarrow> cells_run s_loads s_stores gs m0 = Some m \<Longrightarrow>
   typed m \<and> (\<exists>A. \<forall>t. mrun typed_mon (events_of t gs) {} = At (A t) \<and> (\<forall>a\<in>A t. NUL \<in> set (m a)))"
proof (induction gs arbitrary: m rule: rev_induct)
  case Nil
  then show ?case by (auto intro: exI[of _ "\<lambda>_. {}"])
next
  case (snoc g gs)
  obtain u e where g: "g = (u, e)" by (cases g)
  from snoc.prems(3) obtain m1 where m1: "cells_run s_loads s_stores gs m0 = Some m1" "cell_event s_loads s_stores e m1 = Some m"
    by (auto simp: cells_run_append g split: option.splits)
  have "runs_of thread gs" using snoc.prems(1) unfolding runs_of_def by (fastforce dest: append_prefixD)
  from snoc.IH[OF this snoc.prems(2) m1(1)] obtain A where ih: "typed m1"
    "\<forall>t. mrun typed_mon (events_of t gs) {} = At (A t) \<and> (\<forall>a\<in>A t. NUL \<in> set (m1 a))" by blast
  have "mrun typed_mon (events_of u (gs @ [g])) {} \<noteq> Wrong" using snoc.prems(1) well_typed by (rule runs_not_wrong)
  then have ok: "typed_mon e (A u) \<noteq> Wrong" using spec[OF ih(2), of u] by (auto simp: g mrun_append)
  have "\<exists>B. typed_mon e (A u) = At B \<and> typed m \<and> (\<forall>a\<in>B. a \<in> A u \<or> NUL \<in> set (m a)) \<and> (\<forall>a. NUL \<in> set (m1 a) \<longrightarrow> NUL \<in> set (m a))"
    using ok ih(1) m1(2) by (auto simp: typed_mon_def cell_event_def typed_def split: option.splits if_splits)
  then obtain B where B: "typed_mon e (A u) = At B" "typed m" "\<forall>a\<in>B. a \<in> A u \<or> NUL \<in> set (m a)"
    "\<forall>a. NUL \<in> set (m1 a) \<longrightarrow> NUL \<in> set (m a)" by blast
  have "mrun typed_mon (events_of t (gs @ [g])) {} = At ((A(u := B)) t) \<and> (\<forall>a\<in>(A(u := B)) t. NUL \<in> set (m a))" for t
    using spec[OF ih(2), of t] B(1,3,4) by (cases "t = u") (auto simp: g mrun_append)
  with B(2) show ?case by blast
qed

text \<open>A pointer that a thread has got back points to a string.\<close>

lemma returned:
  assumes "runs_of thread gs" and "typed m0" and "cells_run s_loads s_stores gs m0 = Some m"
    and "trace w = []" and "thread t w = (Val p, v)" and "events_of t gs = trace v"
  shows "NUL \<in> set (m p)"
proof -
  from sound[OF assms(1-3)] obtain A where A: "mrun typed_mon (events_of t gs) {} = At (A t)" "\<forall>a\<in>A t. NUL \<in> set (m a)" by blast
  from well_typed assms(5) obtain es where es: "trace v = trace w @ es"
    "\<forall>x. Val p = Val x \<longrightarrow> holds (\<lambda>A. x \<in> A) (mrun typed_mon es {})" by (rule tracksE)
  with assms(4,6) A show ?thesis by auto
qed

end

text \<open>Events that do not touch a buffer, and the parts of the programs that have no others.\<close>

definition plain :: "event \<Rightarrow> bool" where
  "plain e \<longleftrightarrow> s_loads e = None \<and> s_stores e = None"

lemma plain_handleErr: "emits plain (handleErr fn b c)"
  unfolding handleErr_def by (intro emits_intros) (simp_all add: plain_def)

lemma plain_once: "emits plain strerror_once"
  unfolding strerror_once_def createKey_def by (intro emits_intros plain_handleErr) (simp_all add: plain_def)

lemma plain_buffer: "emits plain tsd_buffer"
  unfolding tsd_buffer_def tsd_alloc_def by (intro emits_intros plain_handleErr) (simp_all add: plain_def)

lemma typed_plain: "emits plain m \<Longrightarrow> tracks typed_mon m (\<lambda>_ B. B = A) A"
  by (rule tracks_silent) (auto elim: emits_mono simp: plain_def typed_mon_def)

lemma appends_plain: "emits plain m \<Longrightarrow> appends m"
  by (erule emits_mono) simp

lemma appends_strerror_at: "appends (strerror_at T buf err)"
  unfolding strerror_at_def by (intro emits_intros TrueI)

lemma appends_strerror:
  "appends (strerror_static T buf err)" "appends (strerror_tls T bufs self err)" "appends (strerror_tsd T err)"
  unfolding strerror_static_def strerror_tls_def strerror_tsd_def
  by (intro emits_intros TrueI appends_strerror_at appends_plain[OF plain_once] appends_plain[OF plain_buffer])+

lemma typed_strerror_at: "tracks typed_mon (strerror_at T buf err) (\<lambda>p A. p \<in> A) A"
  unfolding strerror_at_def
  by (intro tracks_bind_wp tracks_syscall emits_intros TrueI)
    (auto simp: typed_mon_def strerror_fill_typed intro!: tracks_seq tracks_emit tracks_ret emits_intros)

lemma typed_strerror_tsd: "tracks typed_mon (strerror_tsd T err) (\<lambda>p A. p \<in> A) A"
  unfolding strerror_tsd_def
  by (intro tracks_seq tracks_mono[OF typed_plain[OF plain_once]] tracks_bind_wp tracks_mono[OF typed_plain[OF plain_buffer]]
      typed_strerror_at emits_intros TrueI appends_strerror_at appends_plain[OF plain_buffer])

interpretation ty_static: typed_users "\<lambda>t. strerror_static T buf (err t)" for T buf err
  by unfold_locales (unfold strerror_static_def, rule typed_strerror_at)

interpretation ty_tls: typed_users "\<lambda>t. strerror_tls T buf t (err t)" for T buf err
  by unfold_locales (unfold strerror_tls_def, rule typed_strerror_at)

interpretation ty_tsd: typed_users "\<lambda>t. strerror_tsd T (err t)" for T err
  by unfold_locales (rule typed_strerror_tsd)



section \<open>Threads with buffers of their own\<close>

text \<open>With \<open>dyn\<close>, a thread gets the address of its buffer from \<open>malloc\<close> or from the thread-specific data.\<close>

fun s_gains :: "bool \<Rightarrow> event \<Rightarrow> int option" where
  "s_gains dyn (Sys (Call f args) r) =
     (if dyn \<and> (f = ''malloc'' \<or> f = ''pthread_getspecific'') \<and> retval r \<noteq> 0 then Some (retval r) else None)"
| "s_gains dyn e = None"

text \<open>What a thread prints of a buffer is the message of \<open>err\<close>.\<close>

fun says :: "errtab \<Rightarrow> int \<Rightarrow> event \<Rightarrow> bool" where
  "says T err (Out n f [I p, S s]) \<longleftrightarrow> s = strerror_msg T err"
| "says T err e \<longleftrightarrow> True"

abbreviation buf_mon :: "bool \<Rightarrow> (event \<Rightarrow> bool) \<Rightarrow> int set \<Rightarrow> (int \<Rightarrow> char list) monitor" where
  "buf_mon dyn ok own \<equiv> own_mon s_loads s_stores (s_gains dyn) ok own"

definition has_msg :: "errtab \<Rightarrow> int \<Rightarrow> int set \<Rightarrow> int \<Rightarrow> (int \<Rightarrow> char list) \<Rightarrow> bool" where
  "has_msg T err own p m \<longleftrightarrow> p \<in> own \<and> typed m \<and> NUL \<in> set (m p) \<and> cstr (m p) = strerror_msg T err"

lemma own_strerror_at:
  assumes "errtab_ok T" "buf \<in> own" "typed m"
  shows "tracks (buf_mon dyn (says T err) own) (strerror_at T buf err) (\<lambda>p. has_msg T err own p) m"
  unfolding strerror_at_def
proof (intro tracks_bind_wp tracks_syscall emits_intros TrueI)
  fix r
  have "tracks (buf_mon dyn (says T err) own) (seq (store_buf buf (strerror_fill T err (m buf))) (ret buf))
      (\<lambda>p. has_msg T err own p) m"
    using assms by (intro tracks_seq tracks_emit emits_intros TrueI)
      (simp add: own_mon_def, intro tracks_ret, simp add: has_msg_def typed_def strerror_fill_typed strerror_fill_cstr)
  then show "holds (\<lambda>m. tracks (buf_mon dyn (says T err) own)
      (seq (store_buf buf (strerror_fill T err (payload r))) (ret buf)) (\<lambda>p. has_msg T err own p) m)
      (buf_mon dyn (says T err) own (Sys (Call ''load'' [I buf]) r) m)"
    using assms(2) by (cases "m buf = payload r") (simp_all add: own_mon_def)
qed (simp add: own_mon_def)

lemma own_show:
  assumes "has_msg T err own p m"
  shows "tracks (buf_mon dyn (says T err) own) (show_str fmt [] p) (\<lambda>_ m'. m' = m) m"
  unfolding show_str_def
  by (rule tracks_bind_wp, rule tracks_syscall)
    (use assms in \<open>auto simp: own_mon_def has_msg_def intro!: tracks_emit emits_intros\<close>)

text \<open>Events that are of no concern to the monitor.\<close>

definition aside :: "bool \<Rightarrow> event \<Rightarrow> bool" where
  "aside dyn e \<longleftrightarrow> s_loads e = None \<and> s_stores e = None \<and> s_gains dyn e = None \<and> (\<forall>T err. says T err e)"

lemma own_aside: "emits (aside dyn) m \<Longrightarrow> tracks (buf_mon dyn (says T err) own) m (\<lambda>_ v'. v' = v) v"
  by (rule tracks_silent) (auto elim: emits_mono simp: aside_def own_mon_def)

lemma appends_aside: "emits (aside dyn) m \<Longrightarrow> appends m"
  by (erule emits_mono) simp

lemma aside_handleErr: "emits (aside dyn) (handleErr fn b c)"
  unfolding handleErr_def by (intro emits_intros) (simp_all add: aside_def)

lemma aside_once: "emits (aside dyn) strerror_once"
  unfolding strerror_once_def createKey_def by (intro emits_intros aside_handleErr) (simp_all add: aside_def)

lemma own_fatal: "tracks (buf_mon dyn (says T err) own) (handleErr fn b True) Q m"
  unfolding handleErr_def
  by (rule tracks_wp TrueI | (intro emits_intros TrueI; fail) | simp add: own_mon_def)+

lemma own_buffer:
  "0 \<notin> own \<Longrightarrow> tracks (buf_mon True (says T err) own) tsd_buffer (\<lambda>p m'. p \<in> own \<and> m' = m) m"
  unfolding tsd_buffer_def tsd_alloc_def
  by (rule tracks_wp TrueI impI conjI own_fatal
      | (intro emits_intros TrueI appends_aside[OF aside_handleErr]; fail) | simp add: own_mon_def)+

lemma own_strerror_tsd:
  assumes "errtab_ok T" "0 \<notin> own" "typed m"
  shows "tracks (buf_mon True (says T err) own) (strerror_tsd T err) (\<lambda>p. has_msg T err own p) m"
  unfolding strerror_tsd_def
proof (rule tracks_seq[OF tracks_mono[OF own_aside[OF aside_once]]])
  fix m' assume "m' = m"
  with assms show "tracks (buf_mon True (says T err) own) (bind tsd_buffer (\<lambda>buf. strerror_at T buf err))
      (\<lambda>p. has_msg T err own p) m'"
    by (intro tracks_bind[OF own_buffer] appends_strerror_at) (auto intro: own_strerror_at)
qed (intro emits_intros appends_strerror_at appends_plain[OF plain_buffer])

text \<open>The two threads of the test, with what happens when the second one ends.\<close>

definition test_threads :: "(nat \<Rightarrow> int \<Rightarrow> int prog) \<Rightarrow> unit prog \<Rightarrow> nat \<Rightarrow> unit prog" where
  "test_threads strerr at_exit t =
     (if t = 0 then test_main (strerr 0)
      else if t = 1 then seq (test_threadFunc (strerr 1)) at_exit else skip)"

definition test_err :: "nat \<Rightarrow> int" where "test_err t = (if t = 0 then EINVAL else EPERM)"

lemma appends_show: "appends (show_str fmt args p)"
  unfolding show_str_def by (intro emits_intros TrueI)

lemma own_test_main:
  assumes "tracks (buf_mon dyn (says T EINVAL) own) (strerr EINVAL) (\<lambda>p. has_msg T EINVAL own p) m" and "\<And>e. appends (strerr e)"
  shows "tracks (buf_mon dyn (says T EINVAL) own) (test_main strerr) (\<lambda>_ _. True) m"
  unfolding test_main_def
  by (rule tracks_mono[OF assms(1)] tracks_mono[OF own_show] tracks_wp TrueI impI conjI own_fatal
      | (intro emits_intros TrueI appends_show appends_aside[OF aside_handleErr]; fail) | assumption | simp add: own_mon_def)+

lemma own_test_threadFunc:
  assumes "tracks (buf_mon dyn (says T EPERM) own) (strerr EPERM) (\<lambda>p. has_msg T EPERM own p) m" and "\<And>e. appends (strerr e)"
    and "\<And>m. tracks (buf_mon dyn (says T EPERM) own) at_exit (\<lambda>_ _. True) m" and "appends at_exit"
  shows "tracks (buf_mon dyn (says T EPERM) own) (seq (test_threadFunc strerr) at_exit) (\<lambda>_ _. True) m"
proof -
  have "tracks (buf_mon dyn (says T EPERM) own) (bind (strerr EPERM) (\<lambda>str. show_str (''Other thread: str (%p) = %s'' @ [LF]) [] str))
      (\<lambda>_ _. True) m"
    by (rule tracks_bind[OF assms(1)]) (auto intro: tracks_mono[OF own_show] appends_show)
  then have "tracks (buf_mon dyn (says T EPERM) own) (test_threadFunc strerr) (\<lambda>_ _. True) m"
    unfolding test_threadFunc_def
    by (intro tracks_seq tracks_emit emits_intros assms(2) appends_show) (simp add: own_mon_def)
  then show ?thesis by (intro tracks_seq assms(4)) (erule tracks_mono, rule assms(3))
qed

lemma own_tsd_exit: "tracks (buf_mon True (says T err) own) tsd_exit (\<lambda>_ _. True) m"
  unfolding tsd_exit_def destructor_def
  by (rule tracks_wp TrueI impI conjI | (intro emits_intros TrueI; fail) | simp add: own_mon_def)+

lemma appends_tsd_exit: "appends tsd_exit"
  unfolding tsd_exit_def destructor_def by (intro emits_intros TrueI)

lemma own_test_threads:
  assumes "\<And>t. t < 2 \<Longrightarrow> tracks (buf_mon dyn (says T (test_err t)) (own t)) (strerr t (test_err t)) (\<lambda>p. has_msg T (test_err t) (own t) p) m"
    and "\<And>t e. appends (strerr t e)" and "\<And>m. tracks (buf_mon dyn (says T EPERM) (own 1)) at_exit (\<lambda>_ _. True) m" and "appends at_exit"
  shows "tracks (buf_mon dyn (says T (test_err t)) (own t)) (test_threads strerr at_exit t) (\<lambda>_ _. True) m"
proof -
  consider "t = 0" | "t = 1" | "2 \<le> t" by linarith
  then show ?thesis
  proof cases
    case 1
    with own_test_main[where strerr = "strerr 0", OF assms(1)[of 0, unfolded test_err_def, simplified]] assms(2) show ?thesis by (simp add: test_threads_def test_err_def)
  next
    case 2
    have "tracks (buf_mon dyn (says T EPERM) (own 1)) (strerr 1 EPERM) (\<lambda>p. has_msg T EPERM (own 1) p) m"
      using assms(1)[of 1] by (simp add: test_err_def)
    from own_test_threadFunc[where strerr = "strerr 1", OF this assms(2-4)] 2 show ?thesis
      by (simp add: test_threads_def test_err_def)
  next
    case 3
    then show ?thesis by (simp add: test_threads_def tracks_skip)
  qed
qed


section \<open>What is printed\<close>

lemma tls_owners:
  assumes "errtab_ok T" "inj buf" "typed m0"
  shows "owners s_loads s_stores (s_gains False) (\<lambda>t. says T (test_err t)) (\<lambda>t. {buf t})
    (test_threads (strerror_tls T buf) skip) m0 (\<lambda>_ _. True)"
proof
  fix t u :: nat
  show "t \<noteq> u \<Longrightarrow> {buf t} \<inter> {buf u} = {}" using assms(2) by (auto dest: injD)
  show "tracks (buf_mon False (says T (test_err t)) {buf t}) (test_threads (strerror_tls T buf) skip t) (\<lambda>_ m. True) m0"
    by (rule own_test_threads[where own = "\<lambda>t. {buf t}"])
      (auto simp: strerror_tls_def assms intro: own_strerror_at appends_strerror_at tracks_skip emits_intros)
qed

lemma tsd_owners:
  assumes "errtab_ok T" "\<And>t. 0 \<notin> own t" "\<And>t u. t \<noteq> u \<Longrightarrow> own t \<inter> own u = {}" "typed m0"
  shows "owners s_loads s_stores (s_gains True) (\<lambda>t. says T (test_err t)) own
    (test_threads (\<lambda>_. strerror_tsd T) tsd_exit) m0 (\<lambda>_ _. True)"
proof
  fix t u :: nat
  show "t \<noteq> u \<Longrightarrow> own t \<inter> own u = {}" by (rule assms(3))
  show "tracks (buf_mon True (says T (test_err t)) (own t)) (test_threads (\<lambda>_. strerror_tsd T) tsd_exit t) (\<lambda>_ m. True) m0"
    by (rule own_test_threads) (auto simp: assms intro: own_strerror_tsd appends_strerror own_tsd_exit appends_tsd_exit)
qed

text \<open>
  The promises of the library about addresses: different threads get different
  addresses from \<open>malloc\<close>, and \<open>pthread_getspecific\<close> returns NULL or what the same
  thread has set before.
\<close>

definition mallocs :: "nat \<Rightarrow> gevent list \<Rightarrow> int set" where
  "mallocs t gs = {p. p \<noteq> 0 \<and> (\<exists>args r. (t, Sys (Call ''malloc'' args) r) \<in> set gs \<and> retval r = p)}"

definition malloc_fresh :: "gevent list \<Rightarrow> bool" where
  "malloc_fresh gs \<longleftrightarrow> (\<forall>t u. t \<noteq> u \<longrightarrow> mallocs t gs \<inter> mallocs u gs = {})"

definition tsd_kept :: "gevent list \<Rightarrow> bool" where
  "tsd_kept gs \<longleftrightarrow> (\<forall>t args r. (t, Sys (Call ''pthread_getspecific'' args) r) \<in> set gs \<and> retval r \<noteq> 0 \<longrightarrow>
     (\<exists>key r'. (t, Sys (Call ''pthread_setspecific'' [I key, I (retval r)]) r') \<in> set gs))"

text \<open>What a thread sets is what it has got from \<open>malloc\<close>.\<close>

definition set_mon :: "int set monitor" where
  "set_mon e A = (case e of
      Sys (Call f args) r \<Rightarrow>
        if f = ''malloc'' then At (insert (retval r) A)
        else if f = ''pthread_setspecific'' \<and> args \<noteq> [] \<and> (case last args of I p \<Rightarrow> p = 0 \<or> p \<notin> A | _ \<Rightarrow> True) then Wrong
        else At A
    | _ \<Rightarrow> At A)"

lemma mrun_set_mon:
  "mrun set_mon es A = At B \<Longrightarrow> B \<subseteq> A \<union> {retval r | args r. Sys (Call ''malloc'' args) r \<in> set es}"
proof (induction es arbitrary: A)
  case (Cons e es)
  then obtain C where C: "set_mon e A = At C" "mrun set_mon es C = At B" by (auto split: verdict.splits)
  from C(1) have "C \<subseteq> A \<union> {retval r | args r. Sys (Call ''malloc'' args) r = e}"
    by (auto simp: set_mon_def split: event.splits call.splits if_splits)
  with Cons.IH[OF C(2)] show ?case unfolding list.set by blast
qed simp

lemma set_mon_ok:
  assumes "mrun set_mon es {} \<noteq> Wrong" and "Sys (Call ''pthread_setspecific'' [k, I p]) r' \<in> set es"
  shows "p \<noteq> 0 \<and> (\<exists>args r. Sys (Call ''malloc'' args) r \<in> set es \<and> retval r = p)"
proof -
  from assms(2) obtain xs ys where es: "es = xs @ Sys (Call ''pthread_setspecific'' [k, I p]) r' # ys" by (meson split_list)
  have never: "set_mon e A \<noteq> Broken" for e A by (auto simp: set_mon_def split: event.splits call.splits if_splits)
  have "mrun set_mon xs A \<noteq> Broken" for A by (induction xs arbitrary: A) (auto simp: never split: verdict.splits)
  with assms(1) obtain B where B: "mrun set_mon xs {} = At B" by (auto simp: es mrun_append split: verdict.splits)
  with assms(1) have "p \<noteq> 0 \<and> p \<in> B" by (auto simp: es mrun_append set_mon_def split: if_splits)
  with mrun_set_mon[OF B] show ?thesis by (fastforce simp: es)
qed

definition unset :: "event \<Rightarrow> bool" where "unset e \<longleftrightarrow> (\<forall>A. set_mon e A = At A)"

lemma set_unset: "emits unset m \<Longrightarrow> tracks set_mon m (\<lambda>_ B. B = A) A"
  by (rule tracks_silent) (auto elim: emits_mono simp: unset_def)

lemma unset_handleErr: "emits unset (handleErr fn b c)"
  unfolding handleErr_def by (intro emits_intros) (simp_all add: unset_def set_mon_def)

lemma unset_parts:
  "emits unset strerror_once" "emits unset (strerror_at T buf err)" "emits unset (show_str fmt args p)" "emits unset tsd_exit"
  unfolding strerror_once_def createKey_def strerror_at_def show_str_def tsd_exit_def destructor_def
  by (intro emits_intros unset_handleErr; simp add: unset_def set_mon_def)+

lemma set_fatal: "tracks set_mon (handleErr fn b True) Q m"
  unfolding handleErr_def
  by (rule tracks_wp TrueI | (intro emits_intros TrueI; fail) | simp add: set_mon_def)+

lemma set_buffer: "tracks set_mon tsd_buffer (\<lambda>_ _. True) A"
  unfolding tsd_buffer_def tsd_alloc_def
  by (rule tracks_wp TrueI impI conjI set_fatal
      | (intro emits_intros TrueI appends_aside[OF aside_handleErr]; fail) | simp add: set_mon_def)+

lemma set_strerror: "tracks set_mon (strerror_tsd T err) (\<lambda>_ _. True) A"
  unfolding strerror_tsd_def
proof (intro tracks_seq tracks_mono[OF set_unset[OF unset_parts(1)]])
  fix B
  show "tracks set_mon (bind tsd_buffer (\<lambda>buf. strerror_at T buf err)) (\<lambda>_ _. True) B"
    by (rule tracks_bind[OF set_buffer]) (auto intro: tracks_mono[OF set_unset[OF unset_parts(2)]] appends_strerror_at)
qed (intro emits_intros appends_strerror_at appends_plain[OF plain_buffer])

lemma set_test_threads: "tracks set_mon (test_threads (\<lambda>_. strerror_tsd T) tsd_exit t) (\<lambda>_ _. True) A"
proof -
  have main: "emits unset (seq (printf (''Main thread has called strerror()'' @ [LF]) [])
      (bind (icall (Call ''pthread_create'' [S ''threadFunc''])) (\<lambda>s.
        seq (whenp (s \<noteq> 0) (handleErr ''pthread_create'' True True))
       (bind (icall (Call ''pthread_join'' [])) (\<lambda>s.
        seq (whenp (s \<noteq> 0) (handleErr ''pthread_create'' True True))
       (seq (show_str (''Main thread:  str (%p) = %s'' @ [LF]) [] str) (exit_prog EXIT_SUCCESS)))))))" for str
    by (intro emits_intros unset_handleErr unset_parts) (simp_all add: unset_def set_mon_def)
  have "tracks set_mon (test_main (strerror_tsd T)) (\<lambda>_ _. True) A" unfolding test_main_def
    by (rule tracks_bind[OF set_strerror])
      (use main emits_mono[OF main, of "\<lambda>_. True"] in \<open>auto intro: tracks_mono[OF set_unset]\<close>)
  moreover have "tracks set_mon (seq (test_threadFunc (strerror_tsd T)) tsd_exit) (\<lambda>_ _. True) A"
    unfolding test_threadFunc_def
    by (intro tracks_seq tracks_emit emits_intros appends_strerror appends_show appends_tsd_exit tracks_bind[OF set_strerror]
        tracks_mono[OF set_unset[OF unset_parts(3)]] tracks_mono[OF set_unset[OF unset_parts(4)]] TrueI)
      (simp add: set_mon_def, intro tracks_bind[OF set_strerror] appends_show tracks_mono[OF set_unset[OF unset_parts(3)]]
        tracks_mono[OF set_unset[OF unset_parts(4)]] TrueI)
  ultimately show ?thesis by (auto simp: test_threads_def intro: tracks_skip)
qed

lemma own_message:
  assumes "owners s_loads s_stores (s_gains dyn) (\<lambda>t. says T (test_err t)) own (test_threads strerr at_exit) m0 (\<lambda>_ _. True)"
    and "\<forall>(t, e) \<in> set gs. \<forall>k. s_gains dyn e = Some k \<longrightarrow> k \<in> own t"
    and "runs_of (test_threads strerr at_exit) gs" "cells_run s_loads s_stores gs m0 = Some m" "(t, Out n f [I p, S s]) \<in> set gs"
  shows "s = strerror_msg T (test_err t)"
proof -
  have "owners.gains_own (s_gains dyn) own gs" unfolding owners.gains_own_def[OF assms(1)] by (rule assms(2))
  from owners.expected[OF assms(1,3) this assms(4,5)] show ?thesis by simp
qed

lemma tsd_gains_own:
  assumes "tsd_kept gs" and "runs_of (test_threads (\<lambda>_. strerror_tsd T) tsd_exit) gs"
  shows "\<forall>(t, e) \<in> set gs. \<forall>k. s_gains True e = Some k \<longrightarrow> k \<in> mallocs t gs"
proof (clarify)
  fix t e k assume e: "(t, e) \<in> set gs" "s_gains True e = Some k"
  then obtain f args r where f: "e = Sys (Call f args) r" "retval r = k" "k \<noteq> 0" "f = ''malloc'' \<or> f = ''pthread_getspecific''"
    by (cases "(True, e)" rule: s_gains.cases) (auto split: if_splits)
  show "k \<in> mallocs t gs"
  proof (cases "f = ''malloc''")
    case True
    with e f show ?thesis by (auto simp: mallocs_def)
  next
    case False
    with e f assms(1) obtain key r' where "(t, Sys (Call ''pthread_setspecific'' [I key, I k]) r') \<in> set gs"
      unfolding tsd_kept_def by blast
    then have "Sys (Call ''pthread_setspecific'' [I key, I k]) r' \<in> set (events_of t gs)" by (force simp: events_of_def)
    from set_mon_ok[OF runs_not_wrong[OF assms(2) set_test_threads] this] f(3) show ?thesis
      by (auto simp: mallocs_def events_of_def) blast
  qed
qed

lemma tls_message:
  assumes "errtab_ok T" "typed m0" "inj buf" "runs_of (test_threads (strerror_tls T buf) skip) gs"
    "cells_run s_loads s_stores gs m0 = Some m" "(t, Out n f [I p, S s]) \<in> set gs"
  shows "s = strerror_msg T (test_err t)"
proof -
  have "s_gains False e = None" for e by (cases "(False, e)" rule: s_gains.cases) simp_all
  then show ?thesis by (intro own_message[OF tls_owners[OF assms(1,3,2)] _ assms(4-6)]) simp
qed

lemma tsd_message:
  assumes "errtab_ok T" "typed m0" "malloc_fresh gs" "tsd_kept gs" "runs_of (test_threads (\<lambda>_. strerror_tsd T) tsd_exit) gs"
    "cells_run s_loads s_stores gs m0 = Some m" "(t, Out n f [I p, S s]) \<in> set gs"
  shows "s = strerror_msg T (test_err t)"
proof (rule own_message[OF tsd_owners[where own = "\<lambda>t. mallocs t gs", OF assms(1) _ _ assms(2)] tsd_gains_own[OF assms(4,5)] assms(5-7)])
  show "0 \<notin> mallocs t gs" for t by (simp add: mallocs_def)
  show "t \<noteq> u \<Longrightarrow> mallocs t gs \<inter> mallocs u gs = {}" for t u using assms(3) by (simp add: malloc_fresh_def)
qed

text \<open>
  C36: with the thread-local and with the thread-specific buffer each thread prints the message of the
  error it asked for, in every interleaving: the first thread that of \<open>EINVAL\<close>, the other one that of \<open>EPERM\<close>. For
  the thread-specific buffer this needs \<open>malloc\<close> to return memory nobody else has and the library to keep the value of the key for each
  thread.
\<close>

theorem strerror_own_message:
  assumes "errtab_ok T" and "typed m0" and "cells_run s_loads s_stores gs m0 = Some m"
    and "inj buf \<and> runs_of (test_threads (strerror_tls T buf) skip) gs \<or>
      malloc_fresh gs \<and> tsd_kept gs \<and> runs_of (test_threads (\<lambda>_. strerror_tsd T) tsd_exit) gs"
    and "(t, Out n f [I p, S s]) \<in> set gs"
  shows "s = strerror_msg T (if t = 0 then EINVAL else EPERM)"
  using tls_message[OF assms(1,2) _ _ assms(3,5)] tsd_message[OF assms(1,2) _ _ _ assms(3,5)] assms(4)
  unfolding test_err_def by blast


subsection \<open>The static buffer\<close>

text \<open>The two traces, when both threads have printed their string.\<close>

lemma static_other_trace:
  assumes "test_threadFunc (strerror_static T buf) w = (Val x, v)" "trace w = []"
  shows "\<exists>r r'. trace v = [Out 1 (''Other thread about to call strerror()'' @ [LF]) [], Sys (Call ''load'' [I buf]) r,
    Did ''store'' [I buf, S (strerror_fill T EPERM (payload r))], Sys (Call ''load'' [I buf]) r',
    Out 1 (''Other thread: str (%p) = %s'' @ [LF]) [I buf, S (cstr (payload r'))]]"
  using assms unfolding test_threadFunc_def strerror_static_def strerror_at_def show_str_def
  by (auto simp: run_defs answered_def split: list.splits prod.splits outcome.splits if_splits)

lemma static_main_trace:
  assumes "test_main (strerror_static T buf) w = (res, v)" "trace w = []" "Out n f [I p, S s] \<in> set (trace v)"
  shows "\<exists>r c j r'. trace v = [Sys (Call ''load'' [I buf]) r, Did ''store'' [I buf, S (strerror_fill T EINVAL (payload r))],
    Out 1 (''Main thread has called strerror()'' @ [LF]) [], Sys (Call ''pthread_create'' [S ''threadFunc'']) c,
    Sys (Call ''pthread_join'' []) j, Sys (Call ''load'' [I buf]) r', Out n f [I p, S s]] \<and> s = cstr (payload r')"
  using assms unfolding test_main_def strerror_static_def strerror_at_def show_str_def handleErr_def
  by (auto simp: run_defs answered_def split: list.splits prod.splits outcome.splits if_splits)

text \<open>
  C37: with the static buffer, when the other thread runs between its creation and the \<open>pthread_join\<close>, the string
  the first thread prints is the message of the error the other thread asked for.
\<close>

theorem strerror_static_shared:
  assumes "errtab_ok T" and "typed m0"
    and "test_main (strerror_static T buf) w = (res, v)" "trace w = []" "trace v = a @ Sys (Call ''pthread_join'' []) j # c"
    and "test_threadFunc (strerror_static T buf) w' = (Val (), v')" "trace w' = []"
    and "cells_run s_loads s_stores
      (map (Pair 0) a @ map (Pair 1) (trace v') @ map (Pair 0) (Sys (Call ''pthread_join'' []) j # c)) m0 = Some m"
    and "Out n f [I p, S s] \<in> set (trace v)"
  shows "s = strerror_msg T EPERM"
proof -
  from static_main_trace[OF assms(3,4,9)] obtain r k j' r' where tr: "trace v = [Sys (Call ''load'' [I buf]) r,
      Did ''store'' [I buf, S (strerror_fill T EINVAL (payload r))], Out 1 (''Main thread has called strerror()'' @ [LF]) [],
      Sys (Call ''pthread_create'' [S ''threadFunc'']) k, Sys (Call ''pthread_join'' []) j', Sys (Call ''load'' [I buf]) r',
      Out n f [I p, S s]]" "s = cstr (payload r')" by blast
  with assms(5) have ac: "a = [Sys (Call ''load'' [I buf]) r, Did ''store'' [I buf, S (strerror_fill T EINVAL (payload r))],
      Out 1 (''Main thread has called strerror()'' @ [LF]) [], Sys (Call ''pthread_create'' [S ''threadFunc'']) k]"
    "c = [Sys (Call ''load'' [I buf]) r', Out n f [I p, S s]]" by (auto simp: Cons_eq_append_conv)
  obtain q q' where "trace v' = [Out 1 (''Other thread about to call strerror()'' @ [LF]) [], Sys (Call ''load'' [I buf]) q,
      Did ''store'' [I buf, S (strerror_fill T EPERM (payload q))], Sys (Call ''load'' [I buf]) q',
      Out 1 (''Other thread: str (%p) = %s'' @ [LF]) [I buf, S (cstr (payload q'))]]"
    using static_other_trace[OF assms(6,7)] by blast
  with assms(8) ac have "payload r' = strerror_fill T EPERM (strerror_fill T EINVAL (m0 buf))"
    by (auto simp: cell_event_def split: if_splits)
  moreover have "length (strerror_fill T EINVAL (m0 buf)) = MAX_ERROR_LEN"
    using assms(2) by (intro strerror_fill_typed) (simp add: typed_def)
  ultimately show ?thesis using tr(2) strerror_fill_cstr[OF assms(1)] by simp
qed

text \<open>
  The programs of \<^verbatim>\<open>tls_eg\<close> print the string before another thread can call
  \<open>strerror\<close>: what they print is right even with the static buffer.
\<close>

lemma eg_prints:
  assumes "errtab_ok T" and "typed m0" and "trace w = []" and "cells_run s_loads s_stores (map (Pair t) (trace v)) m0 = Some m"
    and "eg_main buf (strerror_static T buf) w = (res, v) \<and> err = EPERM \<and> args = [I buf] \<or>
      eg_thrd_func buf (strerror_static T buf) w = (res', v) \<and> err = ENOMEM \<and> args = [S ''thrd_func'', I buf]"
    and "Out n f (args @ [I p, S s]) \<in> set (trace v)"
  shows "s = strerror_msg T err"
proof -
  have "\<exists>r r' es. trace v = [Sys (Call ''load'' [I buf]) r, Did ''store'' [I buf, S (strerror_fill T err (payload r))],
      Sys (Call ''load'' [I buf]) r'] @ es \<and> s = cstr (payload r')"
    using assms(3,5,6) unfolding eg_main_def eg_thrd_func_def strerror_static_def strerror_at_def show_str_def
    by (auto simp: run_defs answered_def split: list.splits prod.splits outcome.splits if_splits)
  then have "s = cstr (strerror_fill T err (m0 buf))"
    using assms(4) by (auto simp: cell_event_def split: if_splits option.splits)
  with strerror_fill_cstr[OF assms(1)] assms(2) show ?thesis by (simp add: typed_def)
qed


section \<open>A run\<close>

text \<open>A table with one entry, for \<open>EPERM\<close>, and the runs of the test with each storage.\<close>

definition demo_tab :: errtab where
  "demo_tab = \<lparr>sys_nerr = 2, sys_errlist = (\<lambda>e. if e = 1 then Some ''denied'' else None)\<rparr>"

definition zeros :: "char list" where "zeros = replicate MAX_ERROR_LEN NUL"

abbreviation filled :: "int \<Rightarrow> char list" where "filled err \<equiv> strerror_fill demo_tab err zeros"

definition tsd_start :: "int \<Rightarrow> int \<Rightarrow> reply list" where
  "tsd_start first buf = [Outs 0 [first]] @ (if first = 1 then [Outs 0 [7]] else []) @
     [Ret 7, Ret 0, Ret buf, Ret 7, Ret 0, Data zeros]"

definition tls_gs :: "gevent list" where
  "tls_gs = map (Pair 0) (trace (snd (test_main (strerror_tls demo_tab int 0) (boot [Data zeros, Ret 0, Ret 0, Data (filled EINVAL)])))) @
     map (Pair 1) (trace (snd (seq (test_threadFunc (strerror_tls demo_tab int 1)) skip (boot [Data zeros, Data (filled EPERM)]))))"

definition tsd_gs :: "gevent list" where
  "tsd_gs = map (Pair 0) (trace (snd (test_main (strerror_tsd demo_tab) (boot (tsd_start 1 100 @ [Ret 0, Ret 0, Data (filled EINVAL)]))))) @
     map (Pair 1) (trace (snd (seq (test_threadFunc (strerror_tsd demo_tab)) tsd_exit
       (boot (tsd_start 0 200 @ [Data (filled EPERM), Ret 7, Ret 200])))))"

lemma demo_ok [simp]: "errtab_ok demo_tab" "typed (\<lambda>_. zeros)" "length zeros = MAX_ERROR_LEN" "NUL \<in> set (filled err)"
  by (auto simp: errtab_ok_def demo_tab_def typed_def zeros_def strerror_fill_typed)

lemmas strerror_run = test_threadFunc_def test_main_def strerror_tls_def strerror_tsd_def strerror_at_def show_str_def
  strerror_once_def createKey_def tsd_buffer_def tsd_alloc_def tsd_exit_def destructor_def handleErr_def run_defs answered_def boot_def
  tsd_start_def out_def

lemma runs_of_two:
  assumes "trace w0 = []" "trace w1 = []"
  shows "runs_of (test_threads strerr ex) (map (Pair 0) (trace (snd (test_main (strerr 0) w0))) @
    map (Pair 1) (trace (snd (seq (test_threadFunc (strerr 1)) ex w1))))"
  unfolding runs_of_def
proof
  fix t :: nat
  consider "t = 0" | "t = 1" | "2 \<le> t" by linarith
  then show "\<exists>w. trace w = [] \<and> prefix (events_of t (map (Pair 0) (trace (snd (test_main (strerr 0) w0))) @
      map (Pair 1) (trace (snd (seq (test_threadFunc (strerr 1)) ex w1))))) (trace (snd (test_threads strerr ex t w)))"
  proof cases
    case 1
    with assms(1) show ?thesis by (auto simp: events_of_pair test_threads_def intro: exI[of _ w0])
  next
    case 2
    with assms(2) show ?thesis by (auto simp: events_of_pair test_threads_def intro: exI[of _ w1])
  next
    case 3
    then show ?thesis by (auto simp: events_of_pair intro: exI[of _ "boot []"])
  qed
qed

lemma tls_gs_run: "runs_of (test_threads (strerror_tls demo_tab int) skip) tls_gs"
  unfolding tls_gs_def by (rule runs_of_two) simp_all

lemma tsd_gs_run: "runs_of (test_threads (\<lambda>_. strerror_tsd demo_tab) tsd_exit) tsd_gs"
  unfolding tsd_gs_def by (rule runs_of_two[where strerr = "\<lambda>_. strerror_tsd demo_tab"]) simp_all

lemma tls_gs_cells: "\<exists>m. cells_run s_loads s_stores tls_gs (\<lambda>_. zeros) = Some m"
  by (simp add: tls_gs_def strerror_run cell_event_def)

lemma tsd_gs_cells: "\<exists>m. cells_run s_loads s_stores tsd_gs (\<lambda>_. zeros) = Some m"
  by (simp add: tsd_gs_def strerror_run cell_event_def)

lemma tsd_gs_promises: "malloc_fresh tsd_gs \<and> tsd_kept tsd_gs"
  by (auto simp: tsd_gs_def strerror_run malloc_fresh_def mallocs_def tsd_kept_def)

lemma gs_prints:
  "(0, Out 1 (''Main thread:  str (%p) = %s'' @ [LF]) [I 0, S (cstr (filled EINVAL))]) \<in> set tls_gs"
  "(1, Out 1 (''Other thread: str (%p) = %s'' @ [LF]) [I 200, S (cstr (filled EPERM))]) \<in> set tsd_gs"
  by (simp_all add: tls_gs_def tsd_gs_def strerror_run)

theorem strerror_own_message_witness:
  "cstr (filled EINVAL) = strerror_msg demo_tab EINVAL \<and> cstr (filled EPERM) = strerror_msg demo_tab EPERM"
proof -
  obtain m m' where m: "cells_run s_loads s_stores tls_gs (\<lambda>_. zeros) = Some m" "cells_run s_loads s_stores tsd_gs (\<lambda>_. zeros) = Some m'"
    using tls_gs_cells tsd_gs_cells by blast
  have "inj int" by simp
  with strerror_own_message[OF demo_ok(1,2) m(1) _ gs_prints(1), of int]
    strerror_own_message[OF demo_ok(1,2) m(2) _ gs_prints(2), of int] tls_gs_run tsd_gs_run tsd_gs_promises
  show ?thesis by simp
qed

theorem strerror_static_shared_witness:
  "\<exists>s v n f. test_main (strerror_static demo_tab 5) (boot [Data zeros, Ret 0, Ret 0, Data (strerror_fill demo_tab EPERM (filled EINVAL))])
      = (Halt (Exited 0), v) \<and> Out n f [I 5, S s] \<in> set (trace v) \<and> s = strerror_msg demo_tab EPERM"
proof -
  let ?w = "boot [Data zeros, Ret 0, Ret 0, Data (strerror_fill demo_tab EPERM (filled EINVAL))]"
  let ?u = "boot [Data (filled EINVAL), Data (strerror_fill demo_tab EPERM (filled EINVAL))]"
  let ?a = "[Sys (Call ''load'' [I 5]) (Data zeros), Did ''store'' [I 5, S (filled EINVAL)],
      Out 1 (''Main thread has called strerror()'' @ [LF]) [], Sys (Call ''pthread_create'' [S ''threadFunc'']) (Ret 0)]"
  let ?s = "cstr (strerror_fill demo_tab EPERM (filled EINVAL))"
  let ?c = "[Sys (Call ''load'' [I 5]) (Data (strerror_fill demo_tab EPERM (filled EINVAL))),
      Out 1 (''Main thread:  str (%p) = %s'' @ [LF]) [I 5, S ?s]]"
  have nul: "NUL \<in> set (strerror_fill demo_tab EPERM (filled EINVAL))" by (intro strerror_fill_typed) simp
  obtain v where v: "test_main (strerror_static demo_tab 5) ?w = (Halt (Exited 0), v)"
    "trace v = ?a @ Sys (Call ''pthread_join'' []) (Ret 0) # ?c"
    using nul by (auto simp: strerror_run strerror_static_def)
  obtain v' where v': "test_threadFunc (strerror_static demo_tab 5) ?u = (Val (), v')"
    "trace v' = [Out 1 (''Other thread about to call strerror()'' @ [LF]) [], Sys (Call ''load'' [I 5]) (Data (filled EINVAL)),
      Did ''store'' [I 5, S (strerror_fill demo_tab EPERM (filled EINVAL))],
      Sys (Call ''load'' [I 5]) (Data (strerror_fill demo_tab EPERM (filled EINVAL))),
      Out 1 (''Other thread: str (%p) = %s'' @ [LF]) [I 5, S ?s]]"
    using nul by (auto simp: strerror_run strerror_static_def)
  obtain m where "cells_run s_loads s_stores (map (Pair 0) ?a @ map (Pair 1) (trace v') @
      map (Pair 0) (Sys (Call ''pthread_join'' []) (Ret 0) # ?c)) (\<lambda>_. zeros) = Some m"
    unfolding v'(2) by (simp add: cell_event_def)
  from strerror_static_shared[OF demo_ok(1,2) v(1) _ v(2) v'(1) _ this, of 1 "''Main thread:  str (%p) = %s'' @ [LF]" 5 ?s]
  have "?s = strerror_msg demo_tab EPERM" using v(2) by simp
  with v show ?thesis by auto
qed

text \<open>Two threads that have called the implementation with thread-specific data.\<close>

definition typed_gs :: "gevent list" where
  "typed_gs = map (Pair 0) (trace (snd (strerror_tsd demo_tab EINVAL (boot (tsd_start 1 100))))) @
     map (Pair 1) (trace (snd (strerror_tsd demo_tab EPERM (boot (tsd_start 0 200)))))"

lemma typed_gs_run: "runs_of (\<lambda>t. strerror_tsd demo_tab (test_err t)) typed_gs"
  unfolding runs_of_def
proof
  fix t :: nat
  consider "t = 0" | "t = 1" | "2 \<le> t" by linarith
  then show "\<exists>w. trace w = [] \<and> prefix (events_of t typed_gs) (trace (snd (strerror_tsd demo_tab (test_err t) w)))"
  proof cases
    case 1
    then show ?thesis by (intro exI[of _ "boot (tsd_start 1 100)"]) (simp add: typed_gs_def events_of_pair test_err_def)
  next
    case 2
    then show ?thesis by (intro exI[of _ "boot (tsd_start 0 200)"]) (simp add: typed_gs_def events_of_pair test_err_def)
  next
    case 3
    then show ?thesis by (intro exI[of _ "boot []"]) (simp add: typed_gs_def events_of_pair)
  qed
qed


end
