(* ===== verification/MmapDump.thy ===== *)
theory MmapDump
  imports Common Monitor
begin

text \<open>
  \<^verbatim>\<open>src/ipc/mmap_ipc/mmap_simple/mmap_simple.c\<close>, which maps a file and dumps a part of it.
  Its \<open>hex_dump\<close> is the one of the common code with an offset, in decimal, as the
  label of a line.
\<close>

section \<open>Definitions\<close>

text \<open>\<^verbatim>\<open>snprintf(temp, MAX_NUMERALS, "+%06d", n)\<close>, of which seven characters are used.\<close>

definition off_label :: "int \<Rightarrow> string" where
  "off_label n = take 7 (snprintf 20 ''+%06d'' [I n])"

definition mm_buffer_init :: "int \<Rightarrow> char list option" where
  "mm_buffer_init offset =
     Option.bind (memset_in 0 NUL 128 (replicate 128 NUL)) (\<lambda>buffer.
     Option.bind (memset_in 0 (CHR '' '') (58 + 16) buffer) (\<lambda>buffer.
     Option.bind (put_in (58 + 16) [LF] buffer) (\<lambda>buffer.
     Option.bind (put_in (58 + 17) [NUL] buffer) (\<lambda>buffer.
     Option.bind (put_in 0 ''+'' buffer) (\<lambda>buffer.
       put_in 1 (drop 1 (off_label offset)) buffer)))))"

definition mm_newline :: "int \<Rightarrow> int \<Rightarrow> char list \<Rightarrow> char list option" where
  "mm_newline offset i buffer =
     Option.bind (memset_in 0 (CHR '' '') (58 + 16) buffer) (put_in 0 (off_label (i + offset)))"

text \<open>The loop body, with \<open>temp[20]\<close>.\<close>

definition mm_byte :: "char \<Rightarrow> nat \<Rightarrow> char list \<Rightarrow> char list option" where
  "mm_byte d j buffer =
     (let temp = snprintf 20 ''%02x'' [I (int (code d))] in
      Option.bind (put_in (8 + j * 3) (take 2 temp) buffer) (\<lambda>buffer.
        put_in (58 + j) [if 31 < code d \<and> code d < 127 then d else CHR ''.''] buffer))"

text \<open>
  The loop, over the readable bytes from \<open>data + i\<close> on. The sum \<open>i+offset\<close> of two
  \<open>int\<close> may overflow.
\<close>

fun mm_loop :: "int \<Rightarrow> string \<Rightarrow> int \<Rightarrow> int \<Rightarrow> nat \<Rightarrow> char list \<Rightarrow> unit prog" where
  "mm_loop offset [] sz i j buffer =
     (if i < sz then stop (Undef ''read past the end of data'')
      else if j \<noteq> 0 then hex_print buffer else skip)"
| "mm_loop offset (d # ds) sz i j buffer =
     (if i < sz then
        if j = 16 then
          seq (hex_print buffer)
            (or_undef ''signed overflow'' (ck_int (i + offset)) (\<lambda>_.
             or_undef ''write outside of an array'' (mm_newline offset i buffer) (\<lambda>buffer.
             or_undef ''write outside of an array'' (mm_byte d 0 buffer) (\<lambda>buffer.
               mm_loop offset ds sz (i + 1) 1 buffer))))
        else
          or_undef ''write outside of an array'' (mm_byte d j buffer) (\<lambda>buffer.
            mm_loop offset ds sz (i + 1) (j + 1) buffer)
      else if j \<noteq> 0 then hex_print buffer else skip)"

definition mm_hex_dump :: "string \<Rightarrow> int \<Rightarrow> int \<Rightarrow> string option \<Rightarrow> int \<Rightarrow> int \<Rightarrow> unit prog" where
  "mm_hex_dump data offset sz caption verbose addr =
     seq (case caption of
            Some c \<Rightarrow> whenp (verbose \<noteq> 0)
              (printf (''---------> %s <--------- (%d bytes from %p)'' @ [LF]) [S c, I sz, I addr])
          | None \<Rightarrow> skip)
    (seq (printf ruler [])
         (or_undef ''write outside of an array'' (mm_buffer_init offset) (\<lambda>buffer.
            mm_loop offset data sz 0 0 buffer)))"

text \<open>The descriptor and the size of the file.\<close>

definition mm_open :: "string list \<Rightarrow> (int \<times> int) prog" where
  "mm_open argv =
     bind (r_open2 (argv ! 1) ''O_RDONLY'') (\<lambda>fd_from.
       if fd_from = -1 then seq (perror ''open: src file'') (exit_prog 1)
       else bind (syscall (Call ''fstat'' [I fd_from])) (\<lambda>sstat.
         if retval sstat = -1 then seq (perror ''fstat'') (exit_prog 1)
         else if out 0 sstat = 0 then
           seq (eprintf (''%s: source-file %s size is zero bytes, aborting...'' @ [LF]) [S (argv ! 0), S (argv ! 1)])
             (exit_prog 1)
         else ret (fd_from, out 0 sstat)))"

text \<open>The checks of the arguments; \<open>off+len\<close> is a sum of two \<open>long\<close>.\<close>

definition mm_args :: "string list \<Rightarrow> int \<Rightarrow> (int \<times> int) prog" where
  "mm_args argv fsz =
     (let len = atol (argv ! 3); off = atol (argv ! 2) in
      if len \<le> 0 then
        seq (eprintf (''%s: invalid length %ld, aborting...'' @ [LF]) [S (argv ! 0), I len]) (exit_prog 1)
      else
        bind (if off < 0 then ret True
              else case ck_long (off + len) of
                     None \<Rightarrow> stop (Undef ''signed overflow'')
                   | Some n \<Rightarrow> ret (fsz < n)) (\<lambda>bad.
          if bad then
            seq (eprintf (''%s: invalid offset or offset/length combination, aborting...'' @ [LF]) [S (argv ! 0)])
              (exit_prog 1)
          else ret (off, len)))"

text \<open>The offset and the length are converted to \<open>int\<close>, the type of the parameters of \<open>hex_dump\<close>.\<close>

definition mm_dump :: "int \<Rightarrow> int \<Rightarrow> int \<Rightarrow> string \<Rightarrow> unit prog" where
  "mm_dump data_src off len bytes =
     mm_hex_dump (drop (nat off) bytes) (s32 off) (s32 len) (Some ''Data'') 0 (data_src + off)"

definition mm_finish :: "int \<Rightarrow> int \<Rightarrow> int \<Rightarrow> unit prog" where
  "mm_finish fd_from origptr len =
     bind (icall (Call ''msync'' [I origptr, I len, S ''MS_SYNC''])) (\<lambda>r.
     seq (whenp (r < 0) (perror ''mysnc''))
    (bind (icall (Call ''munmap'' [I origptr, I len])) (\<lambda>r.
       if r = -1 then seq (perror ''munmap'') (exit_prog 1)
       else bind (icall (Close fd_from)) (\<lambda>_. exit_prog 0))))"

text \<open>The reply to \<open>mapped\<close> is what the mapping holds.\<close>

definition mm_show :: "int \<Rightarrow> int \<Rightarrow> int \<Rightarrow> int \<Rightarrow> unit prog" where
  "mm_show fd_from fsz off len =
     bind (icall (Call ''mmap'' [I fsz, S ''PROT_READ'', S ''MAP_PRIVATE'', I fd_from, I 0])) (\<lambda>data_src.
       if data_src = -1 then seq (perror ''mmap: to src file'') (exit_prog 1)
       else bind (syscall (Call ''mapped'' [I data_src, I fsz])) (\<lambda>r.
         seq (mm_dump data_src off len (payload r)) (mm_finish fd_from data_src len)))"

definition mmap_simple_main :: "string list \<Rightarrow> unit prog" where
  "mmap_simple_main argv =
     (if length argv \<noteq> 4 then
        seq (eprintf (''Usage: %s source-file start_offset length'' @ [LF]) [S (argv ! 0)]) (exit_prog 1)
      else bind (mm_open argv) (\<lambda>(fd_from, fsz).
           bind (mm_args argv fsz) (\<lambda>(off, len). mm_show fd_from fsz off len)))"


section \<open>The dump\<close>

lemma off_fmt: "cformat ''+%06d'' [I n] = CHR ''+'' # pad True 6 (show_int n)"
  by (simp add: cformat.simps parse_spec_def isdigit_def code_def)

lemma off_label_eq: "off_label n = CHR ''+'' # take 6 (pad True 6 (show_int n))"
  by (simp add: off_label_def snprintf_def off_fmt min_def)

lemma off_label_ok: "length (off_label n) = 7" "NUL \<notin> set (off_label n)"
  using pad_simps(2)[of True 6 "show_int n"] show_int_not_NUL[of n] in_set_takeD[of NUL 6 "pad True 6 (show_int n)"]
  by (auto simp: off_label_eq pad_simps(1))

text \<open>Labels are exact below a million; from there on the last digits are cut off.\<close>

lemma off_label_exact: "0 \<le> n \<Longrightarrow> n < 1000000 \<Longrightarrow> off_label n = CHR ''+'' # pad True 6 (show_int n)"
  using length_show_base_10[of "nat n" 5] by (simp add: off_label_eq show_int_def pad_simps(1))

lemma length_show_base_10_ge: "10 ^ k \<le> n \<Longrightarrow> k < length (show_base 10 n)"
proof (induction k arbitrary: n)
  case (Suc k)
  then have "10 ^ k \<le> n div 10" "10 \<le> n" by (simp_all add: less_eq_div_iff_mult_less_eq mult.commute)
      (metis One_nat_def le_trans one_le_power mult_le_mono2 mult.right_neutral numeral_One one_le_numeral)
  with Suc.IH[of "n div 10"] show ?case by (subst show_base.simps) simp
qed simp

lemma off_label_big: "100000 \<le> n \<Longrightarrow> off_label (int n) = CHR ''+'' # take 6 (show_base 10 n)"
  using length_show_base_10_ge[of 5 n] by (cases "show_base 10 n") (simp_all add: off_label_eq show_int_def pad_def)

lemma off_label_cut:
  assumes "1000000 \<le> n"
  shows "off_label (int n) = off_label (int (n div 10))"
proof -
  have d: "100000 \<le> n div 10" using div_le_mono[OF assms, of 10] by simp
  then have "take 6 (show_base 10 n) = take 6 (show_base 10 (n div 10))"
    using assms length_show_base_10_ge[of 5 "n div 10"] by (subst show_base.simps) simp
  with assms d show ?thesis by (simp add: off_label_big)
qed

text \<open>A byte takes two digits, which fit into either of the arrays named \<open>temp\<close>.\<close>

lemma mm_byte_eq: "mm_byte d j buffer = hex_byte d j buffer"
proof -
  have "length (cformat ''%02x'' [I (int (code d))]) \<le> 8"
    using length_show_base_16[of "int (code d)"] by (simp add: cformat_02x pad_simps del: power_numeral)
  then show ?thesis by (simp add: mm_byte_def hex_byte_def sprintf_in_def snprintf_def Let_def)
qed

interpretation mdump: line_dumper "mm_newline offset" "\<lambda>i. off_label (i + offset)" "\<lambda>i. ck_int (i + offset) \<noteq> None" "mm_loop offset"
  for offset
proof
  fix sz i :: int and ds buffer j
  assume "sz \<le> i"
  then show "mm_loop offset ds sz i j buffer = (if j \<noteq> 0 then hex_print buffer else skip)" by (cases ds) auto
next
  fix label c r i
  assume "length (label :: string) \<le> 8" "length (c :: string) \<le> 16"
  then show "mm_newline offset i (hex_line label c @ r) = Some (hex_line (off_label (i + offset)) [] @ r)"
    unfolding mm_newline_def by (rule hex_line_relabel) (simp add: off_label_ok)
qed (auto simp: off_label_ok ck_int_def mm_byte_eq split: if_splits)

lemma mm_buffer_init_line: "mm_buffer_init offset = Some (hex_line (off_label offset) [] @ NUL # replicate 52 NUL)"
proof -
  obtain l where l: "off_label offset = CHR ''+'' # l" "length l = 6" using off_label_ok(1)[of offset] by (simp add: off_label_eq)
  have "Option.bind (memset_in 0 NUL 128 (replicate 128 NUL)) (\<lambda>b. Option.bind (memset_in 0 (CHR '' '') (58 + 16) b) (\<lambda>b.
      Option.bind (put_in (58 + 16) [LF] b) (\<lambda>b. Option.bind (put_in (58 + 17) [NUL] b) k))) =
      k (replicate 74 (CHR '' '') @ [LF] @ NUL # replicate 52 NUL)" for k :: "char list \<Rightarrow> char list option"
    by (simp add: memset_in_def put_in_def memset_at_def put_def numeral_eq_Suc)
  moreover have "Option.bind (put_in 0 ''+'' (replicate 74 (CHR '' '') @ t)) (put_in 1 l) =
      Some (CHR ''+'' # l @ replicate 67 (CHR '' '') @ t)" for t
    using l(2) by (simp add: put_in_def put_def numeral_eq_Suc)
  ultimately show ?thesis using l by (simp add: mm_buffer_init_def hex_line_Nil)
qed

text \<open>The lines of a dump with offsets.\<close>

abbreviation off_lines :: "int \<Rightarrow> string \<Rightarrow> string list" where
  "off_lines off ds \<equiv> lines_with (\<lambda>i. off_label (i + off)) 0 ds"

lemma mm_hex_dump_run:
  assumes "n \<le> length data" "INT_MIN \<le> offset" "offset + int n \<le> INT_MAX"
  shows "mm_hex_dump data offset (int n) caption 0 addr w =
    (Val (), w\<lparr>trace := trace w @ Out 1 ruler [] # out_lines (off_lines offset (take n data))\<rparr>)"
  using mdump.dump[of "int n" n data offset "replicate 52 NUL"] assms
  by (auto simp: mm_hex_dump_def prog_simps mm_buffer_init_line ck_int_def split: option.splits)


section \<open>The program\<close>

text \<open>
  The file holds \<open>cont\<close> throughout: \<open>fstat\<close> gives its size, and the mapping its bytes.
\<close>

fun maps_file :: "string \<Rightarrow> event \<Rightarrow> bool" where
  "maps_file cont (Sys (Call f args) r) =
     ((f = ''fstat'' \<and> retval r \<noteq> -1 \<longrightarrow> out 0 r = int (length cont)) \<and> (f = ''mapped'' \<longrightarrow> payload r = cont))"
| "maps_file cont _ = True"

abbreviation mapped :: "string \<Rightarrow> world \<Rightarrow> bool" where "mapped cont v \<equiv> list_all (maps_file cont) (trace v)"

text \<open>What has been written to the standard output.\<close>

fun to_stdout :: "event \<Rightarrow> bool" where
  "to_stdout (Out n f args) = (n = 1)"
| "to_stdout _ = False"

abbreviation outputs :: "world \<Rightarrow> event list" where "outputs v \<equiv> filter to_stdout (trace v)"

lemma wp_r_open2:
  "wp (r_open2 p f) (\<lambda>_ v. outputs v = outputs w) (\<lambda>h v. h = Blocked) w"
proof (cases "r_open2 p f w")
  case (Pair x v)
  show ?thesis
  proof (cases x)
    case (Val y)
    have "emits (\<lambda>e. \<not> to_stdout e) (r_open2 p f)" by (rule open2.f_emits) simp_all
    from this Pair obtain es where "trace v = trace w @ es" "list_all (\<lambda>e. \<not> to_stdout e) es" by (rule emitsD)
    then have "outputs v = outputs w" by (auto simp: filter_empty_conv list_all_iff)
    with Pair Val show ?thesis by (simp add: wp_def)
  next
    case (Halt h)
    with Pair open2.halts[of p f w h v] show ?thesis by (simp add: wp_def)
  qed
qed

lemma wp_mm_open:
  "wp (mm_open argv) (\<lambda>(fd, fsz) v. outputs v = outputs w \<and> (mapped cont v \<longrightarrow> fsz = int (length cont)))
     (\<lambda>h v. h = Blocked \<or> h = Exited 1) w"
  unfolding mm_open_def wp_bind
  by (rule wp_mono[OF wp_r_open2]) (auto simp: wp_simps split: list.splits)

lemma wp_mm_args:
  assumes "atol (argv ! 2) + atol (argv ! 3) \<le> LONG_MAX"
  shows "wp (mm_args argv fsz) (\<lambda>(off, len) v. v = w \<and> off = atol (argv ! 2) \<and> len = atol (argv ! 3) \<and>
      0 < len \<and> 0 \<le> off \<and> off + len \<le> fsz) (\<lambda>h v. h = Exited 1) w"
  using assms by (auto simp: mm_args_def Let_def wp_simps ck_long_def c_limits)

lemma wp_mm_finish:
  "wp (mm_finish fd p len) (\<lambda>_ _. True) (\<lambda>h v. h = Blocked \<or> h = Exited 1 \<or> h = Exited 0 \<and> outputs v = outputs w) w"
  by (auto simp: mm_finish_def wp_simps split: list.splits)

lemma appends_mm_loop: "appends (mm_loop off ds sz i j b)"
  by (induction off ds sz i j b rule: mm_loop.induct) (auto intro!: emits_intros simp: hex_print_def)

lemma appends_mm_show: "appends (mm_show fd fsz off len)"
  unfolding mm_show_def mm_dump_def mm_hex_dump_def mm_finish_def
  by (intro emits_intros TrueI appends_mm_loop) (auto intro: emits_intros split: option.splits)

lemma appends_mm_args: "appends (mm_args argv fsz)"
  unfolding mm_args_def Let_def by (intro emits_intros TrueI) (auto intro: emits_intros split: option.splits)

text \<open>A promise that is broken stays broken.\<close>

lemma wp_unmapped:
  assumes "appends m" "\<not> mapped cont w"
  shows "wp m (\<lambda>_ v. \<not> mapped cont v) (\<lambda>_ v. \<not> mapped cont v) w"
proof (cases "m w")
  case (Pair x v)
  from assms(1) Pair obtain es where "trace v = trace w @ es" by (rule emitsD)
  with Pair assms(2) show ?thesis by (cases x) (auto simp: wp_def)
qed

definition dumped :: "string \<Rightarrow> int \<Rightarrow> int \<Rightarrow> halt \<Rightarrow> world \<Rightarrow> bool" where
  "dumped cont off len h v \<longleftrightarrow> mapped cont v \<longrightarrow> (\<forall>msg. h \<noteq> Undef msg) \<and>
     (h = Exited 0 \<longrightarrow> 0 < len \<and> 0 \<le> off \<and> off + len \<le> int (length cont) \<and>
        outputs v = Out 1 ruler [] # out_lines (off_lines off (take (nat len) (drop (nat off) cont))))"

lemma wp_mm_show:
  assumes "outputs w = []" "0 < len" "0 \<le> off" "off + len \<le> int (length cont)" "int (length cont) \<le> INT_MAX"
  shows "wp (mm_show fd fsz off len) (\<lambda>_ _. True) (dumped cont off len) w"
proof -
  have "wp (seq (mm_dump p off len (payload r)) (mm_finish fd p len)) (\<lambda>_ _. True) (dumped cont off len) u"
    if "outputs u = []" "payload r = cont" for r u p
  proof -
    have id: "s32 off = off" "s32 len = len" using assms by (simp_all add: s32_id c_limits)
    have "mm_dump p off len cont u = (Val (), u\<lparr>trace := trace u @ Out 1 ruler [] #
        out_lines (off_lines off (take (nat len) (drop (nat off) cont)))\<rparr>)"
      using mm_hex_dump_run[of "nat len" "drop (nat off) cont" off "Some ''Data''" "p + off" u] assms
      by (simp add: mm_dump_def id c_limits)
    then have "wp (mm_dump p off len cont) (\<lambda>_ v. outputs v = Out 1 ruler [] #
        out_lines (off_lines off (take (nat len) (drop (nat off) cont)))) (\<lambda>_ _. False) u"
      using that(1) by (simp add: wp_def filter_map o_def)
    then show ?thesis unfolding wp_seq that(2)
      by (rule wp_mono) (use assms in \<open>auto intro!: wp_mono[OF wp_mm_finish] simp: dumped_def\<close>)
  qed
  note ok = this
  have "wp (seq (mm_dump p off len (payload r)) (mm_finish fd p len)) (\<lambda>_ _. True) (dumped cont off len) u"
    if "\<not> mapped cont u" for r u p
    using that by (intro wp_mono[OF wp_unmapped[where cont = cont]])
      (auto simp: dumped_def mm_dump_def mm_hex_dump_def mm_finish_def intro!: emits_intros appends_mm_loop split: option.splits)
  note broken = this
  have "wp (seq (mm_dump p off len (payload r)) (mm_finish fd p len)) (\<lambda>_ _. True) (dumped cont off len)
      (answered (Call ''mapped'' args) r u)" if "outputs u = []" for r u p args
    using ok[of "answered (Call ''mapped'' args) r u" r p] broken[of "answered (Call ''mapped'' args) r u" p r] that
    by (cases "payload r = cont") simp_all
  note step = this[unfolded wp_seq]
  show ?thesis using assms(1) step
    by (auto simp: mm_show_def wp_simps dumped_def[of cont off len "Exited 1"] dumped_def[of cont off len Blocked] split: list.splits)
qed

lemma wp_mmap_simple:
  assumes "outputs w = []" "atol (argv ! 2) + atol (argv ! 3) \<le> LONG_MAX" "int (length cont) \<le> INT_MAX"
  shows "wp (mmap_simple_main argv) (\<lambda>_ _. True) (dumped cont (atol (argv ! 2)) (atol (argv ! 3))) w"
proof -
  have "wp (bind (mm_args argv fsz) (\<lambda>(off, len). mm_show fd fsz off len)) (\<lambda>_ _. True)
      (dumped cont (atol (argv ! 2)) (atol (argv ! 3))) u"
    if "outputs u = []" "mapped cont u \<longrightarrow> fsz = int (length cont)" for fd fsz u
  proof (cases "mapped cont u")
    case True
    show ?thesis unfolding wp_bind
      by (rule wp_mono[OF wp_mm_args[OF assms(2)]])
        (use True that assms(3) in \<open>auto intro!: wp_mm_show simp: dumped_def\<close>)
  next
    case False
    then show ?thesis
      by (intro wp_mono[OF wp_unmapped[where cont = cont]])
        (auto simp: dumped_def intro!: emits_intros appends_mm_args appends_mm_show)
  qed
  then show ?thesis using assms(1) unfolding mmap_simple_main_def
    by (auto simp: wp_simps dumped_def intro!: wp_mono[OF wp_mm_open[where cont = cont]])
qed

text \<open>
  C38: on a file of at most \<open>INT_MAX\<close> bytes and arguments whose sum does not overflow, the program never leaves its buffers or the
  mapping; when it ends with status 0 the part asked for lies inside the file, and what was printed is the ruler and the
  lines of the dump of exactly this part, labelled with offsets in the file, from which the bytes
  can be read back.
\<close>

theorem mmap_dumps:
  assumes "off = atol (argv ! 2)" and "len = atol (argv ! 3)"
    and "mmap_simple_main argv w = (res, v)" and "trace w = []" and "list_all (maps_file cont) (trace v)"
    and "int (length cont) \<le> INT_MAX" and "off + len \<le> LONG_MAX"
  shows "(\<forall>msg. res \<noteq> Halt (Undef msg)) \<and>
    (res = Halt (Exited 0) \<longrightarrow> 0 < len \<and> 0 \<le> off \<and> off + len \<le> int (length cont) \<and>
       (\<exists>ls. filter to_stdout (trace v) = Out 1 ruler [] # out_lines ls \<and>
          ls = off_lines off (take (nat len) (drop (nat off) cont)) \<and>
          undump (nat len) ls = take (nat len) (drop (nat off) cont)))"
proof -
  have wp: "wp (mmap_simple_main argv) (\<lambda>_ _. True) (dumped cont off len) w"
    using wp_mmap_simple[of w argv cont] assms by simp
  have rb: "undump (nat len) (off_lines off (take (nat len) (drop (nat off) cont))) = take (nat len) (drop (nat off) cont)"
    if "0 < len" "0 \<le> off" "off + len \<le> int (length cont)"
  proof -
    have "length (take (nat len) (drop (nat off) cont)) = nat len" using that by simp
    with undump_lines[of "\<lambda>i. off_label (i + off)" "take (nat len) (drop (nat off) cont)" 0] show ?thesis
      by (simp add: off_label_ok)
  qed
  have "res = Halt h \<Longrightarrow> dumped cont off len h v" for h using wpD_Halt[OF wp] assms(3) by simp
  with assms(5) rb show ?thesis unfolding dumped_def by blast
qed

theorem mmap_dumps_witness:
  "\<exists>v. mmap_simple_main [''mmap_simple'', ''f'', ''1'', ''3''] (boot [Ret 3, Outs 0 [5], Ret 4096, Data ''hello'', Ret 0, Ret 0, Ret 0])
      = (Halt (Exited 0), v) \<and> undump 3 (off_lines 1 ''ell'') = ''ell'' \<and>
     filter to_stdout (trace v) = Out 1 ruler [] # out_lines (off_lines 1 ''ell'')"
proof -
  let ?argv = "[''mmap_simple'', ''f'', ''1'', ''3'']" and ?w = "boot [Ret 3, Outs 0 [5], Ret 4096, Data ''hello'', Ret 0, Ret 0, Ret 0]"
  have args: "atol ''1'' = 1" "atol ''3'' = 3" by code_simp+
  have "\<exists>v. mmap_simple_main ?argv ?w = (Halt (Exited 0), v) \<and> list_all (maps_file ''hello'') (trace v)"
    using mm_hex_dump_run[of 3 "''ello''" 1] by (simp add: mmap_simple_main_def mm_open_def mm_args_def mm_show_def mm_dump_def mm_finish_def
      r_open2_def restart_loop.simps run_defs answered_def boot_def out_def args ck_long_def c_limits s32_def list_all_iff)
  then obtain v where v: "mmap_simple_main ?argv ?w = (Halt (Exited 0), v)" "list_all (maps_file ''hello'') (trace v)" by blast
  from mmap_dumps[OF refl refl v(1) _ v(2)] args v(1) show ?thesis by (auto simp: c_limits)
qed

end
