(* ===== verification/SysVIpc.thy ===== *)
theory SysVIpc
  imports Restart Monitor
begin

text \<open>
  Two pairs of programs that exchange data through an object of the kernel:
  \<^verbatim>\<open>msg1_w.c\<close> and \<^verbatim>\<open>msg1_r.c\<close> of \<^verbatim>\<open>src/ipc/SYS_V_ipc/mq\<close> through a message queue,
  \<^verbatim>\<open>shm1_w.c\<close> and \<^verbatim>\<open>shm1_r.c\<close> of \<^verbatim>\<open>src/ipc/SYS_V_ipc/shm\<close> through a shared memory
  segment.
\<close>

section \<open>The message queue\<close>

abbreviation (input) KEY_VAL :: int where "KEY_VAL \<equiv> 154326"
abbreviation (input) MSGSZ_MAX :: nat where "MSGSZ_MAX \<equiv> 180"

subsection \<open>The writer\<close>

definition mq_create :: "int prog" where
  "mq_create =
     bind (icall (Call ''msgget'' [I KEY_VAL, S ''IPC_CREAT|IPC_EXCL|0600''])) (\<lambda>qid.
       if qid = -1 then
         bind get_errno (\<lambda>errno.
           if errno = EEXIST then
             seq (printf (''MQ exists, try to fetch it...'' @ [LF]) [])
               (bind (icall (Call ''msgget'' [I KEY_VAL, S ''0''])) (\<lambda>qid.
                 if qid = -1 then seq (perror ''msgget failure'') (exit_prog 1) else ret qid))
           else seq (perror ''msgget failure'') (exit_prog 1))
       else ret qid)"

text \<open>One message: the text is copied to \<open>mtext\<close> and sent without its NUL.\<close>

definition mq_send :: "string \<Rightarrow> int \<Rightarrow> int \<Rightarrow> int \<Rightarrow> string \<Rightarrow> string \<Rightarrow> unit prog" where
  "mq_send prg pid qid mtype mtext fmt =
     bind (icall (Call ''msgsnd'' [I qid, I mtype, S (take MSGSZ_MAX mtext), I 0])) (\<lambda>n.
       if n = -1 then seq (perror ''msgsnd'') (exit_prog 1)
       else printf fmt [S prg, I pid])"

definition msg1_w_main :: "string list \<Rightarrow> unit prog" where
  "msg1_w_main argv =
     bind (icall (Call ''getpid'' [])) (\<lambda>pid.
     bind mq_create (\<lambda>qid.
     seq (printf (''%s [%d] : MQ id=%d'' @ [LF]) [S (argv ! 0), I pid, I qid])
    (seq (mq_send (argv ! 0) pid qid 2 ''Message of type 2'' (''%s [%d] : type 2 msg sent'' @ [LF]))
    (seq (mq_send (argv ! 0) pid qid 5 ''Message of type 5!'' (''%s [%d] : type 5 msg sent'' @ [LF]))
       (exit_prog 0)))))"

subsection \<open>The reader\<close>

text \<open>
  The reply to \<open>msgrcv\<close> is the number of bytes, with the type and then the bytes of
  the message as its members.
\<close>

definition rcv_type :: "reply \<Rightarrow> int" where "rcv_type r = out 0 r"

definition rcv_text :: "reply \<Rightarrow> string" where
  "rcv_text r = map (\<lambda>c. char_of (nat c)) (take (nat (retval r)) (tl (outs r)))"

definition msgrcv_r :: "int \<Rightarrow> nat \<Rightarrow> int \<Rightarrow> string \<Rightarrow> reply prog" where
  "msgrcv_r msqid msgsz msgtyp msgflg = restart_loop (Call ''msgrcv'' [I msqid, I (int msgsz), I msgtyp, S msgflg])"

definition mq_receive :: "string \<Rightarrow> int \<Rightarrow> int \<Rightarrow> nat \<Rightarrow> int \<Rightarrow> string \<Rightarrow> string \<Rightarrow> unit prog" where
  "mq_receive prg pid qid msgsz msgtyp msgflg fmt =
     bind (msgrcv_r qid msgsz msgtyp msgflg) (\<lambda>r.
       if retval r = -1 then seq (perror ''msgrcv'') (exit_prog 1)
       else printf fmt [S prg, I pid, I (retval r), I (rcv_type r), I (retval r), S (cstr (rcv_text r))])"

definition FMT0 :: string where
  "FMT0 = ''%s [%d]: Type 0 msg read of %d bytes; Type %ld: Msg: '' @ [CHR 0x22] @ ''%.*s'' @ [CHR 0x22, LF]"
definition FMT5 :: string where
  "FMT5 = ''%s [%d]: Type 5 msg read of %d bytes; Type %ld: Msg: '' @ [CHR 0x22] @ ''%.*s'' @ [CHR 0x22, LF]"
definition FMT2 :: string where
  "FMT2 = ''%s [%d]: Type 2 msg read for 10 bytes; %d bytes actually read; Type %ld: Msg: '' @ [CHR 0x22] @ ''%.*s'' @ [CHR 0x22, LF]"

definition mq_read_all :: "string \<Rightarrow> int \<Rightarrow> int \<Rightarrow> unit prog" where
  "mq_read_all prg pid qid =
     seq (mq_receive prg pid qid MSGSZ_MAX 0 ''0'' FMT0)
    (seq (mq_receive prg pid qid MSGSZ_MAX 5 ''0'' FMT5)
    (seq (printf (''%s [%d]: Read Type 2 msg for 10 bytes'' @ [LF]) [S prg, I pid])
         (mq_receive prg pid qid 10 2 ''MSG_NOERROR'' FMT2)))"

definition msg1_r_main :: "string list \<Rightarrow> unit prog" where
  "msg1_r_main argv =
     bind (icall (Call ''getpid'' [])) (\<lambda>pid.
     bind (icall (Call ''msgget'' [I KEY_VAL, S ''0''])) (\<lambda>qid.
       if qid = -1 then seq (perror ''msgget'') (exit_prog 1)
       else
         seq (printf (''%s [%d]: id=%d'' @ [LF]) [S (argv ! 0), I pid, I qid])
        (seq (mq_read_all (argv ! 0) pid qid) (exit_prog 0))))"


subsection \<open>The queue\<close>

type_synonym msgq = "(int \<times> string) list"

text \<open>The first message of the type, or of any type when it is 0, and the others.\<close>

fun mq_take :: "int \<Rightarrow> msgq \<Rightarrow> ((int \<times> string) \<times> msgq) option" where
  "mq_take typ [] = None"
| "mq_take typ (m # q) = (if typ = 0 \<or> fst m = typ then Some (m, q)
     else case mq_take typ q of None \<Rightarrow> None | Some (m', q') \<Rightarrow> Some (m', m # q'))"

text \<open>
  What the kernel promises of the queue \<open>qid\<close>: \<open>msgsnd\<close> adds a message at the end, and
  \<open>msgrcv\<close> returns only with the first message of the type, which it removes. A message that is too
  long is cut with \<open>MSG_NOERROR\<close> and stays in the queue without. A call that fails leaves the queue
  as it is.
\<close>

fun mq_event :: "int \<Rightarrow> event \<Rightarrow> msgq \<Rightarrow> msgq option" where
  "mq_event qid (Sys (Call f args) r) q =
     (if f = ''msgget'' then if retval r = -1 \<or> retval r = qid then Some q else None
      else if f = ''msgsnd'' then
        (case args of
           [I i, I t, S s, I fl] \<Rightarrow> if i = qid \<and> retval r \<noteq> -1 then Some (q @ [(t, s)]) else Some q
         | _ \<Rightarrow> Some q)
      else if f = ''msgrcv'' then
        (case args of
           [I i, I n, I typ, S fl] \<Rightarrow>
             if i = qid \<and> retval r \<noteq> -1 then
               (case mq_take typ q of
                  None \<Rightarrow> None
                | Some ((t, s), q') \<Rightarrow>
                    let got = take (nat n) s in
                    if (length s \<le> nat n \<or> fl = ''MSG_NOERROR'') \<and> retval r = int (length got) \<and>
                       rcv_type r = t \<and> rcv_text r = got then Some q' else None)
             else Some q
         | _ \<Rightarrow> Some q)
      else Some q)"
| "mq_event qid e q = Some q"

fun mq_run :: "int \<Rightarrow> event list \<Rightarrow> msgq \<Rightarrow> msgq option" where
  "mq_run qid [] q = Some q"
| "mq_run qid (e # es) q = (case mq_event qid e q of None \<Rightarrow> None | Some q' \<Rightarrow> mq_run qid es q')"

lemma mq_run_append:
  "mq_run qid (xs @ ys) q = (case mq_run qid xs q of None \<Rightarrow> None | Some q' \<Rightarrow> mq_run qid ys q')"
  by (induction xs arbitrary: q) (auto split: option.splits)

lemma mq_run_neutral: "\<forall>e\<in>set es. \<forall>q. mq_event qid e q = Some q \<Longrightarrow> mq_run qid es q = Some q"
  by (induction es) auto

text \<open>What has been written to the standard output.\<close>

fun printed :: "event \<Rightarrow> bool" where
  "printed (Out n f args) = (n = 1)"
| "printed _ = False"

abbreviation prints :: "world \<Rightarrow> event list" where "prints v \<equiv> filter printed (trace v)"

text \<open>One message has been received: it is the first of its type, and it is printed.\<close>

definition received_msg :: "string \<Rightarrow> int \<Rightarrow> nat \<Rightarrow> int \<Rightarrow> string \<Rightarrow> msgq \<Rightarrow> msgq \<Rightarrow> event \<Rightarrow> bool" where
  "received_msg prg pid n typ fmt q q' e \<longleftrightarrow> (\<exists>t s. mq_take typ q = Some ((t, s), q') \<and>
     e = Out 1 fmt [S prg, I pid, I (int (length (take n s))), I t, I (int (length (take n s))), S (cstr (take n s))])"

lemma msgrcv_queue:
  assumes "msgrcv_r qid n typ fl w = (Val r, v)" "mq_run qid (trace v) q0 = Some q'" "retval r \<noteq> -1"
  shows "\<exists>q t s. mq_run qid (trace w) q0 = Some q \<and> mq_take typ q = Some ((t, s), q') \<and>
    retval r = int (length (take n s)) \<and> rcv_type r = t \<and> rcv_text r = take n s \<and> prints v = prints w"
proof -
  let ?c = "Call ''msgrcv'' [I qid, I (int n), I typ, S fl]"
  from restart.returns[OF assms(1)[unfolded msgrcv_r_def]] obtain ints where
    tr: "trace v = trace w @ map (Sys ?c) ints @ [Sys ?c r]" "\<forall>i\<in>set ints. retval i = -1" by auto
  have "mq_run qid (map (Sys ?c) ints) q = Some q" for q using tr(2) by (intro mq_run_neutral) auto
  with assms(2) obtain q where q: "mq_run qid (trace w) q0 = Some q" "mq_event qid (Sys ?c r) q = Some q'"
    by (auto simp: tr(1) mq_run_append split: option.splits)
  have "prints v = prints w" using tr(1) by (simp add: filter_map o_def filter_empty_conv)
  with q assms(3) show ?thesis by (auto simp: Let_def split: option.splits if_splits)
qed

lemma wp_mq_receive:
  assumes "mq_run qid (trace w) q0 = None \<or> (\<exists>q. mq_run qid (trace w) q0 = Some q \<and> P q (prints w))"
    and "\<And>q q' es e. P q es \<Longrightarrow> received_msg prg pid n typ fmt q q' e \<Longrightarrow> P' q' (es @ [e])"
  shows "wp (mq_receive prg pid qid n typ fl fmt)
    (\<lambda>_ v. mq_run qid (trace v) q0 = None \<or> (\<exists>q. mq_run qid (trace v) q0 = Some q \<and> P' q (prints v)))
    (\<lambda>h v. h \<noteq> Exited 0) w"
proof (cases "msgrcv_r qid n typ fl w")
  case (Pair x v)
  show ?thesis
  proof (cases x)
    case (Halt h)
    from restart.halts[OF Pair[unfolded msgrcv_r_def Halt]] have "h = Blocked" by simp
    with Pair Halt show ?thesis by (simp add: mq_receive_def wp_def bind_def)
  next
    case (Val r)
    show ?thesis
    proof (cases "retval r = -1 \<or> mq_run qid (trace v) q0 = None")
      case True
      with Pair Val show ?thesis by (auto simp: mq_receive_def wp_def bind_def run_defs mq_run_append split: option.splits)
    next
      case False
      then obtain q' where q': "mq_run qid (trace v) q0 = Some q'" by auto
      from msgrcv_queue[OF Pair[unfolded Val] q'] False obtain q t s where
        m: "mq_run qid (trace w) q0 = Some q" "mq_take typ q = Some ((t, s), q')" "retval r = int (length (take n s))"
        "rcv_type r = t" "rcv_text r = take n s" "prints v = prints w" by blast
      have "P q (prints w)" using assms(1) m(1) by auto
      then have "P' q' (prints w @ [Out 1 fmt [S prg, I pid, I (retval r), I (rcv_type r), I (retval r), S (cstr (rcv_text r))]])"
        by (rule assms(2)) (use m in \<open>auto simp: received_msg_def\<close>)
      with Pair Val False q' m(6) show ?thesis by (auto simp: mq_receive_def wp_def bind_def emit_def mq_run_append)
    qed
  qed
qed

text \<open>The queue is \<open>q\<close>, unless the kernel has broken its promise.\<close>

definition queue_is :: "int \<Rightarrow> msgq \<Rightarrow> msgq \<Rightarrow> world \<Rightarrow> bool" where
  "queue_is qid q0 q v \<longleftrightarrow> mq_run qid (trace v) q0 = None \<or> mq_run qid (trace v) q0 = Some q"

lemma wp_mq_create:
  "queue_is qid q0 q w \<Longrightarrow> wp mq_create (\<lambda>i v. queue_is qid q0 q v \<and> (mq_run qid (trace v) q0 \<noteq> None \<longrightarrow> i = qid)) (\<lambda>h v. h \<noteq> Exited 0) w"
  by (auto simp: mq_create_def wp_simps queue_is_def mq_run_append split: list.splits option.splits)

lemma wp_mq_send:
  "queue_is qid q0 q w \<Longrightarrow> mq_run qid (trace w) q0 \<noteq> None \<longrightarrow> i = qid \<Longrightarrow>
   wp (mq_send prg pid i t s fmt) (\<lambda>_ v. queue_is qid q0 (q @ [(t, take MSGSZ_MAX s)]) v \<and> (mq_run qid (trace v) q0 \<noteq> None \<longrightarrow> i = qid))
     (\<lambda>h v. h \<noteq> Exited 0) w"
  by (auto simp: mq_send_def wp_simps queue_is_def mq_run_append split: list.splits option.splits)

abbreviation (input) MSG2 :: "int \<times> string" where "MSG2 \<equiv> (2, ''Message of type 2'')"
abbreviation (input) MSG5 :: "int \<times> string" where "MSG5 \<equiv> (5, ''Message of type 5!'')"

lemma wp_writer:
  assumes "trace w = []"
  shows "wp (msg1_w_main argv) (\<lambda>_ _. True) (\<lambda>h v. h = Exited 0 \<longrightarrow> queue_is qid q0 (q0 @ [MSG2, MSG5]) v) w"
proof -
  let ?R = "\<lambda>h v. h = Exited 0 \<longrightarrow> queue_is qid q0 (q0 @ [MSG2, MSG5]) v"
  have sends: "wp (seq (printf e as) (seq (mq_send p pid i 2 ''Message of type 2'' f) (seq (mq_send p pid i 5 ''Message of type 5!'' g) (exit_prog 0))))
      (\<lambda>_ _. True) ?R u"
    if "queue_is qid q0 q0 u \<and> (mq_run qid (trace u) q0 \<noteq> None \<longrightarrow> i = qid)" for u p pid i e f g as
  proof -
    let ?u = "u\<lparr>trace := trace u @ [Out 1 e as]\<rparr>"
    have "queue_is qid q0 q0 ?u" "mq_run qid (trace ?u) q0 \<noteq> None \<longrightarrow> i = qid"
      using that by (auto simp: queue_is_def mq_run_append split: option.splits)
    then show ?thesis unfolding wp_seq wp_stop wp_emit
      by (rule wp_mono[OF wp_mq_send]) (elim conjE, rule wp_mono[OF wp_mq_send], auto)
  qed
  have "queue_is qid q0 q0 (answered (Call ''getpid'' []) r w)" for r using assms by (simp add: queue_is_def)
  then have "wp (bind mq_create (\<lambda>i. seq (printf e (as i)) (seq (mq_send p pid i 2 ''Message of type 2'' f) (seq (mq_send p pid i 5 ''Message of type 5!'' g) (exit_prog 0)))))
      (\<lambda>_ _. True) ?R (answered (Call ''getpid'' []) r w)" for r e as p pid f g
    unfolding wp_bind by (intro wp_mono[OF wp_mq_create[where qid = qid and ?q0.0 = q0]] sends) auto
  then show ?thesis unfolding msg1_w_main_def wp_bind wp_icall wp_syscall by (auto split: list.splits)
qed

text \<open>What a run of the reader that ends with status 0 has done: three messages, in this order.\<close>

definition reader_did :: "string \<Rightarrow> msgq \<Rightarrow> msgq \<Rightarrow> event list \<Rightarrow> bool" where
  "reader_did prg q0 q es \<longleftrightarrow> (\<exists>pid i q1 q2 e1 e2 e3.
     received_msg prg pid MSGSZ_MAX 0 FMT0 q0 q1 e1 \<and> received_msg prg pid MSGSZ_MAX 5 FMT5 q1 q2 e2 \<and>
     received_msg prg pid 10 2 FMT2 q2 q e3 \<and>
     es = [Out 1 (''%s [%d]: id=%d'' @ [LF]) [S prg, I pid, I i], e1, e2,
       Out 1 (''%s [%d]: Read Type 2 msg for 10 bytes'' @ [LF]) [S prg, I pid], e3])"

lemma mq_None_stays:
  assumes "appends m" "mq_run qid (trace w) q0 = None"
  shows "wp m (\<lambda>_ v. mq_run qid (trace v) q0 = None) (\<lambda>_ v. mq_run qid (trace v) q0 = None) w"
proof (cases "m w")
  case (Pair x v)
  from assms(1) Pair obtain es where "trace v = trace w @ es" by (rule emitsD)
  with Pair assms(2) show ?thesis by (cases x) (auto simp: wp_def mq_run_append)
qed

lemma appends_read_all: "appends (mq_read_all prg pid i)"
  unfolding mq_read_all_def mq_receive_def msgrcv_r_def by (intro emits_intros TrueI restart.f_emits)

lemma wp_read_all:
  assumes "mq_run qid (trace w) q0 = Some q0" "prints w = [Out 1 (''%s [%d]: id=%d'' @ [LF]) [S prg, I pid, I i]]"
  shows "wp (mq_read_all prg pid qid) (\<lambda>_ v. mq_run qid (trace v) q0 = None \<or>
    (\<exists>q. mq_run qid (trace v) q0 = Some q \<and> reader_did prg q0 q (prints v))) (\<lambda>h v. h \<noteq> Exited 0) w"
proof -
  let ?id = "Out 1 (''%s [%d]: id=%d'' @ [LF]) [S prg, I pid, I i]"
  let ?mid = "Out 1 (''%s [%d]: Read Type 2 msg for 10 bytes'' @ [LF]) [S prg, I pid]"
  let ?P1 = "\<lambda>q es. \<exists>e1. received_msg prg pid MSGSZ_MAX 0 FMT0 q0 q e1 \<and> es = [?id, e1]"
  let ?P2 = "\<lambda>q es. \<exists>q1 e1 e2. received_msg prg pid MSGSZ_MAX 0 FMT0 q0 q1 e1 \<and>
      received_msg prg pid MSGSZ_MAX 5 FMT5 q1 q e2 \<and> es = [?id, e1, e2]"
  let ?P3 = "\<lambda>q es. \<exists>q1 e1 e2. received_msg prg pid MSGSZ_MAX 0 FMT0 q0 q1 e1 \<and>
      received_msg prg pid MSGSZ_MAX 5 FMT5 q1 q e2 \<and> es = [?id, e1, e2, ?mid]"
  let ?M = "\<lambda>v. mq_run qid (trace v) q0"
  have r1: "wp (mq_receive prg pid qid MSGSZ_MAX 0 ''0'' FMT0) (\<lambda>_ v. ?M v = None \<or> (\<exists>q. ?M v = Some q \<and> ?P1 q (prints v)))
      (\<lambda>h v. h \<noteq> Exited 0) w"
    by (rule wp_mq_receive[where P = "\<lambda>q es. q = q0 \<and> es = [?id]"]) (use assms in auto)
  have r2: "wp (mq_receive prg pid qid MSGSZ_MAX 5 ''0'' FMT5) (\<lambda>_ v. ?M v = None \<or> (\<exists>q. ?M v = Some q \<and> ?P2 q (prints v)))
      (\<lambda>h v. h \<noteq> Exited 0) u" if "?M u = None \<or> (\<exists>q. ?M u = Some q \<and> ?P1 q (prints u))" for u
    using that by (rule wp_mq_receive) auto
  have r3: "wp (mq_receive prg pid qid 10 2 ''MSG_NOERROR'' FMT2)
      (\<lambda>_ v. ?M v = None \<or> (\<exists>q. ?M v = Some q \<and> reader_did prg q0 q (prints v)))
      (\<lambda>h v. h \<noteq> Exited 0) (u\<lparr>trace := trace u @ [?mid]\<rparr>)" if "?M u = None \<or> (\<exists>q. ?M u = Some q \<and> ?P2 q (prints u))" for u
  proof (rule wp_mq_receive[where P = ?P3])
    fix q q' es e assume "?P3 q es" "received_msg prg pid 10 2 FMT2 q q' e"
    then show "reader_did prg q0 q' (es @ [e])" unfolding reader_did_def by fastforce
  qed (use that in \<open>auto simp: mq_run_append\<close>)
  show ?thesis unfolding mq_read_all_def wp_seq wp_emit
    by (rule wp_mono[OF r1]) (rule wp_mono[OF r2], assumption, rule wp_mono[OF r3], auto)
qed

lemma wp_reader:
  assumes "trace w = []"
  shows "wp (msg1_r_main argv) (\<lambda>_ _. True) (\<lambda>h v. h = Exited 0 \<longrightarrow> mq_run qid (trace v) q0 = None \<or>
    (\<exists>q. mq_run qid (trace v) q0 = Some q \<and> reader_did (argv ! 0) q0 q (prints v))) w"
proof -
  let ?R = "\<lambda>h v. h = Exited 0 \<longrightarrow> mq_run qid (trace v) q0 = None \<or>
    (\<exists>q. mq_run qid (trace v) q0 = Some q \<and> reader_did (argv ! 0) q0 q (prints v))"
  have "wp (mq_read_all (argv ! 0) pid i) (\<lambda>_ v. ?R (Exited 0) v) ?R u"
    if "trace u = [Sys (Call ''getpid'' []) p, Sys (Call ''msgget'' [I KEY_VAL, S ''0'']) r,
        Out 1 (''%s [%d]: id=%d'' @ [LF]) [S (argv ! 0), I pid, I i]]" "retval r = i" "i \<noteq> -1" for u p r pid i
  proof (cases "i = qid")
    case True
    have "mq_run qid (trace u) q0 = Some q0" "prints u = [Out 1 (''%s [%d]: id=%d'' @ [LF]) [S (argv ! 0), I pid, I i]]"
      using that True by simp_all
    from wp_read_all[OF this] show ?thesis unfolding True by (rule wp_mono) simp_all
  next
    case False
    with that have "mq_run qid (trace u) q0 = None" by simp
    from mq_None_stays[OF appends_read_all this] show ?thesis by (rule wp_mono) simp_all
  qed
  then have "wp (seq (printf (''%s [%d]: id=%d'' @ [LF]) [S (argv ! 0), I (retval p), I (retval r)])
      (seq (mq_read_all (argv ! 0) (retval p) (retval r)) (exit_prog 0))) (\<lambda>_ _. True) ?R
      (answered (Call ''msgget'' [I KEY_VAL, S ''0'']) r (answered (Call ''getpid'' []) p w))" if "retval r \<noteq> -1" for p r
    using assms that unfolding wp_seq wp_emit wp_stop by simp
  then show ?thesis using assms unfolding msg1_r_main_def wp_bind wp_icall wp_syscall
    by (auto simp: wp_seq[of "perror _"] wp_emit wp_stop split: list.splits)
qed

text \<open>
  C39: when the writer ends well it has added its two messages at the end of the queue, in order. When the reader ends well
  it has taken out the first message, then the first one of type 5, then the first one of type 2, and has printed each, the last
  cut to 10 bytes. After a single run of the writer the reader never ends well, since its first receive takes
  the only message of type 2.
\<close>

theorem msg1_queue:
  assumes "trace w = []"
  shows "(msg1_w_main argv w = (Halt (Exited 0), v) \<and> mq_run qid (trace v) q = Some q' \<longrightarrow> q' = q @ [MSG2, MSG5]) \<and>
    (msg1_r_main argv w = (Halt (Exited 0), v) \<and> mq_run qid (trace v) q = Some q' \<longrightarrow> reader_did (argv ! 0) q q' (prints v)) \<and>
    \<not> (msg1_r_main argv w = (Halt (Exited 0), v) \<and> mq_run qid (trace v) [MSG2, MSG5] = Some q')"
proof -
  have "\<not> reader_did prg [MSG2, MSG5] q' es" for prg es
    by (auto simp: reader_did_def received_msg_def)
  with wpD_Halt[OF wp_writer[OF assms, of argv qid q]] wpD_Halt[OF wp_reader[OF assms, of argv qid q]]
    wpD_Halt[OF wp_reader[OF assms, of argv qid "[MSG2, MSG5]"]] show ?thesis
    unfolding queue_is_def by fastforce
qed

text \<open>A writer, and a reader after two runs of it.\<close>

definition msg_reply :: "int \<Rightarrow> string \<Rightarrow> reply" where
  "msg_reply t s = Outs (int (length s)) (t # map (\<lambda>c. int (of_char c)) s)"

lemma msg_reply_simps [simp]:
  "retval (msg_reply t s) = int (length s)" "rcv_type (msg_reply t s) = t" "rcv_text (msg_reply t s) = s"
  by (simp_all add: msg_reply_def rcv_type_def rcv_text_def out_def o_def)

theorem msg1_queue_witness:
  "(\<exists>v q'. msg1_w_main [''w''] (boot [Ret 77, Ret 3, Ret 0, Ret 0]) = (Halt (Exited 0), v) \<and>
     mq_run 3 (trace v) [] = Some q' \<and> q' = [MSG2, MSG5]) \<and>
   (\<exists>v q'. msg1_r_main [''r''] (boot [Ret 78, Ret 3, msg_reply 2 (snd MSG2), msg_reply 5 (snd MSG5), msg_reply 2 ''Message of'']) =
       (Halt (Exited 0), v) \<and>
     mq_run 3 (trace v) [MSG2, MSG5, MSG2, MSG5] = Some q' \<and> reader_did ''r'' [MSG2, MSG5, MSG2, MSG5] q' (prints v))"
proof
  let ?w = "boot [Ret 77, Ret 3, Ret 0, Ret 0]"
  obtain v q' where "msg1_w_main [''w''] ?w = (Halt (Exited 0), v)" "mq_run 3 (trace v) [] = Some q'"
    by (simp add: msg1_w_main_def mq_create_def mq_send_def run_defs answered_def boot_def)
  with msg1_queue[of ?w "[''w'']" v 3 "[]" q'] show "\<exists>v q'. msg1_w_main [''w''] ?w = (Halt (Exited 0), v) \<and>
     mq_run 3 (trace v) [] = Some q' \<and> q' = [MSG2, MSG5]" by auto
next
  let ?w = "boot [Ret 78, Ret 3, msg_reply 2 (snd MSG2), msg_reply 5 (snd MSG5), msg_reply 2 ''Message of'']"
  let ?q = "[MSG2, MSG5, MSG2, MSG5]"
  obtain v q' where "msg1_r_main [''r''] ?w = (Halt (Exited 0), v)" "mq_run 3 (trace v) ?q = Some q'"
    by (simp add: msg1_r_main_def mq_read_all_def mq_receive_def msgrcv_r_def restart_loop.simps run_defs answered_def boot_def)
  with msg1_queue[of ?w "[''r'']" v 3 ?q q'] show "\<exists>v q'. msg1_r_main [''r''] ?w = (Halt (Exited 0), v) \<and>
     mq_run 3 (trace v) ?q = Some q' \<and> reader_did ''r'' ?q q' (prints v)" by auto
qed


section \<open>The shared memory segment\<close>

abbreviation (input) SHMSZ_OUR_MAX :: nat where "SHMSZ_OUR_MAX \<equiv> 104857600"
abbreviation (input) LINELENGTH :: nat where "LINELENGTH \<equiv> 132"
abbreviation (input) NUM :: nat where "NUM \<equiv> 10"

text \<open>\<open>env\<close> is the value of the variable \<open>PROJM_SHM_PATH\<close>.\<close>

definition get_key :: "string option \<Rightarrow> int prog" where
  "get_key env =
     bind (icall (Call ''malloc'' [I (int PATH_MAX)])) (\<lambda>pathmem.
       if pathmem = 0 then seq (eprintf (''get_key() failure: malloc failed'' @ [LF]) []) (exit_prog 1)
       else case env of
         None \<Rightarrow>
           seq (eprintf (''Set environment variable PROJM_SHM_PATH to pathname of shm path file..'' @ [LF]) [])
             (seq (emit (Did ''free'' [I pathmem])) (exit_prog 1))
       | Some path \<Rightarrow>
           bind (icall (Call ''ftok'' [S path, I 0])) (\<lambda>key.
             seq (emit (Did ''free'' [I pathmem])) (ret key)))"

text \<open>
  One string, read by \<open>fgets\<close> to position \<open>p\<close> of the segment, with its last
  character replaced by NUL; the segment and the position after it. \<open>got\<close> is what \<open>fgets\<close> has
  read, nothing at the end of the input.
\<close>

definition shm_put :: "string \<Rightarrow> string \<Rightarrow> nat \<Rightarrow> (string \<times> nat) option" where
  "shm_put got seg p =
     (if got \<noteq> [] \<and> length seg < p + length got + 1 then None
      else let seg1 = (if got = [] then seg else put p (got @ [NUL]) seg) in
        if NUL \<notin> set (drop p seg1) then None
        else let k = length (cstr (drop p seg1)) in
          if p + k = 0 then None
          else let seg2 = seg1[p + k - 1 := NUL] in Some (seg2, p + length (cstr (drop p seg2)) + 1))"

fun shm_fill :: "string \<Rightarrow> nat list \<Rightarrow> string \<Rightarrow> nat \<Rightarrow> string prog" where
  "shm_fill prg [] seg p = ret seg"
| "shm_fill prg (n # ns) seg p =
     seq (printf ''%02d: Enter a string : '' [I (int n)])
    (bind (syscall (Call ''fgets'' [I (int LINELENGTH), S ''stdin''])) (\<lambda>r.
     seq (whenp (payload r = []) (eprintf (''%s: !WARNING! fgets() failed.'' @ [LF]) [S prg]))
       (case shm_put (payload r) seg p of
          None \<Rightarrow> stop (Undef ''access outside the segment'')
        | Some (seg', p') \<Rightarrow> shm_fill prg ns seg' p')))"

definition shm_get :: "string \<Rightarrow> int \<Rightarrow> nat \<Rightarrow> int prog" where
  "shm_get prg shm_key shmsz =
     bind (icall (Call ''shmget'' [I shm_key, I (int shmsz), S ''IPC_CREAT|IPC_EXCL|MODE''])) (\<lambda>shm_id.
       if shm_id < 0 then
         bind get_errno (\<lambda>errno.
           if errno = EEXIST then
             seq (printf (''%s: shmem segment already exists, will attempt to access it...'' @ [LF]) [S prg])
               (bind (icall (Call ''shmget'' [I shm_key, I 0, S ''0''])) (\<lambda>shm_id.
                 if shm_id < 0 then seq (perror ''shm1: shmget failed'') (exit_prog 1) else ret shm_id))
           else ret shm_id)
       else ret shm_id)"

definition shm_attach :: "string \<Rightarrow> int \<Rightarrow> int prog" where
  "shm_attach prg shm_id =
     seq (printf (''%s: shmem segment successfully created / accessed. ID=%d'' @ [LF]) [S prg, I shm_id])
    (bind (icall (Call ''shmat'' [I shm_id, I 0, I 0])) (\<lambda>shm_addr.
       if shm_addr = -1 then seq (perror ''shmat failed'') (exit_prog 1)
       else seq (printf (''%s: Attached successfully to shmem segment at %p'' @ [LF]) [S prg, I shm_addr]) (ret shm_addr)))"

text \<open>\<open>strtoul(s, 0, 0)\<close>: the prefix gives the base, and a sign is applied modulo the width.\<close>

definition digit_of :: "char \<Rightarrow> nat" where
  "digit_of c = (if isdigit c then code c - 48
     else if 97 \<le> code (tolower c) \<and> code (tolower c) \<le> 122 then code (tolower c) - 87 else 36)"

fun num_val :: "nat \<Rightarrow> nat \<Rightarrow> string \<Rightarrow> nat" where
  "num_val b acc [] = acc"
| "num_val b acc (c # cs) = (if digit_of c < b then num_val b (acc * b + digit_of c) cs else acc)"

definition strtoul0 :: "string \<Rightarrow> nat" where
  "strtoul0 s =
     (let s1 = dropWhile isspace s;
          neg = (s1 \<noteq> [] \<and> hd s1 = CHR ''-'');
          s2 = (if s1 \<noteq> [] \<and> (hd s1 = CHR ''-'' \<or> hd s1 = CHR ''+'') then tl s1 else s1);
          v = (if map tolower (take 2 s2) = ''0x'' \<and> 2 < length s2 \<and> digit_of (s2 ! 2) < 16 then num_val 16 0 (drop 2 s2)
               else if s2 \<noteq> [] \<and> hd s2 = CHR ''0'' then num_val 8 0 s2 else num_val 10 0 s2)
      in if 2 ^ 64 \<le> v then 2 ^ 64 - 1 else if neg then (2 ^ 64 - v) mod 2 ^ 64 else v)"

definition no_key :: "string \<Rightarrow> 'a prog" where
  "no_key prg = seq (eprintf (''%s: ftok() failed, cannot get key value'' @ [LF]) [S prg]) (exit_prog 1)"

text \<open>
  The reply to \<open>attached\<close> is what the segment holds; the event \<open>segment\<close> records what the
  writer leaves in it. The multiplication by 1024 is on an \<open>unsigned long\<close>.
\<close>

definition shm1_w_main :: "string option \<Rightarrow> string list \<Rightarrow> unit prog" where
  "shm1_w_main env argv =
     (if length argv \<noteq> 2 then
        seq (eprintf (''Usage: %s shmem-seg-size-KB'' @ [LF]) [S (argv ! 0)]) (exit_prog 1)
      else let shmsz = strtoul0 (argv ! 1) * 1024 mod 2 ^ 64 in
        if shmsz = 0 \<or> SHMSZ_OUR_MAX < shmsz then
          seq (eprintf (''%s: specified shmem seg size [%lu] invalid..'' @ [LF] @ ''[fyi, our max is %d MB]'' @ [LF])
                [S (argv ! 0), I (int shmsz), I (int (SHMSZ_OUR_MAX div (1024 * 1024)))]) (exit_prog 1)
        else bind (get_key env) (\<lambda>shm_key.
          if shm_key = -1 then no_key (argv ! 0)
          else seq (printf (''%s: key=%d, size=%lu'' @ [LF]) [S (argv ! 0), I shm_key, I (int shmsz)])
            (bind (shm_get (argv ! 0) shm_key shmsz) (\<lambda>shm_id.
             bind (shm_attach (argv ! 0) shm_id) (\<lambda>shm_addr.
             bind (syscall (Call ''attached'' [I shm_addr])) (\<lambda>r.
             bind (shm_fill (argv ! 0) [0..<NUM] (payload r) 0) (\<lambda>seg.
               seq (emit (Did ''segment'' [I shm_addr, S seg])) (exit_prog 0))))))))"

definition sighdlr :: "int \<Rightarrow> unit prog" where
  "sighdlr signum = printf (''-- In sighdlr, sig #%d'' @ [LF]) [I signum]"

fun shm_print :: "nat list \<Rightarrow> string \<Rightarrow> nat \<Rightarrow> unit prog" where
  "shm_print [] seg p = skip"
| "shm_print (n # ns) seg p =
     (if NUL \<notin> set (drop p seg) then stop (Undef ''access outside the segment'')
      else let s = cstr (drop p seg) in
        seq (printf (''%s'' @ [LF]) [S s]) (shm_print ns seg (p + length s + 1)))"

definition shm1_r_main :: "string option \<Rightarrow> string list \<Rightarrow> unit prog" where
  "shm1_r_main env argv =
     bind (icall (Call ''sigaction'' [S ''SIGINT'', S ''sighdlr'', S ''SA_RESTART''])) (\<lambda>r.
       if r = -1 then seq (perror (argv ! 0)) (exit_prog 1)
       else bind (get_key env) (\<lambda>shm_key.
         if shm_key = -1 then no_key (argv ! 0)
         else bind (icall (Call ''shmget'' [I shm_key, I 0, S ''0''])) (\<lambda>shm_id.
           if shm_id < 0 then seq (perror ''shmget failed'') (exit_prog 1)
           else bind (shm_attach (argv ! 0) shm_id) (\<lambda>shm_addr.
             bind (syscall (Call ''attached'' [I shm_addr])) (\<lambda>r.
             seq (shm_print [0..<NUM] (payload r) 0)
            (seq (printf (''%s: Pausing ... press ^C to continue... '' @ [LF]) [S (argv ! 0)])
            (bind (icall (Call ''pause'' [])) (\<lambda>_.
             bind (icall (Call ''shmdt'' [I shm_addr])) (\<lambda>rv.
               if rv < 0 then seq (perror ''shmdt failed'') (exit_prog 1) else exit_prog 0)))))))))"


subsection \<open>The strings that are written are read\<close>

definition packed :: "string list \<Rightarrow> string" where
  "packed ls = concat (map (\<lambda>l. l @ [NUL]) ls)"

lemma packed_simps [simp]: "packed [] = []" "packed (l # ls) = l @ NUL # packed ls" "packed (ls @ [l]) = packed ls @ l @ [NUL]"
  by (simp_all add: packed_def)

lemma shm_put_line:
  assumes "NUL \<notin> set l" "length a = p" "length b = length l + 2"
  shows "shm_put (l @ [LF]) (a @ b @ c) p = Some (a @ l @ [NUL] @ [NUL] @ c, p + length l + 1)"
proof -
  have "put p ((l @ [LF]) @ [NUL]) (a @ b @ c) = a @ ((l @ [LF]) @ [NUL]) @ c"
    using assms(2,3) by (intro put_middle) simp_all
  moreover have "cstr (l @ LF # NUL # c) = l @ [LF]" using cstr_append_NUL[of "l @ [LF]" c] assms(1) by simp
  moreover have "(a @ l @ LF # NUL # c)[p + length l := NUL] = a @ l @ NUL # NUL # c"
    using assms(2) by (simp add: list_update_append)
  moreover have "cstr (l @ NUL # NUL # c) = l" using assms(1) by (rule cstr_append_NUL)
  ultimately show ?thesis using assms(2,3) by (simp add: shm_put_def Let_def)
qed

lemma shm_fill_lines:
  assumes "length ns = length ls" "\<forall>l\<in>set ls. NUL \<notin> set l" "p = length a" "length (packed ls) < length b"
    "script w = map (\<lambda>l. Data (l @ [LF])) ls @ rs"
  shows "\<exists>v c. shm_fill prg ns (a @ b) p w = (Val (a @ packed ls @ c), v) \<and> script v = rs"
  using assms
proof (induction ls arbitrary: ns a b p w)
  case (Cons l ls)
  from Cons.prems(1) obtain n ns' where ns: "ns = n # ns'" by (cases ns) auto
  define b1 c where "b1 = take (length l + 2) b" and "c = drop (length l + 2) b"
  have len: "length l + 2 \<le> length b" using Cons.prems(4) by (simp add: packed_def)
  then have b: "b = b1 @ c" "length b1 = length l + 2" by (auto simp: b1_def c_def)
  have put: "shm_put (l @ [LF]) (a @ b) p = Some ((a @ l @ [NUL]) @ (NUL # c), p + length l + 1)"
    using shm_put_line[of l a p b1 c] Cons.prems(2,3) b by simp
  define u where "u = answered (Call ''fgets'' [I (int LINELENGTH), S ''stdin'']) (Data (l @ [LF]))
     (w\<lparr>trace := trace w @ [Out 1 ''%02d: Enter a string : '' [I (int n)]]\<rparr>)"
  have "script u = map (\<lambda>l. Data (l @ [LF])) ls @ rs" using Cons.prems(5) by (simp add: u_def answered_def)
  moreover have "length (packed ls) < length (NUL # c)" using Cons.prems(4) b by simp
  ultimately obtain v d where "shm_fill prg ns' ((a @ l @ [NUL]) @ (NUL # c)) (p + length l + 1) u = (Val ((a @ l @ [NUL]) @ packed ls @ d), v)"
    "script v = rs" using Cons.IH[of ns' "p + length l + 1" "a @ l @ [NUL]" "NUL # c" u] Cons.prems ns by auto
  with put Cons.prems(5) show ?case
    by (auto simp: ns prog_simps u_def)
qed (auto simp: ret_apply)

lemma shm_print_lines:
  "length ns = length ls \<Longrightarrow> \<forall>l\<in>set ls. NUL \<notin> set l \<Longrightarrow> p = length a \<Longrightarrow>
   shm_print ns (a @ packed ls @ c) p u = (Val (), u\<lparr>trace := trace u @ map (\<lambda>l. Out 1 (''%s'' @ [LF]) [S l]) ls\<rparr>)"
proof (induction ls arbitrary: ns a p u)
  case Nil
  then show ?case by (simp add: skip_apply)
next
  case (Cons l ls)
  from Cons.prems(1) obtain n ns' where ns: "ns = n # ns'" by (cases ns) auto
  have "cstr (l @ NUL # packed ls @ c) = l" using Cons.prems(2) by (intro cstr_append_NUL) simp
  with Cons.prems Cons.IH[of ns' "p + length l + 1" "a @ l @ [NUL]"] show ?case
    by (simp add: ns prog_simps)
qed

text \<open>
  C40: if the user enters ten lines without NUL that fit the segment together, the loop of the writer leaves a
  segment from which the loop of the reader prints exactly these lines, in order.
\<close>

theorem shm_roundtrip:
  assumes "length ls = NUM" and "\<forall>l\<in>set ls. NUL \<notin> set l" and "(\<Sum>l\<leftarrow>ls. length l + 1) < length seg"
    and "script w = map (\<lambda>l. Data (l @ [LF])) ls @ rs"
  shows "\<exists>seg' v. shm_fill prg [0..<NUM] seg 0 w = (Val seg', v) \<and> script v = rs \<and>
    (\<forall>u. shm_print [0..<NUM] seg' 0 u = (Val (), u\<lparr>trace := trace u @ map (\<lambda>l. Out 1 (''%s'' @ [LF]) [S l]) ls\<rparr>))"
proof -
  have "length (packed ls) = (\<Sum>l\<leftarrow>ls. length l + 1)" by (simp add: packed_def length_concat o_def)
  then obtain v c where "shm_fill prg [0..<NUM] seg 0 w = (Val (packed ls @ c), v)" "script v = rs"
    using shm_fill_lines[of "[0..<NUM]" ls 0 "[]" seg w rs prg] assms by auto
  moreover have "shm_print [0..<NUM] (packed ls @ c) 0 u = (Val (), u\<lparr>trace := trace u @ map (\<lambda>l. Out 1 (''%s'' @ [LF]) [S l]) ls\<rparr>)" for u
    using shm_print_lines[of "[0..<NUM]" ls 0 "[]" c u] assms(1,2) by simp
  ultimately show ?thesis by blast
qed

theorem shm_roundtrip_witness:
  "\<exists>seg' v. shm_fill ''w'' [0..<NUM] (replicate 1024 NUL) 0 (boot (replicate NUM (Data (''ab'' @ [LF])))) = (Val seg', v) \<and>
     (\<forall>u. shm_print [0..<NUM] seg' 0 u = (Val (), u\<lparr>trace := trace u @ replicate NUM (Out 1 (''%s'' @ [LF]) [S ''ab''])\<rparr>))"
  using shm_roundtrip[of "replicate NUM ''ab''" "replicate 1024 NUL" "boot (replicate NUM (Data (''ab'' @ [LF])))" "[]" "''w''"]
  by (auto simp: sum_list_replicate)

end
