(* ===== verification/UnixServers.thy ===== *)
theory UnixServers
  imports ForkServers "HOL-Library.Multiset"
begin

text \<open>
  Two more servers: \<^verbatim>\<open>unix_svr.c\<close> of \<^verbatim>\<open>src/ipc/net_sockets/unix_domain\<close>, which forks a child for
  every client, with its client \<^verbatim>\<open>unix_cli.c\<close>, and \<^verbatim>\<open>mt_sfingr.c\<close> of
  \<^verbatim>\<open>src/ipc/net_sockets/inet_domain/mt_finger\<close>, the finger server with a thread for every
  client.
\<close>

section \<open>The server in the Unix domain\<close>

abbreviation (input) SOCKET_NAME :: string where "SOCKET_NAME \<equiv> ''/run/sockname.sk''"
abbreviation (input) HELLO :: string where "HELLO \<equiv> ''hello, unix domain socket world''"

definition fail_exit :: "string \<Rightarrow> 'a prog" where
  "fail_exit msg = seq (perror msg) (exit_prog 1)"

definition unix_sig_child :: "int \<Rightarrow> unit prog" where
  "unix_sig_child signum =
     printf (''%s(): signal %d: using SA_NOCLDWAIT, so no zombie, no problem!'' @ [LF]) [S ''sig_child'', I signum]"

definition unix_child :: "int \<Rightarrow> int \<Rightarrow> unit prog" where
  "unix_child sd ns =
     bind (icall (Close sd)) (\<lambda>_.
     bind (icall (Write ns HELLO)) (\<lambda>n.
       if n = -1 then fail_exit ''write error''
       else bind (icall (Call ''shutdown'' [I ns, S ''SHUT_RDWR''])) (\<lambda>r.
         if r < 0 then fail_exit ''shutdown'' else exit_prog 0)))"

definition unix_turn :: "int \<Rightarrow> unit \<Rightarrow> unit prog" where
  "unix_turn sd _ =
     bind (icall (Call ''accept'' [I sd])) (\<lambda>ns.
       if ns = -1 then fail_exit ''socket accept error''
       else bind (icall (Call ''fork'' [])) (\<lambda>pid.
         if pid = -1 then seq (perror ''fork error'') (emit (Flush 1))
         else if pid = 0 then unix_child sd ns
         else bind (icall (Close ns)) (\<lambda>_. skip)))"

lemma shrinks_unix [shrink_intros]: "shrinks (fail_exit msg)" "shrinks (unix_child sd ns)"
  unfolding unix_child_def fail_exit_def by (intro shrink_intros)+

lemma consumes_unix_turn: "consumes (unix_turn sd u)"
  unfolding unix_turn_def by (intro consumes_bind1 consumes_icall shrink_intros)

function unix_loop :: "int \<Rightarrow> unit \<Rightarrow> unit prog" where
  "unix_loop sd u w = bind (unix_turn sd u) (\<lambda>u w. unix_loop sd u w) w"
  by pat_completeness auto
termination
  by (relation "measure (\<lambda>(sd, u, w). length (script w))") (auto dest: consumesD[OF consumes_unix_turn])

declare unix_loop.simps [simp del]

text \<open>Who is not root is turned away, by the server and by the client.\<close>

definition needs_root :: "string \<Rightarrow> unit prog" where
  "needs_root prg =
     bind (icall (Call ''geteuid'' [])) (\<lambda>e.
     bind (if e \<noteq> 0 then ret True else bind (icall (Call ''getuid'' [])) (\<lambda>u. ret (u \<noteq> 0))) (\<lambda>no.
       whenp no (seq (eprintf (''%s: requires root (to create sock file under /run).'' @ [LF]) [S prg]) (exit_prog 1))))"

definition unix_svr_main :: "string list \<Rightarrow> unit prog" where
  "unix_svr_main argv =
     seq (needs_root (argv ! 0))
    (bind (icall (Call ''unlink'' [S SOCKET_NAME])) (\<lambda>_.
     bind (icall (Call ''socket'' [S ''AF_UNIX'', S ''SOCK_STREAM'', I 0])) (\<lambda>sd.
       if sd = -1 then fail_exit ''socket creation error''
       else bind (icall (Call ''bind'' [I sd, S ''AF_UNIX'', S SOCKET_NAME])) (\<lambda>r.
       if r = -1 then fail_exit ''socket bind error''
       else bind (icall (Call ''listen'' [I sd, I 5])) (\<lambda>r.
       if r = -1 then fail_exit ''socket listen error''
       else bind (icall (Call ''sigaction'' [S ''SIGCHLD'', S ''sig_child'', S ''SA_RESTART | SA_NOCLDSTOP | SA_NOCLDWAIT''])) (\<lambda>r.
       if r = -1 then fail_exit ''signal handling error''
       else unix_loop sd ()))))))"

text \<open>\<open>buf\<close> has 80 bytes; a message that fills it leaves no room for the NUL.\<close>

definition unix_cli_main :: "string list \<Rightarrow> unit prog" where
  "unix_cli_main argv =
     seq (needs_root (argv ! 0))
    (bind (icall (Call ''socket'' [S ''AF_UNIX'', S ''SOCK_STREAM'', I 0])) (\<lambda>sd.
       if sd = -1 then fail_exit ''socket error''
       else bind (icall (Call ''connect'' [I sd, S ''AF_UNIX'', S SOCKET_NAME])) (\<lambda>r.
       if r = -1 then fail_exit ''socket connect error''
       else bind (syscall (Read sd 80)) (\<lambda>r.
       if retval r = -1 then fail_exit ''socket read error''
       else if 80 \<le> retval r then stop (Undef ''write past buf'')
       else seq (printf (''Client: received msg from server:'' @ [LF, CHR 0x22] @ ''%s'' @ [CHR 0x22, LF]) [S (cstr (payload r))])
      (bind (icall (Call ''shutdown'' [I sd, S ''SHUT_RDWR''])) (\<lambda>r.
         if r < 0 then fail_exit ''shutdown'' else exit_prog 0))))))"


section \<open>The finger server with threads\<close>

abbreviation (input) MT_MAXBUF :: nat where "MT_MAXBUF \<equiv> 512"
abbreviation (input) MT_PORT :: int where "MT_PORT \<equiv> 61008"

text \<open>A thread ends with \<open>pthread_exit\<close>.\<close>

definition thread_exit :: "string \<Rightarrow> unit prog" where
  "thread_exit v = emit (Did ''pthread_exit'' [S v])"

definition thrd_err_exit :: "string \<Rightarrow> string \<Rightarrow> int \<Rightarrow> unit prog" where
  "thrd_err_exit prg err exitcode =
     bind (icall (Call ''malloc'' [I 300])) (\<lambda>err_str.
       if err_str = 0 then
         seq (printf ([LF] @ ''%s: malloc failed for err_str..'') [S prg]) (stop (Undef ''null pointer dereference''))
       else seq (perror (snprintf 300 ''%s: %s'' [S prg, S err]))
         (seq (emit (Did ''free'' [I err_str])) (thread_exit (snprintf 4 ''%d'' [I exitcode]))))"

definition mt_err_exit :: "string \<Rightarrow> string \<Rightarrow> int \<Rightarrow> 'a prog" where
  "mt_err_exit prg err exitcode =
     bind (icall (Call ''malloc'' [I (int (length prg + length err + 2))])) (\<lambda>err_str.
       if err_str = 0 then
         seq (printf ([LF] @ ''%s: malloc failed for err_str..'') [S prg]) (stop (Undef ''null pointer dereference''))
       else seq (perror (snprintf (length prg + length err + 2) ''%s: %s'' [S prg, S err]))
         (seq (emit (Did ''free'' [I err_str])) (exit_prog exitcode)))"

definition mt_reply :: "string \<Rightarrow> string \<Rightarrow> passwd option \<Rightarrow> string" where
  "mt_reply prg username p = (case p of
     None \<Rightarrow> snprintf (MT_MAXBUF - 1) ([LF] @ ''%s is unable to get info for %s'' @ [LF]) [S prg, S username]
   | Some p \<Rightarrow> snprintf (MT_MAXBUF - 1) ([TAB] @ ''Username: %s'' @ [LF, TAB] @ ''(encrypted) password: %s'' @ [LF, TAB] @
         ''UID: %d'' @ [LF, TAB] @ ''GID: %d'' @ [LF, TAB] @ ''Comment/FullName: %s'' @ [LF, TAB] @
         ''Home dir: %s'' @ [LF, TAB] @ ''Shell: %s'' @ [LF])
       [S (pw_name p), S (pw_passwd p), I (pw_uid p), I (pw_gid p), S (pw_gecos p), S (pw_dir p), S (pw_shell p)])"

text \<open>
  The end of a thread that has something to answer; \<open>pwd\<close> is what \<open>p\<close> points to after
  \<open>getpwnam_r\<close>, which sets it to NULL when there is no such user.
\<close>

definition mt_answer :: "string \<Rightarrow> int \<Rightarrow> int \<Rightarrow> int \<Rightarrow> int \<Rightarrow> string \<Rightarrow> passwd option \<Rightarrow> unit prog" where
  "mt_answer prg sd username reply pwd user found =
     bind (icall (Write sd (cstr (mt_reply prg user found)))) (\<lambda>n.
       if n = -1 then thrd_err_exit prg ''socket write error'' 6
       else if found = None then
         bind (icall (Close sd)) (\<lambda>_.
         seq (emit (Did ''free'' [I 0])) (seq (emit (Did ''free'' [I username])) (seq (emit (Did ''free'' [I reply])) (thread_exit ''1''))))
       else
         seq (emit (Did ''free'' [I pwd])) (seq (emit (Did ''free'' [I username])) (seq (emit (Did ''free'' [I reply]))
           (bind (icall (Close sd)) (\<lambda>_. thread_exit ''0'')))))"

definition mt_lookup :: "(string \<Rightarrow> passwd option) \<Rightarrow> string \<Rightarrow> int \<Rightarrow> int \<Rightarrow> string \<Rightarrow> unit prog" where
  "mt_lookup getpwnam_r prg sd username user =
     bind (icall (Call ''malloc'' [I (int MT_MAXBUF)])) (\<lambda>reply.
       if reply = 0 then
         seq (printf ([LF] @ ''%s: no memory for reply buffer'') [S prg])
           (seq (emit (Did ''free'' [I username])) (thread_exit ''1''))
       else bind (icall (Call ''malloc'' [S ''sizeof(struct passwd)''])) (\<lambda>p.
         if p = 0 then
           seq (printf ([LF] @ ''%s: no memory for passwd structure'') [S prg])
             (seq (emit (Did ''free'' [I username])) (seq (emit (Did ''free'' [I reply])) (thread_exit ''1'')))
         else mt_answer prg sd username reply p user (getpwnam_r user)))"

definition mt_serve :: "(string \<Rightarrow> passwd option) \<Rightarrow> string \<Rightarrow> int \<Rightarrow> unit prog" where
  "mt_serve getpwnam_r prg sd =
     bind (icall (Call ''malloc'' [I (int MT_MAXBUF)])) (\<lambda>username.
       if username = 0 then
         seq (printf ([LF] @ ''%s: no memory for username buffer'') [S prg]) (thread_exit ''enomem'')
       else bind (syscall (Read sd MT_MAXBUF)) (\<lambda>r.
         if retval r = -1 then thrd_err_exit prg ''socket read error'' 6
         else if int MT_MAXBUF \<le> retval r then stop (Undef ''write past username'')
         else mt_lookup getpwnam_r prg sd username (cstr (payload r))))"

definition mt_process_client :: "(string \<Rightarrow> passwd option) \<Rightarrow> bool \<Rightarrow> string \<Rightarrow> int \<Rightarrow> unit prog" where
  "mt_process_client getpwnam_r verbose prg sd =
     seq (whenp verbose (bind (icall (Call ''getpid'' [])) (\<lambda>pid.
            printf (''%s: child thread (%d) on socket sd %d'' @ [LF]) [S prg, I pid, I sd])))
       (mt_serve getpwnam_r prg sd)"

text \<open>
  One turn of the main thread, which says whether to go on. When no thread could
  be created, the handle that is detached is not that of a thread.
\<close>

definition mt_turn :: "bool \<Rightarrow> int \<Rightarrow> string \<Rightarrow> bool prog" where
  "mt_turn verbose sd prg =
     seq (whenp verbose (bind (icall (Call ''getpid'' [])) (\<lambda>pid.
            printf (''%s: pid %d blocking on accept()..'' @ [LF]) [S prg, I pid])))
    (seq (emit (Flush 1))
    (bind (syscall (Call ''accept'' [I sd])) (\<lambda>r.
       let newsd = retval r in
       if newsd = -1 then mt_err_exit prg ''socket accept error'' 5
       else seq (printf ([LF] @ ''Server %s: client connected now from IP %s port # %d'' @ [LF]) [S prg, I (out 0 r), I (out 1 r)])
      (seq (emit (Flush 1))
      (bind (syscall (Call ''pthread_create'' [S ''process_client'', I newsd])) (\<lambda>r.
         if retval r \<noteq> 0 then seq (perror ''pthread creation'') (stop (Undef ''detach of no thread''))
         else bind (icall (Call ''pthread_detach'' [I (out 0 r)])) (\<lambda>d.
           if d \<noteq> 0 then seq (perror ''svr: pthread detach failed'') (ret False)
           else seq (whenp verbose (printf (''%s: child thread created & detached'' @ [LF]) [S prg]))
             (seq (emit (Flush 1)) (ret True)))))))))"

lemma shrinks_mt_err_exit [shrink_intros]: "shrinks (mt_err_exit prg err n)"
  unfolding mt_err_exit_def by (intro shrink_intros)

lemma consumes_mt_turn: "consumes (mt_turn verbose sd prg)"
  unfolding mt_turn_def Let_def by (intro consumes_seq2 consumes_bind1 consumes_syscall shrink_intros)

function mt_loop :: "bool \<Rightarrow> int \<Rightarrow> string \<Rightarrow> unit prog" where
  "mt_loop verbose sd prg w = bind (mt_turn verbose sd prg) (\<lambda>go_on w. if go_on then mt_loop verbose sd prg w else skip w) w"
  by pat_completeness auto
termination
  by (relation "measure (\<lambda>(v, sd, prg, w). length (script w))") (auto dest: consumesD[OF consumes_mt_turn])

declare mt_loop.simps [simp del]

definition mt_sfingr_main :: "string list \<Rightarrow> int prog" where
  "mt_sfingr_main argv =
     (let prg = argv ! 0; verbose = (1 < length argv \<and> strcmp (argv ! 1) ''-v'' = 0) in
      bind (icall (Call ''socket'' [S ''PF_INET'', S ''SOCK_STREAM'', I 0])) (\<lambda>sd.
        if sd = -1 then mt_err_exit prg ''socket creation error'' 1
        else seq (whenp verbose (printf (''%s: tcp socket created'' @ [LF]) [S prg]))
       (bind (icall (Call ''bind'' [I sd, S ''INADDR_ANY'', I MT_PORT])) (\<lambda>r.
        if r = -1 then mt_err_exit prg ''socket bind error'' 2
        else seq (whenp verbose (printf (''%s: bind done at IP %s port %d'' @ [LF]) [S prg, S ''127.0.0.1'', I MT_PORT]))
       (bind (icall (Call ''listen'' [I sd, I 5])) (\<lambda>r.
        if r = -1 then mt_err_exit prg ''socket listen error'' 3
        else seq (whenp verbose (printf (''%s: listen q set up'' @ [LF]) [S prg]))
          (seq (mt_loop verbose sd prg) (ret 0))))))))"

section \<open>Connections of the forking servers\<close>

interpretation unixsvr: service "unix_turn sd" "unix_loop sd" for sd
  by unfold_locales (rule unix_loop.simps, rule consumes_unix_turn)

lemma fail_exit_appends: "appends (fail_exit msg)"
  unfolding fail_exit_def by (intro emits_intros TrueI)

lemma unix_child_appends: "appends (unix_child sd ns)"
  unfolding unix_child_def by (intro emits_intros fail_exit_appends TrueI)

lemma unix_turn_appends: "appends (unix_turn sd u)"
  unfolding unix_turn_def by (intro emits_intros fail_exit_appends unix_child_appends TrueI)

lemma conn_fail: "tracks conn_mon (fail_exit m) Q s"
  unfolding fail_exit_def by (intro tracks_quiet emits_intros TrueI; simp)

lemma conn_unix_turn: "tracks conn_mon (unix_turn sd u) (\<lambda>_ s. s = None) None"
proof -
  let ?fork = "\<lambda>ns. bind (icall (Call ''fork'' [])) (\<lambda>pid.
      if pid = -1 then seq (perror ''fork error'') (emit (Flush 1))
      else if pid = 0 then unix_child sd ns else bind (icall (Close ns)) (\<lambda>_. skip))"
  have fa: "appends (?fork ns)" for ns by (intro emits_intros unix_child_appends TrueI)
  have fork: "tracks conn_mon (?fork ns) (\<lambda>_ s. s = None) (Some ns)" for ns
    by (rule conn_fork[OF _ _ _ conn_close]) (intro emits_intros unix_child_appends TrueI)+
  have "tracks conn_mon (icall (Call ''accept'' [I sd])) (\<lambda>ns s. ns \<noteq> -1 \<longrightarrow> s = Some ns) None"
    by (rule tracks_icall) auto
  then show ?thesis
    unfolding unix_turn_def by (rule tracks_bind) (use fa fork fail_exit_appends in \<open>auto intro: conn_fail\<close>)
qed

lemma conn_unix_loop: "tracks conn_mon (unix_loop sd ()) (\<lambda>_ _. False) None"
  by (rule unixsvr.tracks_loop[where J = "\<lambda>_ s. s = None"]; simp add: conn_unix_turn unix_turn_appends)

section \<open>The message of the server in the Unix domain\<close>

abbreviation (input) CLI_FMT :: string where
  "CLI_FMT \<equiv> ''Client: received msg from server:'' @ [LF, CHR 0x22] @ ''%s'' @ [CHR 0x22, LF]"

lemma unix_child_delivers:
  assumes "unix_child sd ns w = (r, v)"
  shows "\<exists>k. delivered ns (trace v) = delivered ns (trace w) @ take k HELLO"
proof -
  let ?Q = "\<lambda>v. \<exists>k. delivered ns (trace v) = delivered ns (trace w) @ take k HELLO"
  have "take 0 HELLO = []" by simp
  then have "wp (unix_child sd ns) (\<lambda>_. ?Q) (\<lambda>_. ?Q) w"
    unfolding unix_child_def fail_exit_def
    by (auto simp: wp_simps answered_def delivered_Cons simp del: take_0 split: list.splits intro: exI[of _ 0])
  then show ?thesis using assms by (cases r) (auto simp: wp_def)
qed

lemma unix_cli_shows:
  assumes "unix_cli_main argv w = (Halt (Exited 0), v)" "trace w = []"
  shows "\<exists>s. length s < 80 \<and> reads (trace v) = [s] \<and> shown (trace v) = [(CLI_FMT, [S (cstr s)])]"
proof -
  have "wp (unix_cli_main argv) (\<lambda>_ _. True) (\<lambda>h v. h = Exited 0 \<longrightarrow>
      (\<exists>s. length s < 80 \<and> reads (trace v) = [s] \<and> shown (trace v) = [(CLI_FMT, [S (cstr s)])])) w"
    unfolding unix_cli_main_def needs_root_def fail_exit_def
    by (auto simp: wp_simps answered_def assms(2) reads_def shown_def map_filter_simps
        intro: payload_short[of _ 80, simplified] split: list.splits)
  then show ?thesis using assms by (auto dest: wpD_Halt)
qed

text \<open>
  A client in the Unix domain that ends well shows exactly one text, and it
  is what the child of the server sent: a beginning of the greeting, the whole of it when
  the system took and gave it in one piece.
\<close>

lemma unix_exchange:
  assumes "unix_child lsd ns w = (r, v)" "trace w = []"
    and "unix_cli_main argv w' = (Halt (Exited 0), v')" "trace w' = []"
    and "\<forall>s\<in>set (reads (trace v')). prefix s (delivered ns (trace v))"
  shows "\<exists>s. shown (trace v') = [(CLI_FMT, [S s])] \<and> prefix s HELLO \<and> reads (trace v') = [s]"
proof -
  obtain s where s: "reads (trace v') = [s]" "shown (trace v') = [(CLI_FMT, [S (cstr s)])]"
    using unix_cli_shows[OF assms(3,4)] by auto
  obtain k where "delivered ns (trace v) = take k HELLO"
    using unix_child_delivers[OF assms(1)] assms(2) by auto
  then have p: "prefix s HELLO"
    using assms(5) s(1) take_is_prefix[of k HELLO] prefix_order.trans by auto
  then have "cstr s = s" by (intro cstr_id) (use set_mono_prefix[OF p] in auto)
  with s p show ?thesis by simp
qed

theorem unix_exchange_witness:
  "shown (trace (snd (unix_cli_main [''cli''] (boot [Ret 0, Ret 0, Ret 3, Ret 0, Data HELLO, Ret 0])))) = [(CLI_FMT, [S HELLO])]"
proof -
  let ?b = "boot [Ret 0, Ret 31, Ret 0]" and ?c = "boot [Ret 0, Ret 0, Ret 3, Ret 0, Data HELLO, Ret 0]"
  have a: "delivered 4 (trace (snd (unix_child 3 4 ?b))) = HELLO" by code_simp
  have b: "fst (unix_cli_main [''cli''] ?c) = Halt (Exited 0)" by code_simp
  have c: "reads (trace (snd (unix_cli_main [''cli''] ?c))) = [HELLO]" by code_simp
  have "trace ?b = []" "trace ?c = []" by (simp_all add: boot_def)
  with unix_exchange[OF surjective_pairing _ run_eq[OF b], where lsd = 3 and ns = 4 and w = ?b] a c show ?thesis by auto
qed

section \<open>The threads of the finger server\<close>

text \<open>A connection is accepted, handed to a new thread, and the thread detached.\<close>

fun mt_mon :: "(bool \<times> int) option monitor" where
  "mt_mon (Sys (Call f xs) r) s =
     (if f = ''accept'' then
        (if s \<noteq> None then Wrong else if retval r = -1 then At None else At (Some (False, retval r)))
      else if f = ''pthread_create'' then
        (case s of Some (False, fd) \<Rightarrow> if xs = [S ''process_client'', I fd] then At (Some (True, out 0 r)) else Wrong | _ \<Rightarrow> Wrong)
      else if f = ''pthread_detach'' then (case s of Some (True, tid) \<Rightarrow> if xs = [I tid] then At None else Wrong | _ \<Rightarrow> Wrong)
      else At s)"
| "mt_mon (Pending (Call f xs)) s = (if f = ''accept'' \<and> s \<noteq> None then Wrong else At s)"
| "mt_mon (Sys (Close fd) r) s = Wrong"
| "mt_mon e s = At s"

lemma mt_err_appends: "appends (mt_err_exit prg m n)"
  unfolding mt_err_exit_def by (intro emits_intros TrueI)

lemma mt_turn_appends: "appends (mt_turn verbose sd prg)"
  unfolding mt_turn_def Let_def by (intro emits_intros mt_err_appends TrueI)

lemma mt_err_tracks: "tracks mt_mon (mt_err_exit prg m n) Q s"
  unfolding mt_err_exit_def
  by (rule tracks_wp TrueI impI conjI | (intro emits_intros TrueI; fail) | simp)+

lemma mt_turn_tracks: "tracks mt_mon (mt_turn verbose sd prg) (\<lambda>_ s. s = None) None"
  unfolding mt_turn_def Let_def
  by (rule tracks_wp TrueI impI conjI mt_err_tracks | (intro emits_intros mt_err_appends TrueI; fail) | simp)+

lemma mt_loop_appends: "appends (mt_loop verbose sd prg)"
proof -
  have "\<exists>es. trace (snd (mt_loop verbose sd prg w)) = trace w @ es \<and> list_all (\<lambda>_. True) es" for w
  proof (induction verbose sd prg w rule: mt_loop.induct)
    case (1 verbose sd prg w)
    show ?case
      by (rule loop_emits[OF mt_loop.simps[of verbose sd prg w] mt_turn_appends])
        (use 1 in \<open>auto simp: skip_apply\<close>)
  qed
  then show ?thesis by (simp add: emits_def)
qed

lemma mt_loop_tracks: "tracks mt_mon (mt_loop verbose sd prg) (\<lambda>_ _. True) None"
proof -
  have "tracks_at mt_mon (mt_loop verbose sd prg) (\<lambda>_ _. True) None w" for w
  proof (induction "length (script w)" arbitrary: w rule: less_induct)
    case less
    let ?k = "\<lambda>go_on w. if go_on then mt_loop verbose sd prg w else skip w"
    have k: "?k go_on = (if go_on then mt_loop verbose sd prg else skip)" for go_on by simp
    have "tracks_at mt_mon (bind (mt_turn verbose sd prg) ?k) (\<lambda>_ _. True) None w"
    proof (rule tracks_at_bind)
      show "tracks_at mt_mon (mt_turn verbose sd prg) (\<lambda>_ s. s = None) None w"
        using mt_turn_tracks by (simp add: tracks_def)
      show "appends (?k go_on)" for go_on
        unfolding k by (intro emits_intros mt_loop_appends TrueI)
      show "tracks_at mt_mon (?k go_on) (\<lambda>_ _. True) t v"
        if "mt_turn verbose sd prg w = (Val go_on, v)" "t = None" for go_on v t
        using less[of v] consumesD[OF consumes_mt_turn that(1)] that(2)
        unfolding k by (auto simp: tracks_skip[unfolded tracks_def])
    qed
    then show ?case by (simp add: tracks_at_def mt_loop.simps[of verbose sd prg w])
  qed
  then show ?thesis by (simp add: tracks_def)
qed

text \<open>What a thread does with its connection and with the memory it gets.\<close>

fun closes :: "int \<Rightarrow> event \<Rightarrow> bool" where
  "closes sd (Sys (Close f) r) = (f = sd)"
| "closes sd e = False"

fun answers :: "int \<Rightarrow> event \<Rightarrow> bool" where
  "answers sd (Sys (Write f b) r) = (f = sd \<and> retval r \<noteq> -1)"
| "answers sd e = False"

fun got_mem :: "event \<Rightarrow> int option" where
  "got_mem (Sys (Call f xs) r) = (if f = ''malloc'' \<and> retval r \<noteq> 0 then Some (retval r) else None)"
| "got_mem e = None"

fun freed_mem :: "event \<Rightarrow> int option" where
  "freed_mem (Did f xs) = (case xs of [I p] \<Rightarrow> if f = ''free'' \<and> p \<noteq> 0 then Some p else None | _ \<Rightarrow> None)"
| "freed_mem e = None"

definition wrote :: "event list \<Rightarrow> (int \<times> string) list" where
  "wrote es = List.map_filter (\<lambda>e. case e of Sys (Write f b) r \<Rightarrow> Some (f, b) | _ \<Rightarrow> None) es"

lemma mt_reply_text: "mt_reply prg user (Some p) = take 510 (fingr_text p)"
  by (simp add: mt_reply_def fingr_text_def snprintf_def cformat.simps[of "_ # _"] cformat.simps[of "[]"]
        parse_spec_def isdigit_def code_def pad_def)

definition reply_to :: "(string \<Rightarrow> passwd option) \<Rightarrow> string \<Rightarrow> int \<Rightarrow> event list \<Rightarrow> string" where
  "reply_to getpwnam_r prg sd es =
     (let user = cstr (received sd es) in cstr (mt_reply prg user (getpwnam_r user)))"

text \<open>
  The connection is closed when an answer was written and only then; at most one
  answer is written, the one to the request; a thread that ends with 0 has freed what it got.
\<close>

definition thread_ok :: "(string \<Rightarrow> passwd option) \<Rightarrow> string \<Rightarrow> int \<Rightarrow> event list \<Rightarrow> bool" where
  "thread_ok getpwnam_r prg sd es \<longleftrightarrow>
     length (filter (closes sd) es) = length (filter (answers sd) es) \<and>
     wrote es \<in> {[], [(sd, reply_to getpwnam_r prg sd es)]} \<and>
     (last es = Did ''pthread_exit'' [S ''0''] \<longrightarrow>
        mset (List.map_filter got_mem es) = mset (List.map_filter freed_mem es))"

text \<open>Before it: nothing is closed, and no answer has got through.\<close>

definition unanswered :: "(string \<Rightarrow> passwd option) \<Rightarrow> string \<Rightarrow> int \<Rightarrow> event list \<Rightarrow> bool" where
  "unanswered getpwnam_r prg sd es \<longleftrightarrow> filter (closes sd) es = [] \<and> filter (answers sd) es = [] \<and>
     wrote es \<in> {[], [(sd, reply_to getpwnam_r prg sd es)]}"

lemma exit_code_6: "snprintf 4 ''%d'' [I 6] = ''6''"
  by code_simp

lemmas thread_simps = wp_simps answered_def wrote_def map_filter_simps map_filter_append reply_to_def received_Cons Let_def

lemma mt_err_ok:
  assumes "unanswered g prg sd (trace w)"
  shows "wp (thrd_err_exit prg m 6) (\<lambda>_ v. thread_ok g prg sd (trace v)) (\<lambda>_ _. True) w"
  using assms unfolding thrd_err_exit_def thread_exit_def
  by (auto simp: thread_simps exit_code_6 unanswered_def thread_ok_def split: list.splits)

lemma mt_answer_ok:
  assumes "unanswered g prg sd (trace w)" "wrote (trace w) = []" "user = cstr (received sd (trace w))"
    "List.map_filter got_mem (trace w) = [u, r, p]" "List.map_filter freed_mem (trace w) = []" "u \<noteq> 0" "r \<noteq> 0" "p \<noteq> 0"
  shows "wp (mt_answer prg sd u r p user (g user)) (\<lambda>_ v. thread_ok g prg sd (trace v)) (\<lambda>_ _. True) w"
proof -
  have err: "wp (thrd_err_exit prg m 6) (\<lambda>_ v. thread_ok g prg sd (trace v)) (\<lambda>_ _. True)
      (answered (Write sd (cstr (mt_reply prg user (g user)))) a w)" if "retval a = -1" for a m
    by (rule mt_err_ok) (use assms(1-3) that in \<open>simp add: unanswered_def thread_simps\<close>)
  show ?thesis
  proof (cases "script w")
    case Nil
    then show ?thesis by (simp add: mt_answer_def wp_simps)
  next
    case (Cons a rs)
    then show ?thesis
    proof (cases "retval a = -1 \<or> rs = []")
      case True
      then show ?thesis using Cons err[of a] by (auto simp: mt_answer_def wp_simps answered_def)
    next
      case False
      then obtain b rs' where "script w = a # b # rs'" using Cons by (cases rs) auto
      then show ?thesis using assms False
        by (cases "g user") (simp_all add: mt_answer_def thread_exit_def thread_simps unanswered_def thread_ok_def)
    qed
  qed
qed

lemma mt_lookup_ok:
  assumes "unanswered g prg sd (trace w)" "wrote (trace w) = []" "user = cstr (received sd (trace w))"
    "List.map_filter got_mem (trace w) = [u]" "List.map_filter freed_mem (trace w) = []" "u \<noteq> 0"
  shows "wp (mt_lookup g prg sd u user) (\<lambda>_ v. thread_ok g prg sd (trace v)) (\<lambda>_ _. True) w"
proof (cases "script w")
  case Nil
  then show ?thesis by (simp add: mt_lookup_def wp_simps)
next
  case (Cons a rs)
  then show ?thesis
  proof (cases "retval a = 0")
    case True
    then show ?thesis using Cons assms
      by (simp add: mt_lookup_def thread_exit_def thread_simps unanswered_def thread_ok_def)
  next
    case False
    show ?thesis
    proof (cases rs)
      case Nil
      with Cons False show ?thesis by (simp add: mt_lookup_def wp_simps answered_def)
    next
      case (Cons b rs')
      let ?v = "answered (Call ''malloc'' [S ''sizeof(struct passwd)'']) b (answered (Call ''malloc'' [I (int MT_MAXBUF)]) a w)"
      have "wp (mt_answer prg sd u (retval a) (retval b) user (g user)) (\<lambda>_ v. thread_ok g prg sd (trace v)) (\<lambda>_ _. True) ?v"
        if "retval b \<noteq> 0"
        by (rule mt_answer_ok) (use assms False that in \<open>simp_all add: thread_simps unanswered_def\<close>)
      with Cons \<open>script w = a # rs\<close> False assms show ?thesis
        by (cases "retval b = 0")
          (simp_all add: mt_lookup_def thread_exit_def thread_simps unanswered_def thread_ok_def)
    qed
  qed
qed

definition fresh :: "int \<Rightarrow> world \<Rightarrow> bool" where
  "fresh sd w \<longleftrightarrow> filter (closes sd) (trace w) = [] \<and> filter (answers sd) (trace w) = [] \<and> wrote (trace w) = [] \<and>
     received sd (trace w) = [] \<and> List.map_filter got_mem (trace w) = [] \<and> List.map_filter freed_mem (trace w) = []"

lemma mt_serve_ok:
  assumes "fresh sd w"
  shows "wp (mt_serve g prg sd) (\<lambda>_ v. thread_ok g prg sd (trace v)) (\<lambda>_ _. True) w"
proof (cases "script w")
  case Nil
  then show ?thesis by (simp add: mt_serve_def wp_simps)
next
  case (Cons a rs)
  then show ?thesis
  proof (cases "retval a = 0")
    case True
    then show ?thesis using Cons assms
      by (simp add: mt_serve_def thread_exit_def thread_simps fresh_def thread_ok_def)
  next
    case False
    show ?thesis
    proof (cases rs)
      case Nil
      with Cons False show ?thesis by (simp add: mt_serve_def wp_simps answered_def)
    next
      case (Cons b rs')
      let ?v = "answered (Read sd MT_MAXBUF) b (answered (Call ''malloc'' [I (int MT_MAXBUF)]) a w)"
      have "wp (mt_lookup g prg sd (retval a) (cstr (payload b))) (\<lambda>_ v. thread_ok g prg sd (trace v)) (\<lambda>_ _. True) ?v"
        by (rule mt_lookup_ok) (use assms False in \<open>simp_all add: thread_simps unanswered_def fresh_def\<close>)
      moreover have "wp (thrd_err_exit prg m 6) (\<lambda>_ v. thread_ok g prg sd (trace v)) (\<lambda>_ _. True) ?v" for m
        by (rule mt_err_ok) (use assms in \<open>simp add: thread_simps unanswered_def fresh_def\<close>)
      ultimately show ?thesis using Cons \<open>script w = a # rs\<close> False
        by (simp add: mt_serve_def wp_simps answered_def)
    qed
  qed
qed

lemma mt_thread_ok:
  assumes "mt_process_client g verbose prg sd w = (Val (), v)" "trace w = []"
  shows "thread_ok g prg sd (trace v)"
proof -
  have "fresh sd w" using assms(2) by (simp add: fresh_def thread_simps)
  moreover have "fresh sd ((answered (Call ''getpid'' []) a w)\<lparr>trace := trace (answered (Call ''getpid'' []) a w) @ [Out 1 f xs]\<rparr>)" for a f xs
    using assms(2) by (simp add: fresh_def thread_simps)
  ultimately have "wp (mt_process_client g verbose prg sd) (\<lambda>_ v. thread_ok g prg sd (trace v)) (\<lambda>_ _. True) w"
    unfolding mt_process_client_def by (auto simp: wp_simps mt_serve_ok split: list.splits)
  then show ?thesis using assms(1) by (rule wpD_Val)
qed

text \<open>
  C33: the main thread of the finger server hands every connection it accepts to one new thread, which it detaches before
  it accepts the next, and never closes one itself. A thread that ends with \<open>pthread_exit\<close> has
  written at most one answer, the reply to the request it read, which for a known user
  is the first 510 bytes of the entry; it has closed the connection if and only
  if the answer was written, so that every thread that fails earlier leaves it open; a thread
  that ends with 0 has freed all the memory it got.
\<close>

theorem mt_finger_threads:
  "(\<exists>es. trace (snd (mt_loop verbose lsd prg w)) = trace w @ es \<and> mrun mt_mon es None \<noteq> Wrong) \<and>
   (mt_process_client getpwnam_r verbose prg sd (boot rs) = (Val (), v) \<longrightarrow> thread_ok getpwnam_r prg sd (trace v)) \<and>
   mt_reply prg user (Some e) = take 510 (fingr_text e)"
  using tracks_not_wrong[OF mt_loop_tracks] mt_thread_ok[where w = "boot rs"] mt_reply_text by (simp add: boot_def)

theorem mt_finger_threads_witness:
  "thread_ok (\<lambda>_. None) ''svr'' 4
     [Sys (Call ''malloc'' [I 512]) (Ret 100), Sys (Read 4 512) (Data ''joe''), Sys (Call ''malloc'' [I 512]) (Ret 200),
      Sys (Call ''malloc'' [S ''sizeof(struct passwd)'']) (Ret 300),
      Sys (Write 4 ([LF] @ ''svr is unable to get info for joe'' @ [LF])) (Ret 35), Sys (Close 4) (Ret 0),
      Did ''free'' [I 0], Did ''free'' [I 100], Did ''free'' [I 200], Did ''pthread_exit'' [S ''1'']]"
proof -
  let ?r = "mt_process_client (\<lambda>_. None) False ''svr'' 4 (boot [Ret 100, Data ''joe'', Ret 200, Ret 300, Ret 35, Ret 0])"
  have "fst ?r = Val ()" by code_simp
  moreover have "trace (snd ?r) =
     [Sys (Call ''malloc'' [I 512]) (Ret 100), Sys (Read 4 512) (Data ''joe''), Sys (Call ''malloc'' [I 512]) (Ret 200),
      Sys (Call ''malloc'' [S ''sizeof(struct passwd)'']) (Ret 300),
      Sys (Write 4 ([LF] @ ''svr is unable to get info for joe'' @ [LF])) (Ret 35), Sys (Close 4) (Ret 0),
      Did ''free'' [I 0], Did ''free'' [I 100], Did ''free'' [I 200], Did ''pthread_exit'' [S ''1'']]" by code_simp
  ultimately show ?thesis
    using mt_finger_threads[of False 3 "''svr''" "boot []" "\<lambda>_. None" 4 "[Ret 100, Data ''joe'', Ret 200, Ret 300, Ret 35, Ret 0]" "snd ?r"]
      run_eq[of ?r "Val ()"] by metis
qed



end
