(* ===== verification/RawUdp.thy ===== *)
theory RawUdp
  imports Kernel "HOL-Library.Word"
begin

text \<open>
  The programs of \<^verbatim>\<open>src/ipc/net_sockets/raw_sock\<close>, which build an Ethernet frame in a buffer
  and send it on a raw socket: \<^verbatim>\<open>raw_eth_ipv4_udp_tx.c\<close>, a UDP datagram with its checksums, and
  \<^verbatim>\<open>raw_sock_ethframe.c\<close>. Bytes are characters; a 16-bit number is stored with its low byte first, as on the
  machines the programs are built for, and \<open>htons\<close> swaps its bytes.
\<close>

unbundle bit_operations_syntax

section \<open>The checksum\<close>

definition byte64 :: "char \<Rightarrow> 64 word" where
  "byte64 c = of_nat (of_char c)"

definition short64 :: "char \<Rightarrow> char \<Rightarrow> 64 word" where
  "short64 a b = byte64 a + 256 * byte64 b"

text \<open>The loop, with what is left of the buffer and of \<open>len\<close>; None when it reads past the end.\<close>

fun checksum_loop :: "64 word \<Rightarrow> char list \<Rightarrow> nat \<Rightarrow> 64 word option" where
  "checksum_loop csum buf 0 = Some csum"
| "checksum_loop csum (a # buf) (Suc 0) = Some (csum + byte64 a)"
| "checksum_loop csum (a # b # buf) (Suc (Suc len)) = checksum_loop (csum + short64 a b) buf len"
| "checksum_loop csum buf (Suc len) = None"

definition checksum :: "char list \<Rightarrow> nat \<Rightarrow> 16 word option" where
  "checksum buf len = map_option (\<lambda>csum.
     let csum = drop_bit 16 csum + (csum AND 0xffff);
         csum = csum + drop_bit 16 csum
     in ucast (NOT csum)) (checksum_loop 0 buf len)"


section \<open>The frame\<close>

abbreviation (input) PAYLOAD :: string where "PAYLOAD \<equiv> ''Hello, UDP!''"
abbreviation (input) ETH_FRAME_LEN :: nat where "ETH_FRAME_LEN \<equiv> 1514"
abbreviation (input) ETH_HDR_LEN :: nat where "ETH_HDR_LEN \<equiv> 14"
abbreviation (input) IP_HDR_LEN :: nat where "IP_HDR_LEN \<equiv> 20"
abbreviation (input) UDP_HDR_LEN :: nat where "UDP_HDR_LEN \<equiv> 8"
abbreviation (input) PSEUDO_LEN :: nat where "PSEUDO_LEN \<equiv> 12"

text \<open>A number that is stored as it is, and one that goes through \<open>htons\<close>.\<close>

definition host16 :: "16 word \<Rightarrow> string" where
  "host16 n = [char_of (unat n mod 256), char_of (unat n div 256)]"

definition net16 :: "nat \<Rightarrow> string" where
  "net16 n = [char_of (n div 256 mod 256), char_of (n mod 256)]"

abbreviation (input) dest_mac :: string where "dest_mac \<equiv> replicate 6 (char_of (255::nat))"
abbreviation (input) saddr :: string where "saddr \<equiv> map char_of [192, 168, 0, 100::nat]"
abbreviation (input) daddr :: string where "daddr \<equiv> map char_of [192, 168, 0, 255::nat]"

definition eth_header :: "string \<Rightarrow> char list \<Rightarrow> char list" where
  "eth_header mac sendbuf = put 12 [CHR 0x08, NUL] (put 6 mac (put 0 dest_mac sendbuf))"

text \<open>
  The members of \<open>iphdr\<close> in the order of the assignments: \<open>ihl\<close> and \<open>version\<close> share a byte.
\<close>

definition ip_fields :: "nat \<Rightarrow> char list \<Rightarrow> char list" where
  "ip_fields data_len sendbuf =
     put (ETH_HDR_LEN + 16) daddr (put (ETH_HDR_LEN + 12) saddr (put (ETH_HDR_LEN + 10) (host16 0)
       (put (ETH_HDR_LEN + 9) [char_of (17::nat)] (put (ETH_HDR_LEN + 8) [char_of (64::nat)] (put (ETH_HDR_LEN + 6) (net16 0)
         (put (ETH_HDR_LEN + 4) (net16 12345) (put (ETH_HDR_LEN + 2) (net16 (IP_HDR_LEN + UDP_HDR_LEN + data_len))
           (put (ETH_HDR_LEN + 1) [NUL] (put ETH_HDR_LEN [char_of (0x45::nat)] sendbuf)))))))))"

definition ip_check :: "char list \<Rightarrow> char list option" where
  "ip_check sendbuf = map_option (\<lambda>c. put (ETH_HDR_LEN + 10) (host16 c) sendbuf)
     (checksum (drop ETH_HDR_LEN sendbuf) IP_HDR_LEN)"

definition udp_fields :: "string \<Rightarrow> char list \<Rightarrow> char list" where
  "udp_fields data sendbuf =
     (let udph = ETH_HDR_LEN + IP_HDR_LEN in
      put (udph + UDP_HDR_LEN) data (put (udph + 6) (host16 0) (put (udph + 4) (net16 (UDP_HDR_LEN + length data))
        (put (udph + 2) (net16 54321) (put udph (net16 12345) sendbuf)))))"

definition pseudo_header :: "nat \<Rightarrow> char list \<Rightarrow> string" where
  "pseudo_header data_len sendbuf =
     take 4 (drop (ETH_HDR_LEN + 12) sendbuf) @ take 4 (drop (ETH_HDR_LEN + 16) sendbuf) @
       [NUL, char_of (17::nat)] @ net16 (UDP_HDR_LEN + data_len)"

definition udp_check :: "nat \<Rightarrow> char list \<Rightarrow> char list option" where
  "udp_check data_len sendbuf =
     (let udph = ETH_HDR_LEN + IP_HDR_LEN;
          pseudogram = pseudo_header data_len sendbuf @ take (UDP_HDR_LEN + data_len) (drop udph sendbuf)
      in map_option (\<lambda>c. put (udph + 6) (host16 c) sendbuf) (checksum pseudogram (PSEUDO_LEN + UDP_HDR_LEN + data_len)))"


section \<open>The programs\<close>

text \<open>
  The steps both programs have: the socket, the index and the address of the
  interface, whose bytes are the results of the second \<open>ioctl\<close>.
\<close>

definition raw_fail :: "string \<Rightarrow> 'a prog" where
  "raw_fail msg = seq (perror msg) (exit_prog EXIT_FAILURE)"

definition raw_open :: "(int \<times> int \<times> string) prog" where
  "raw_open =
     bind (icall (Call ''socket'' [S ''AF_PACKET'', S ''SOCK_RAW'', S ''ETH_P_ALL''])) (\<lambda>sockfd.
       if sockfd = -1 then raw_fail ''socket''
       else bind (syscall (Call ''ioctl'' [I sockfd, S ''SIOCGIFINDEX'', S ''wlo1''])) (\<lambda>if_idx.
         if retval if_idx < 0 then raw_fail ''SIOCGIFINDEX''
         else bind (syscall (Call ''ioctl'' [I sockfd, S ''SIOCGIFHWADDR'', S ''wlo1''])) (\<lambda>if_mac.
           if retval if_mac < 0 then raw_fail ''SIOCGIFHWADDR''
           else ret (sockfd, out 0 if_idx, map (\<lambda>i. char_of (nat (out i if_mac))) [0..<6]))))"

definition raw_send :: "int \<Rightarrow> int \<Rightarrow> string \<Rightarrow> string \<Rightarrow> int prog" where
  "raw_send sockfd ifindex frame msg =
     bind (icall (Call ''sendto'' [I sockfd, S frame, I 0, I ifindex, I 6, S dest_mac])) (\<lambda>n.
       if n < 0 then
         seq (perror ''sendto'') (bind (icall (Close sockfd)) (\<lambda>_. exit_prog EXIT_FAILURE))
       else seq (printf msg []) (bind (icall (Close sockfd)) (\<lambda>_. ret 0)))"

text \<open>\<open>junk\<close> is what \<open>sendbuf\<close> holds before it is written.\<close>

definition raw_udp_packet :: "char list \<Rightarrow> string \<Rightarrow> int \<Rightarrow> int \<Rightarrow> string \<Rightarrow> int prog" where
  "raw_udp_packet junk data sockfd ifindex mac =
     (let data_len = length data in
      case ip_check (ip_fields data_len (eth_header mac junk)) of
        None \<Rightarrow> stop (Undef ''read past sendbuf'')
      | Some buf \<Rightarrow>
          bind (icall (Call ''malloc'' [I (int (PSEUDO_LEN + UDP_HDR_LEN + data_len))])) (\<lambda>pseudogram.
            if pseudogram = 0 then stop (Undef ''null pointer dereference'')
            else case udp_check data_len (udp_fields data buf) of
              None \<Rightarrow> stop (Undef ''read past pseudogram'')
            | Some buf \<Rightarrow>
                seq (emit (Did ''free'' [I pseudogram]))
                  (raw_send sockfd ifindex (take (ETH_HDR_LEN + IP_HDR_LEN + UDP_HDR_LEN + data_len) buf)
                    (''Ethernet + IP + UDP packet sent successfully'' @ [LF]))))"

definition raw_udp_main :: "char list \<Rightarrow> int prog" where
  "raw_udp_main junk = bind raw_open (\<lambda>(sockfd, ifindex, mac). raw_udp_packet junk PAYLOAD sockfd ifindex mac)"

definition raw_eth_main :: "char list \<Rightarrow> int prog" where
  "raw_eth_main junk =
     bind raw_open (\<lambda>(sockfd, ifindex, mac).
       let pload = ''Hello, Ethernet!''; tx_len = ETH_HDR_LEN + length pload in
       raw_send sockfd ifindex (take tx_len (put ETH_HDR_LEN pload (eth_header mac junk)))
         (''Packet sent successfully'' @ [LF]))"

section \<open>What the checksum is\<close>

text \<open>The sum of the 16-bit numbers of a buffer, and its sum with the carries added back in.\<close>

fun shorts :: "char list \<Rightarrow> nat" where
  "shorts [] = 0"
| "shorts [a] = of_char a"
| "shorts (a # b # bs) = of_char a + 256 * of_char b + shorts bs"

definition fold16 :: "nat \<Rightarrow> nat" where
  "fold16 n = (let f = n div 65536 + n mod 65536 in (f + f div 65536) mod 65536)"

lemma of_char_less: "(of_char c :: nat) < 256"
  by (metis of_char_mod_256 mod_less_divisor zero_less_numeral)

lemma short_le: "of_char a + 256 * of_char b \<le> (65535 :: nat)"
  using of_char_less[of a] of_char_less[of b] by linarith

lemma byte_le: "of_char a \<le> (65535 :: nat)"
  using of_char_less[of a] by linarith

lemma shorts_bound: "shorts bs \<le> 65535 * ((length bs + 1) div 2)"
proof (induction bs rule: shorts.induct)
  case (2 a)
  then show ?case by (simp add: byte_le)
next
  case (3 a b bs)
  then show ?case using add_mono[OF short_le[of a b]] by simp
qed simp

lemma checksum_loop_eq: "checksum_loop t bs (length bs) = Some (t + of_nat (shorts bs))"
  by (induction bs arbitrary: t rule: shorts.induct) (simp_all add: byte64_def short64_def add.assoc)

lemma checksum_loop_take: "len \<le> length bs \<Longrightarrow> checksum_loop t bs len = Some (t + of_nat (shorts (take len bs)))"
proof (induction t bs len rule: checksum_loop.induct)
  case (3 t a b buf len)
  then show ?case by (simp add: short64_def byte64_def add.assoc)
qed (auto simp: byte64_def)

lemma unat64: "n < 2 ^ 64 \<Longrightarrow> unat (of_nat n :: 64 word) = n"
  by (simp add: unsigned_of_nat take_bit_nat_eq_self)

lemma drop16: "n < 2 ^ 64 \<Longrightarrow> drop_bit 16 (of_nat n :: 64 word) = of_nat (n div 65536)"
proof (rule word_unat_eq_iff[THEN iffD2])
  assume n: "n < 2 ^ 64"
  then have "n div 65536 < 2 ^ 64" by (rule order.strict_trans1[OF div_le_dividend])
  with n show "unat (drop_bit 16 (of_nat n :: 64 word)) = unat (of_nat (n div 65536) :: 64 word)"
    by (simp only: unat_drop_bit_eq unat64) (simp add: drop_bit_eq_div)
qed

lemma low16: "(of_nat n :: 64 word) AND 0xffff = of_nat (n mod 65536)"
proof -
  have "(0xffff :: 64 word) = mask 16" by (simp add: mask_eq_exp_minus_1)
  then have "(of_nat n :: 64 word) AND 0xffff = take_bit 16 (of_nat n)" by (simp only: take_bit_eq_mask)
  also have "\<dots> = of_nat (take_bit 16 n)" by (rule take_bit_of_nat)
  finally show ?thesis by (simp add: take_bit_eq_mod)
qed

lemma not16: "(ucast (NOT (of_nat n :: 64 word)) :: 16 word) = of_nat (65535 - n mod 65536)"
proof -
  have "(ucast (NOT (of_nat n :: 64 word)) :: 16 word) = NOT (ucast (of_nat n :: 64 word))"
    by (rule bit_word_eqI) (simp add: bit_simps)
  also have "(ucast (of_nat n :: 64 word) :: 16 word) = of_nat (n mod 65536)"
    by (rule word_unat_eq_iff[THEN iffD2]) (simp add: unsigned_ucast_eq unat_of_nat take_bit_eq_mod mod_mod_cancel)
  also have "NOT (of_nat (n mod 65536) :: 16 word) = - of_nat (n mod 65536) - 1" by (rule not_eq_complement)
  also have "\<dots> = of_nat (65535 - n mod 65536)"
    by (simp add: of_nat_diff)
  finally show ?thesis .
qed

lemma fold16_word:
  assumes "n < 2 ^ 32"
  shows "(let t = of_nat n :: 64 word; t = drop_bit 16 t + (t AND 0xffff); t = t + drop_bit 16 t in ucast (NOT t)) =
     (of_nat (65535 - fold16 n) :: 16 word)"
proof -
  let ?f = "n div 65536 + n mod 65536"
  have n: "n < 2 ^ 64" using assms by simp
  have "n div 65536 \<le> n" "n mod 65536 \<le> n" by simp_all
  then have "?f \<le> 2 * n" by linarith
  then have f: "?f < 2 ^ 64" using assms by simp
  have "drop_bit 16 (of_nat n :: 64 word) + (of_nat n AND 0xffff) = of_nat ?f"
    by (simp only: drop16[OF n] low16 of_nat_add)
  moreover note drop16[OF f]
  ultimately show ?thesis unfolding Let_def fold16_def by (simp only: not16 flip: of_nat_add)
qed

lemma checksum_eq:
  assumes "len \<le> length bs" "len \<le> 65536"
  shows "checksum bs len = Some (of_nat (65535 - fold16 (shorts (take len bs))))"
proof -
  have "shorts (take len bs) < 2 ^ 32" using shorts_bound[of "take len bs"] assms by simp
  from fold16_word[OF this] show ?thesis using assms(1) by (simp add: checksum_def checksum_loop_take Let_def)
qed

text \<open>The carries added back in make the sum a number modulo 65535, with 65535 for its multiples but 0.\<close>

lemma fold16_canonical:
  assumes "0 < n" "n < 2 ^ 32"
  shows "fold16 n = (n - 1) mod 65535 + 1"
proof -
  define h l where "h = n div 65536" and "l = n mod 65536"
  have n: "n = 65535 * h + (h + l)" using div_mult_mod_eq[of n 65536] unfolding h_def l_def by linarith
  have b: "h < 65536" "l < 65536" using assms(2) by (simp_all add: h_def l_def div_less_iff_less_mult)
  have f: "fold16 n = (h + l + (h + l) div 65536) mod 65536" by (simp add: fold16_def h_def l_def Let_def)
  show ?thesis
  proof (cases "h + l < 65536")
    case True
    have "n - 1 = 65535 * h + (h + l - 1)" "h + l - 1 < 65535" "0 < h + l" using True n assms(1) by auto
    then have "(n - 1) mod 65535 = h + l - 1" by (metis mod_less mod_mult_self4)
    with True \<open>0 < h + l\<close> show ?thesis by (simp add: f)
  next
    case False
    then obtain k where k: "h + l = 65536 + k" using le_Suc_ex not_less by blast
    then have "n - 1 = 65535 * (h + 1) + k" "k < 65535" using n b by auto
    then have "(n - 1) mod 65535 = k" by (metis mod_less mod_mult_self4)
    moreover have "(h + l) div 65536 = 1" "k + 1 < 65536" using k \<open>k < 65535\<close> by simp_all
    moreover have "(65536 + k + 1) mod 65536 = k + 1"
      using \<open>k + 1 < 65536\<close> by (metis add.assoc mod_add_self1 mod_less)
    ultimately show ?thesis unfolding f k by simp
  qed
qed

lemma fold16_0: "fold16 0 = 0"
  by (simp add: fold16_def)

lemma fold16_less: "fold16 n < 65536"
  by (simp add: fold16_def Let_def)

text \<open>With the complement of the sum added, the sum is a multiple of 65535.\<close>

lemma fold16_complete:
  assumes "n + 65535 < 2 ^ 32"
  shows "fold16 (n + (65535 - fold16 n)) = 65535"
proof (cases "n = 0")
  case True
  then show ?thesis by (simp add: fold16_0) (simp add: fold16_def)
next
  case False
  define q r where "q = (n - 1) div 65535" and "r = (n - 1) mod 65535"
  have f: "fold16 n = r + 1" using fold16_canonical False assms by (simp add: r_def)
  have "r < 65535" "n = 65535 * q + r + 1"
    using False div_mult_mod_eq[of "n - 1" 65535] by (simp_all add: q_def r_def)
  then have "n + (65535 - fold16 n) = 65535 * (q + 1)" unfolding f by simp
  moreover have "fold16 (65535 * (q + 1)) = (65535 * (q + 1) - 1) mod 65535 + 1"
    using calculation assms by (intro fold16_canonical) auto
  moreover have "(65535 * (q + 1) - 1) mod 65535 = 65534"
  proof -
    have "65535 * (q + 1) - 1 = 65535 * q + 65534" by simp
    also have "\<dots> mod 65535 = 65534 mod 65535" by (rule mod_mult_self4)
    finally show ?thesis by simp
  qed
  ultimately show ?thesis by simp
qed

lemma shorts_append: "even (length a) \<Longrightarrow> shorts (a @ b) = shorts a + shorts b"
  by (induction a rule: shorts.induct) auto

lemma shorts_host16: "shorts (host16 c) = unat c"
proof -
  have "unat c < 65536" using unsigned_less[of c, where ?'a = nat] by simp
  then have "unat c div 256 < 256" by (simp add: div_less_iff_less_mult)
  then show ?thesis using mod_mult_div_eq[of "unat c" 256] by (simp add: host16_def)
qed

lemma length_host16 [simp]: "length (host16 c) = 2" by (simp add: host16_def)
lemma length_net16 [simp]: "length (net16 n) = 2" by (simp add: net16_def)

text \<open>A checksum stored where there was 0 makes the checksum of the whole 0.\<close>

lemma checksum_completes:
  assumes "even (length a)" "length (a @ host16 0 @ b) = len" "len \<le> 65536"
  shows "\<exists>c. checksum (a @ host16 0 @ b) len = Some c \<and> checksum (a @ host16 c @ b) len = Some 0"
proof (intro exI conjI)
  let ?n = "shorts a + shorts b" and ?c = "of_nat (65535 - fold16 (shorts a + shorts b)) :: 16 word"
  have sh: "shorts (a @ host16 c @ b) = unat c + ?n" for c
    using assms(1) by (simp add: shorts_append shorts_host16)
  show "checksum (a @ host16 0 @ b) len = Some ?c" using checksum_eq[of len "a @ host16 0 @ b"] assms sh by simp
  have "?n + 65535 < 2 ^ 32" using shorts_bound[of "a @ host16 0 @ b"] sh[of 0] assms by simp
  moreover have "unat ?c = 65535 - fold16 ?n" by (simp add: unsigned_of_nat take_bit_nat_eq_self)
  ultimately have "fold16 (shorts (a @ host16 ?c @ b)) = 65535" using fold16_complete[of ?n] sh[of ?c] by (simp add: add.commute)
  with checksum_eq[of len "a @ host16 ?c @ b"] assms show "checksum (a @ host16 ?c @ b) len = Some 0" by simp
qed


section \<open>What is sent\<close>

definition ip_bytes :: "nat \<Rightarrow> 16 word \<Rightarrow> string" where
  "ip_bytes data_len c = ([char_of (0x45::nat), NUL] @ net16 (28 + data_len) @ net16 12345 @ net16 0 @ [char_of (64::nat), char_of (17::nat)]) @
     host16 c @ saddr @ daddr"

definition udp_bytes :: "nat \<Rightarrow> 16 word \<Rightarrow> string" where
  "udp_bytes data_len c = (net16 12345 @ net16 54321 @ net16 (8 + data_len)) @ host16 c"

lemma put_next: "length a = off \<Longrightarrow> put off t (a @ drop off b) = (a @ t) @ drop (off + length t) b"
  by (simp add: put_def add.commute)

lemma eth_header_eq: "length mac = 6 \<Longrightarrow> eth_header mac b = (dest_mac @ mac @ [CHR 0x08, NUL]) @ drop 14 b"
  unfolding eth_header_def
  using put_next[of "[]" 0 dest_mac b] put_next[of dest_mac 6 mac b] put_next[of "dest_mac @ mac" 12 "[CHR 0x08, NUL]" b]
  by simp

lemma ip_fields_eq:
  assumes "length a = 14"
  shows "ip_fields n (a @ drop 14 b) = (a @ ip_bytes n 0) @ drop 34 b"
  using assms unfolding ip_fields_def ip_bytes_def by (simp add: put_def numeral_eq_Suc)

lemma length_ip_bytes [simp]: "length (ip_bytes n c) = 20" by (simp add: ip_bytes_def)
lemma length_udp_bytes [simp]: "length (udp_bytes n c) = 8" by (simp add: udp_bytes_def)

lemma ip_check_eq:
  assumes "length a = 14"
  shows "\<exists>c. ip_check ((a @ ip_bytes n 0) @ rest) = Some ((a @ ip_bytes n c) @ rest) \<and> checksum (ip_bytes n c) 20 = Some 0"
proof -
  let ?front = "[char_of (0x45::nat), NUL] @ net16 (28 + n) @ net16 12345 @ net16 0 @ [char_of (64::nat), char_of (17::nat)]"
  obtain c where c: "checksum (ip_bytes n 0) 20 = Some c" "checksum (ip_bytes n c) 20 = Some 0"
    using checksum_completes[of ?front "saddr @ daddr" 20] unfolding ip_bytes_def by auto
  have "checksum (ip_bytes n 0 @ rest) 20 = checksum (ip_bytes n 0) 20" by (simp add: checksum_eq)
  moreover have "put 24 (host16 c) ((a @ ip_bytes n 0) @ rest) = (a @ ip_bytes n c) @ rest"
    using put_middle[of "a @ ?front" 24 "host16 0" "host16 c" "saddr @ daddr @ rest"] assms by (simp add: ip_bytes_def)
  ultimately show ?thesis using c assms by (intro exI[of _ c]) (simp add: ip_check_def)
qed

lemma udp_fields_eq:
  assumes "length a = 34"
  shows "udp_fields data (a @ drop 34 b) = (a @ udp_bytes (length data) 0 @ data) @ drop (42 + length data) b"
proof -
  let ?s = "net16 12345" and ?d = "net16 54321" and ?l = "net16 (8 + length data)"
  have "put 34 ?s (a @ drop 34 b) = (a @ ?s) @ drop 36 b" using put_next[of a 34 ?s b] assms by simp
  moreover have "put 36 ?d ((a @ ?s) @ drop 36 b) = (a @ ?s @ ?d) @ drop 38 b" using put_next[of "a @ ?s" 36 ?d b] assms by simp
  moreover have "put 38 ?l ((a @ ?s @ ?d) @ drop 38 b) = (a @ ?s @ ?d @ ?l) @ drop 40 b"
    using put_next[of "a @ ?s @ ?d" 38 ?l b] assms by simp
  moreover have "put 40 (host16 0) ((a @ ?s @ ?d @ ?l) @ drop 40 b) = (a @ ?s @ ?d @ ?l @ host16 0) @ drop 42 b"
    using put_next[of "a @ ?s @ ?d @ ?l" 40 "host16 0" b] assms by simp
  moreover have "put 42 data ((a @ ?s @ ?d @ ?l @ host16 0) @ drop 42 b) = (a @ udp_bytes (length data) 0 @ data) @ drop (42 + length data) b"
    using put_next[of "a @ ?s @ ?d @ ?l @ host16 0" 42 data b] assms by (simp add: udp_bytes_def)
  ultimately show ?thesis unfolding udp_fields_def Let_def by simp
qed

definition pseudo :: "nat \<Rightarrow> string" where
  "pseudo n = saddr @ daddr @ [NUL, char_of (17::nat)] @ net16 (8 + n)"

lemma udp_check_eq:
  assumes "length a = 14" "length data = n" "n \<le> 1024"
  shows "\<exists>c'. udp_check n ((a @ ip_bytes n c) @ udp_bytes n 0 @ data @ rest) = Some ((a @ ip_bytes n c) @ udp_bytes n c' @ data @ rest) \<and>
    checksum (pseudo n @ udp_bytes n c' @ data) (20 + n) = Some 0"
proof -
  let ?front = "net16 12345 @ net16 54321 @ net16 (8 + n)"
  obtain c' where c': "checksum (pseudo n @ udp_bytes n 0 @ data) (20 + n) = Some c'"
    "checksum (pseudo n @ udp_bytes n c' @ data) (20 + n) = Some 0"
    using checksum_completes[of "pseudo n @ ?front" data "20 + n"] assms unfolding udp_bytes_def by (auto simp: pseudo_def)
  have "pseudo_header n ((a @ ip_bytes n c) @ udp_bytes n 0 @ data @ rest) = pseudo n"
    using assms(1) by (simp add: pseudo_header_def pseudo_def ip_bytes_def)
  moreover have "put 40 (host16 c') ((a @ ip_bytes n c) @ udp_bytes n 0 @ data @ rest) = (a @ ip_bytes n c) @ udp_bytes n c' @ data @ rest"
    using put_middle[of "a @ ip_bytes n c @ ?front" 40 "host16 0" "host16 c'" "data @ rest"] assms(1) by (simp add: udp_bytes_def)
  ultimately show ?thesis using c' assms by (intro exI[of _ c']) (simp add: udp_check_def Let_def)
qed

text \<open>
  What a receiver checks: the addresses and the type, the lengths, both checksums, and the data.
\<close>

definition frame_ok :: "string \<Rightarrow> bool" where
  "frame_ok f \<longleftrightarrow> length f = 53 \<and> take 6 f = dest_mac \<and> take 2 (drop 12 f) = [CHR 0x08, NUL] \<and>
     take 2 (drop 16 f) = net16 (length (drop 14 f)) \<and> checksum (drop 14 f) 20 = Some 0 \<and>
     take 2 (drop 38 f) = net16 (length (drop 34 f)) \<and>
     checksum (take 8 (drop 26 f) @ [NUL, f ! 23] @ take 2 (drop 38 f) @ drop 34 f) 31 = Some 0 \<and>
     drop 42 f = PAYLOAD"

fun sends_only :: "(string \<Rightarrow> bool) \<Rightarrow> event \<Rightarrow> bool" where
  "sends_only P (Sys (Call g (I fd # S f # args)) r) = (g = ''sendto'' \<longrightarrow> P f)"
| "sends_only P (Pending (Call g (I fd # S f # args))) = (g = ''sendto'' \<longrightarrow> P f)"
| "sends_only P e = True"

lemma frame_ok_built:
  assumes "length mac = 6" "checksum (ip_bytes 11 c) 20 = Some 0" "checksum (pseudo 11 @ udp_bytes 11 c' @ PAYLOAD) 31 = Some 0"
  shows "frame_ok ((dest_mac @ mac @ [CHR 0x08, NUL]) @ ip_bytes 11 c @ udp_bytes 11 c' @ PAYLOAD)"
proof -
  have "checksum (ip_bytes 11 c @ udp_bytes 11 c' @ PAYLOAD) 20 = checksum (ip_bytes 11 c) 20" by (simp add: checksum_eq)
  then show ?thesis using assms
    by (simp add: frame_ok_def) (simp add: ip_bytes_def udp_bytes_def pseudo_def nth_append)
qed

lemma raw_fail_sends: "emits (sends_only P) (raw_fail msg)"
  unfolding raw_fail_def by (intro emits_intros) simp_all

lemma raw_send_sends: "P f \<Longrightarrow> emits (sends_only P) (raw_send fd i f msg)"
  unfolding raw_send_def by (intro emits_intros) simp_all

lemma raw_open_sends: "emits (sends_only P) raw_open"
  unfolding raw_open_def by (intro emits_intros raw_fail_sends) simp_all

text \<open>After the interface has been asked, the address has six bytes.\<close>

lemma raw_open_mac: "wp raw_open (\<lambda>(fd, i, mac) v. length mac = 6) (\<lambda>h _. \<forall>m. h \<noteq> Undef m) w"
  by (auto simp: raw_open_def raw_fail_def wp_simps split: list.splits)

lemma raw_open_val: "raw_open w = (Val (fd, i, mac), v) \<Longrightarrow> length mac = 6"
  using wpD_Val[OF raw_open_mac] by fastforce

lemma raw_frame:
  assumes "length mac = 6" "length junk = ETH_FRAME_LEN"
  shows "\<exists>b c. ip_check (ip_fields 11 (eth_header mac junk)) = Some b \<and> udp_check 11 (udp_fields PAYLOAD b) = Some c \<and> frame_ok (take 53 c)"
proof -
  let ?a = "dest_mac @ mac @ [CHR 0x08, NUL]"
  have a: "length ?a = 14" using assms(1) by simp
  have "ip_fields 11 (eth_header mac junk) = (?a @ ip_bytes 11 0) @ drop 34 junk"
    unfolding eth_header_eq[OF assms(1)] by (rule ip_fields_eq[OF a])
  with ip_check_eq[OF a] obtain c where c: "ip_check (ip_fields 11 (eth_header mac junk)) = Some ((?a @ ip_bytes 11 c) @ drop 34 junk)"
    "checksum (ip_bytes 11 c) 20 = Some 0" by metis
  have "length (?a @ ip_bytes 11 c) = 34" using a by simp
  have "length PAYLOAD = 11" by simp
  from udp_fields_eq[OF \<open>length (?a @ ip_bytes 11 c) = 34\<close>, of PAYLOAD junk, unfolded this] have
    u: "udp_fields PAYLOAD ((?a @ ip_bytes 11 c) @ drop 34 junk) = (?a @ ip_bytes 11 c) @ udp_bytes 11 0 @ PAYLOAD @ drop 53 junk" by simp
  from udp_check_eq[OF a, of PAYLOAD 11 c "drop 53 junk"] obtain c' where
    c': "udp_check 11 (udp_fields PAYLOAD ((?a @ ip_bytes 11 c) @ drop 34 junk)) = Some ((?a @ ip_bytes 11 c) @ udp_bytes 11 c' @ PAYLOAD @ drop 53 junk)"
    "checksum (pseudo 11 @ udp_bytes 11 c' @ PAYLOAD) 31 = Some 0" unfolding u by auto
  have "take 53 ((?a @ ip_bytes 11 c) @ udp_bytes 11 c' @ PAYLOAD @ drop 53 junk) = ?a @ ip_bytes 11 c @ udp_bytes 11 c' @ PAYLOAD"
    using assms(1) by simp
  with c c' frame_ok_built[OF assms(1) c(2) c'(2)] show ?thesis by (intro exI conjI) auto
qed

lemma emits_bind_val:
  assumes "emits P m" "\<And>w x v. m w = (Val x, v) \<Longrightarrow> emits P (k x)"
  shows "emits P (bind m k)"
proof (rule emitsI)
  fix w
  show "\<exists>es. trace (snd (bind m k w)) = trace w @ es \<and> list_all P es"
    by (rule loop_emits[OF refl assms(1)]) (use assms(2) in \<open>auto simp: emits_def\<close>)
qed

lemma raw_packet_sends:
  assumes "length mac = 6" "length junk = ETH_FRAME_LEN"
  shows "emits (sends_only frame_ok) (raw_udp_packet junk PAYLOAD fd i mac)"
proof -
  obtain data where data: "data = PAYLOAD" "length data = 11" by simp
  from raw_frame[OF assms] obtain b c where "ip_check (ip_fields 11 (eth_header mac junk)) = Some b"
    "udp_check 11 (udp_fields data b) = Some c" "frame_ok (take 53 c)" unfolding data(1) by blast
  with data(2) show ?thesis unfolding data(1)[symmetric] raw_udp_packet_def Let_def
    by (auto intro!: emits_intros raw_send_sends)
qed

lemma raw_udp_sends:
  assumes "length junk = ETH_FRAME_LEN"
  shows "emits (sends_only frame_ok) (raw_udp_main junk)"
  unfolding raw_udp_main_def
  by (rule emits_bind_val[OF raw_open_sends]) (auto intro: raw_packet_sends[OF _ assms] dest: raw_open_val)

text \<open>
  C1: a checksum stored where there was 0 makes the checksum over the whole 0, for every buffer of
  up to 65536 bytes. Whatever the interface answers, a datagram that is sent has the lengths of what it holds,
  and both checksums are right: over the IP header, and over the UDP pseudo-header, header and data.
\<close>

theorem udp_datagram_valid:
  "(even (length a) \<and> length (a @ host16 0 @ b) = len \<and> len \<le> 65536 \<longrightarrow>
      (\<exists>c. checksum (a @ host16 0 @ b) len = Some c \<and> checksum (a @ host16 c @ b) len = Some 0)) \<and>
   (length junk = ETH_FRAME_LEN \<and> raw_udp_main junk w = (r, v) \<longrightarrow>
      (\<exists>es. trace v = trace w @ es \<and> list_all (sends_only frame_ok) es))"
  using checksum_completes[of a b len] emitsD[OF raw_udp_sends, of junk w r v] by metis

theorem udp_datagram_valid_witness:
  "\<exists>f. frame_ok f \<and> Sys (Call ''sendto'' [I 3, S f, I 0, I 2, I 6, S dest_mac]) (Ret 53) \<in>
     set (trace (snd (raw_udp_main (replicate 1514 NUL) (boot [Ret 3, Outs 0 [2], Outs 0 [1, 2, 3, 4, 5, 6], Ret 99, Ret 53, Ret 0]))))"
proof -
  let ?w = "boot [Ret 3, Outs 0 [2], Outs 0 [1, 2, 3, 4, 5, 6], Ret 99, Ret 53, Ret 0]"
  let ?mac = "map char_of [1, 2, 3, 4, 5, 6 :: nat]" and ?run = "raw_udp_main (replicate 1514 NUL) ?w"
  obtain junk where junk: "replicate 1514 NUL = junk" "length junk = ETH_FRAME_LEN" by simp
  obtain data where data: "PAYLOAD = data" "length data = 11" by simp
  from raw_frame[of ?mac, OF _ junk(2)] obtain b c where bc: "ip_check (ip_fields 11 (eth_header ?mac junk)) = Some b"
    "udp_check 11 (udp_fields data b) = Some c" unfolding data by auto
  have "raw_open ?w = (Val (3, 2, ?mac), answered (Call ''ioctl'' [I 3, S ''SIOCGIFHWADDR'', S ''wlo1'']) (Outs 0 [1, 2, 3, 4, 5, 6])
      (answered (Call ''ioctl'' [I 3, S ''SIOCGIFINDEX'', S ''wlo1'']) (Outs 0 [2])
      (answered (Call ''socket'' [S ''AF_PACKET'', S ''SOCK_RAW'', S ''ETH_P_ALL'']) (Ret 3) ?w)))"
    by (simp add: raw_open_def run_defs out_def upt_rec)
  then have "Sys (Call ''sendto'' [I 3, S (take 53 c), I 0, I 2, I 6, S dest_mac]) (Ret 53) \<in> set (trace (snd ?run))"
    unfolding raw_udp_main_def junk data
    using bc data(2) by (simp add: bind_def raw_udp_packet_def raw_send_def run_defs answered_def boot_def)
  moreover obtain r v where rv: "?run = (r, v)" by (cases ?run)
  ultimately show ?thesis
    using udp_datagram_valid[of "[]" "[]" 2 "replicate 1514 NUL" ?w r v, THEN conjunct2]
    by (intro exI[of _ "take 53 c"]) (auto simp: list_all_iff boot_def)
qed

end
